(* ===== verification/Prelude.thy ===== *)
theory Prelude
  imports Main "HOL-Library.Word" "HOL-Library.Monad_Syntax"
begin

text \<open>
  What the component theories share: the fixed-width arithmetic of the C code, status codes,
  array accesses that fail out of range, the total-correctness judgement \<open>ok\<close> with its rules, and
  the loop combinators that stand for the \<open>for\<close> and \<open>while\<close> loops of the sources.

  \<^item> Undefined behaviour is a value. A definition that reads or writes an array has an \<open>option\<close>
    result, and \<open>None\<close> means that an access left the array. The theorems of the form \<open>ok m P\<close> say
    that \<open>m\<close> performs no such access and that its result satisfies \<open>P\<close>.
  \<^item> \<open>UINTN\<close> is 64 bits wide on both supported architectures (AARCH64, X64). A \<open>UINTN\<close> is a
    natural number below \<open>2 ^ 64\<close>; \<open>uadd\<close>, \<open>usub\<close> and \<open>umul\<close> wrap around as the C operators do.
\<close>

section \<open>Machine arithmetic\<close>

type_synonym UINTN = nat
type_synonym UINT8 = "8 word"
type_synonym CHAR16 = "16 word"
type_synonym UINT32 = "32 word"
type_synonym INT32 = int

definition uadd :: "UINTN \<Rightarrow> UINTN \<Rightarrow> UINTN" where
  "uadd a b = (a + b) mod 2 ^ 64"

definition usub :: "UINTN \<Rightarrow> UINTN \<Rightarrow> UINTN" where
  "usub a b = (a + (2 ^ 64 - b mod 2 ^ 64)) mod 2 ^ 64"

definition umul :: "UINTN \<Rightarrow> UINTN \<Rightarrow> UINTN" where
  "umul a b = (a * b) mod 2 ^ 64"

definition UINT16_cast :: "UINTN \<Rightarrow> nat" where
  "UINT16_cast a = a mod 2 ^ 16"

definition UINTN_of_INT32 :: "INT32 \<Rightarrow> UINTN" where
  "UINTN_of_INT32 v = nat (v mod 2 ^ 64)"

definition INT32_of_UINTN :: "UINTN \<Rightarrow> INT32" where
  "INT32_of_UINTN a = (int a + 2 ^ 31) mod 2 ^ 32 - 2 ^ 31"

text \<open>Inside the machine's range the operators are the ordinary ones.\<close>

lemma uadd_eq [simp]: "a + b < 2 ^ 64 \<Longrightarrow> uadd a b = a + b"
  by (simp add: uadd_def)

lemma umul_eq [simp]: "a * b < 2 ^ 64 \<Longrightarrow> umul a b = a * b"
  by (simp add: umul_def)

lemma usub_eq [simp]: "b \<le> a \<Longrightarrow> a < 2 ^ 64 \<Longrightarrow> usub a b = a - b"
proof -
  assume ba: "b \<le> a" and a: "a < 2 ^ 64"
  then have "b mod 2 ^ 64 = b" by simp
  then have "a + (2 ^ 64 - b mod 2 ^ 64) = (a - b) + 2 ^ 64" using ba a by simp
  then show ?thesis using a by (simp add: usub_def)
qed

text \<open>Below zero, subtraction wraps to the top of the range.\<close>

lemma usub_underflow: "a < b \<Longrightarrow> b < 2 ^ 64 \<Longrightarrow> usub a b = 2 ^ 64 - (b - a)"
  by (simp add: usub_def)

lemma usub_lt: "usub a b < 2 ^ 64"
  by (simp add: usub_def)

lemma UINT16_cast_eq [simp]: "a < 65536 \<Longrightarrow> UINT16_cast a = a"
  by (simp add: UINT16_cast_def)

lemma UINTN_of_INT32_eq [simp]: "0 \<le> v \<Longrightarrow> v < 2 ^ 31 \<Longrightarrow> UINTN_of_INT32 v = nat v"
  by (simp add: UINTN_of_INT32_def)

lemma INT32_of_UINTN_eq [simp]: "a < 2 ^ 31 \<Longrightarrow> INT32_of_UINTN a = int a"
  by (simp add: INT32_of_UINTN_def)

section \<open>Status codes\<close>

text \<open>
  The \<open>EFI_STATUS\<close> values the sources name; the last two constructors stand for every other
  warning and error code the firmware may return. \<open>EFI_ERROR\<close> is the macro that tests the top
  bit, which is set in exactly the error codes.
\<close>

datatype EFI_STATUS =
    EFI_SUCCESS
  | EFI_INVALID_PARAMETER
  | EFI_UNSUPPORTED
  | EFI_BUFFER_TOO_SMALL
  | EFI_NOT_READY
  | EFI_DEVICE_ERROR
  | EFI_OUT_OF_RESOURCES
  | EFI_NOT_FOUND
  | EFI_TIMEOUT
  | EFI_NO_MAPPING
  | EFI_PROTOCOL_ERROR
  | EFI_CONNECTION_FIN
  | EFI_CONNECTION_RESET
  | EFI_OTHER_WARNING nat
  | EFI_OTHER_ERROR nat

fun EFI_ERROR :: "EFI_STATUS \<Rightarrow> bool" where
  "EFI_ERROR EFI_SUCCESS = False"
| "EFI_ERROR (EFI_OTHER_WARNING _) = False"
| "EFI_ERROR _ = True"

section \<open>Total correctness of an option result\<close>

definition ok :: "'a option \<Rightarrow> ('a \<Rightarrow> bool) \<Rightarrow> bool" where
  "ok m P \<longleftrightarrow> (\<exists>x. m = Some x \<and> P x)"

lemma ok_Some [simp]: "ok (Some x) P = P x"
  by (simp add: ok_def)

lemma ok_None [simp]: "\<not> ok None P"
  by (simp add: ok_def)

lemma ok_bind [simp]: "ok (Option.bind m f) P = ok m (\<lambda>x. ok (f x) P)"
  by (cases m) auto

lemma ok_if [simp]: "ok (if b then m else n) P = (if b then ok m P else ok n P)"
  by simp

lemma ok_map_option [simp]: "ok (map_option f m) P = ok m (\<lambda>x. P (f x))"
  by (cases m) auto

lemma ok_mono: "ok m Q \<Longrightarrow> (\<And>x. m = Some x \<Longrightarrow> Q x \<Longrightarrow> P x) \<Longrightarrow> ok m P"
  by (auto simp: ok_def)

lemma ok_conj: "ok m P \<Longrightarrow> ok m Q \<Longrightarrow> ok m (\<lambda>x. P x \<and> Q x)"
  by (auto simp: ok_def)

lemma okE: "ok m P \<Longrightarrow> (\<And>x. m = Some x \<Longrightarrow> P x \<Longrightarrow> R) \<Longrightarrow> R"
  by (auto simp: ok_def)

lemma ok_SomeI: "m = Some x \<Longrightarrow> P x \<Longrightarrow> ok m P"
  by simp

lemma ok_exists: "ok m P \<Longrightarrow> \<exists>x. m = Some x \<and> P x"
  by (simp add: ok_def)

section \<open>Arrays\<close>

text \<open>An array is a list of fixed length; an access at or past its end is \<open>None\<close>.\<close>

definition aget :: "'a list \<Rightarrow> nat \<Rightarrow> 'a option" where
  "aget xs i = (if i < length xs then Some (xs ! i) else None)"

definition aset :: "'a list \<Rightarrow> nat \<Rightarrow> 'a \<Rightarrow> 'a list option" where
  "aset xs i v = (if i < length xs then Some (xs[i := v]) else None)"

text \<open>
  \<open>CopyMem\<close> between arrays of elements: \<open>n\<close> elements of \<open>src\<close> from index \<open>s\<close> on replace those of
  \<open>dst\<close> from index \<open>d\<close> on. Both ranges must lie inside their arrays; they may overlap, as
  \<open>CopyMem\<close> allows.
\<close>

definition CopyMem :: "'a list \<Rightarrow> nat \<Rightarrow> 'a list \<Rightarrow> nat \<Rightarrow> nat \<Rightarrow> 'a list option" where
  "CopyMem dst d src s n =
     (if d + n \<le> length dst \<and> s + n \<le> length src
      then Some (take d dst @ take n (drop s src) @ drop (d + n) dst)
      else None)"

text \<open>Reading \<open>n\<close> elements from index \<open>s\<close> on.\<close>

definition aread :: "'a list \<Rightarrow> nat \<Rightarrow> nat \<Rightarrow> 'a list option" where
  "aread xs s n = (if s + n \<le> length xs then Some (take n (drop s xs)) else None)"

lemma aget_Some [simp]: "i < length xs \<Longrightarrow> aget xs i = Some (xs ! i)"
  by (simp add: aget_def)

lemma aset_Some [simp]: "i < length xs \<Longrightarrow> aset xs i v = Some (xs[i := v])"
  by (simp add: aset_def)

lemma CopyMem_length: "CopyMem dst d src s n = Some r \<Longrightarrow> length r = length dst"
  by (auto simp: CopyMem_def split: if_splits)

lemma CopyMem_nth:
  assumes "d + n \<le> length dst" and "s + n \<le> length src"
  shows "ok (CopyMem dst d src s n) (\<lambda>r. length r = length dst \<and>
     (\<forall>i < length dst. r ! i = (if d \<le> i \<and> i < d + n then src ! (s + (i - d)) else dst ! i)))"
proof -
  let ?r = "(take d dst @ take n (drop s src)) @ drop (d + n) dst"
  have len: "length (take d dst @ take n (drop s src)) = d + n" using assms by simp
  have "?r ! i = (if d \<le> i \<and> i < d + n then src ! (s + (i - d)) else dst ! i)"
    if "i < length dst" for i
  proof (cases "i < d + n")
    case True
    then have "?r ! i = (take d dst @ take n (drop s src)) ! i"
      by (simp only: nth_append len if_True)
    then show ?thesis using True assms by (auto simp: nth_append)
  next
    case False
    then have "?r ! i = drop (d + n) dst ! (i - (d + n))"
      by (simp only: nth_append len if_False)
    then show ?thesis using False assms by simp
  qed
  then show ?thesis using assms by (simp add: CopyMem_def)
qed

text \<open>The text before the terminator of a \<open>CHAR8\<close> buffer.\<close>

definition cstr :: "UINT8 list \<Rightarrow> UINT8 list" where
  "cstr buf = takeWhile (\<lambda>c. c \<noteq> 0) buf"

lemma cstr_length: "length (cstr buf) \<le> length buf"
  by (simp add: cstr_def length_takeWhile_le)

lemma cstr_end: "0 \<in> set buf \<Longrightarrow> length (cstr buf) < length buf \<and> buf ! length (cstr buf) = 0"
  by (induction buf) (auto simp: cstr_def)

lemma cstr_nth: "i < length (cstr buf) \<Longrightarrow> buf ! i \<noteq> 0 \<and> cstr buf ! i = buf ! i"
proof -
  assume i: "i < length (cstr buf)"
  then have "cstr buf ! i \<in> set (takeWhile (\<lambda>c. c \<noteq> 0) buf)" by (simp add: cstr_def)
  moreover have "cstr buf ! i = buf ! i" using i by (simp add: cstr_def takeWhile_nth)
  ultimately show ?thesis by (auto dest: set_takeWhileD)
qed

lemma cstr_nonzero: "c \<in> set (cstr buf) \<Longrightarrow> c \<noteq> 0"
  unfolding cstr_def by (auto dest: set_takeWhileD)

text \<open>An array that a loop is filling from the left, and the step of that loop.\<close>

lemma replicate_fill:
  assumes "j < length ys"
  shows "(replicate j x @ drop j ys)[j := x] = replicate (Suc j) x @ drop (Suc j) ys"
proof -
  have "drop j ys = ys ! j # drop (Suc j) ys" using assms by (simp add: Cons_nth_drop_Suc)
  then show ?thesis by (simp add: list_update_append replicate_app_Cons_same)
qed

section \<open>Loops\<close>

text \<open>
  \<open>for_plus i k n body s\<close> is the loop \<open>for (; i + k < n; i++) body (i)\<close>; it returns the counter
  as well. \<open>for_below\<close> is the same loop with \<open>k = 0\<close> whose counter is not used afterwards, and
  \<open>for_downto x b body\<close> is \<open>while (x-- > b) body (x)\<close>. The bounds of every loop modelled with
  them are not written by the loop's body.
\<close>

function for_plus :: "nat \<Rightarrow> nat \<Rightarrow> nat \<Rightarrow> (nat \<Rightarrow> 's \<Rightarrow> 's option) \<Rightarrow> 's \<Rightarrow> (nat \<times> 's) option" where
  "for_plus i k n body s =
     (if i + k < n then do { s' \<leftarrow> body i s; for_plus (Suc i) k n body s' } else Some (i, s))"
  by pat_completeness auto
termination
  by (relation "measure (\<lambda>(i, k, n, body, s). n - i)") auto

function for_downto :: "nat \<Rightarrow> nat \<Rightarrow> (nat \<Rightarrow> 's \<Rightarrow> 's option) \<Rightarrow> 's \<Rightarrow> 's option" where
  "for_downto x b body s =
     (if b < x then do { s' \<leftarrow> body (x - 1) s; for_downto (x - 1) b body s' } else Some s)"
  by pat_completeness auto
termination
  by (relation "measure (\<lambda>(x, b, body, s). x)") auto

declare for_plus.simps [simp del] for_downto.simps [simp del]

definition for_below :: "nat \<Rightarrow> nat \<Rightarrow> (nat \<Rightarrow> 's \<Rightarrow> 's option) \<Rightarrow> 's \<Rightarrow> 's option" where
  "for_below i n body s = map_option snd (for_plus i 0 n body s)"

lemma for_plus_ok:
  assumes "I i s"
    and "\<And>j s. i \<le> j \<Longrightarrow> j + k < n \<Longrightarrow> I j s \<Longrightarrow> ok (body j s) (I (Suc j))"
  shows "ok (for_plus i k n body s) (\<lambda>(j, s'). I j s' \<and> j = max i (n - k))"
  using assms
proof (induction i k n body s rule: for_plus.induct)
  case (1 i k n body s)
  show ?case
  proof (cases "i + k < n")
    case True
    from "1.prems" True have "ok (body i s) (I (Suc i))" by simp
    then obtain s' where s': "body i s = Some s'" "I (Suc i) s'" by (elim okE)
    have "ok (for_plus (Suc i) k n body s') (\<lambda>(j, s'). I j s' \<and> j = max (Suc i) (n - k))"
      using "1.IH" [OF True] s' "1.prems"(2) by simp
    moreover have "max (Suc i) (n - k) = max i (n - k)" using True by simp
    ultimately show ?thesis using True s' by (simp add: for_plus.simps [of i])
  next
    case False
    then show ?thesis using "1.prems" by (auto simp: for_plus.simps [of i])
  qed
qed

lemma for_below_ok:
  assumes "I i s"
    and "\<And>j s. i \<le> j \<Longrightarrow> j < n \<Longrightarrow> I j s \<Longrightarrow> ok (body j s) (I (Suc j))"
  shows "ok (for_below i n body s) (I (max i n))"
proof -
  have "ok (for_plus i 0 n body s) (\<lambda>(j, s'). I j s' \<and> j = max i (n - 0))"
    using assms by (intro for_plus_ok) auto
  then show ?thesis unfolding for_below_def ok_map_option
    by (rule ok_mono) auto
qed

lemma for_downto_ok:
  assumes "I x s" and "b \<le> x"
    and "\<And>j s. b \<le> j \<Longrightarrow> j < x \<Longrightarrow> I (Suc j) s \<Longrightarrow> ok (body j s) (I j)"
  shows "ok (for_downto x b body s) (I b)"
  using assms
proof (induction x b body s rule: for_downto.induct)
  case (1 x b body s)
  show ?case
  proof (cases "b < x")
    case True
    with "1.prems" have "ok (body (x - 1) s) (I (x - 1))" by simp
    then obtain s' where s': "body (x - 1) s = Some s'" "I (x - 1) s'" by (elim okE)
    have "ok (for_downto (x - 1) b body s') (I b)"
      using "1.IH" [OF True] s' "1.prems"(3) True by simp
    then show ?thesis using True s' by (simp add: for_downto.simps [of x])
  next
    case False
    then show ?thesis using "1.prems" by (simp add: for_downto.simps [of x])
  qed
qed

text \<open>The bodies of two equal loops only have to agree inside the loop's range.\<close>

lemma for_below_empty [simp]: "n \<le> i \<Longrightarrow> for_below i n body s = Some s"
  by (simp add: for_below_def for_plus.simps)

lemma for_below_step:
  "i < n \<Longrightarrow> for_below i n body s = Option.bind (body i s) (for_below (Suc i) n body)"
  by (cases "body i s") (auto simp: for_below_def for_plus.simps [of i])

section \<open>Machines driven by a stream\<close>

text \<open>\<open>run step\<close> feeds the elements of a list to a fallible step function, in order.\<close>

fun run :: "('s \<Rightarrow> 'b \<Rightarrow> 's option) \<Rightarrow> 's \<Rightarrow> 'b list \<Rightarrow> 's option" where
  "run step s [] = Some s"
| "run step s (b # bs) = Option.bind (step s b) (\<lambda>s'. run step s' bs)"

lemma run_append: "run step s (xs @ ys) = Option.bind (run step s xs) (\<lambda>s'. run step s' ys)"
  by (induction xs arbitrary: s) (simp_all split: bind_splits)

lemma run_Cons_ok: "step s b = Some s' \<Longrightarrow> run step s (b # bs) = run step s' bs"
  by simp

text \<open>
  The contract of a machine that never gets stuck: an invariant that every step keeps. The lemma
  for whole runs is proved once and reused by every stream consumer of the program.
\<close>

locale safe_stream =
  fixes step :: "'s \<Rightarrow> 'b \<Rightarrow> 's option"
    and inv :: "'s \<Rightarrow> bool"
  assumes step_safe: "inv s \<Longrightarrow> ok (step s b) inv"
begin

lemma run_safe: "inv s \<Longrightarrow> ok (run step s bs) inv"
proof (induction bs arbitrary: s)
  case Nil
  then show ?case by simp
next
  case (Cons b bs)
  from step_safe [OF Cons.prems, of b] obtain s' where "step s b = Some s'" "inv s'"
    by (elim okE)
  with Cons.IH show ?case by simp
qed

lemma run_prefix_safe: "inv s \<Longrightarrow> \<exists>s'. run step s (take n bs) = Some s' \<and> inv s'"
  using run_safe by (auto simp: ok_def)

end

section \<open>Bounded queues\<close>

text \<open>
  The contract of a bounded byte queue: \<open>put\<close> appends as much as fits, \<open>get\<close> removes a prefix.
  \<open>drain\<close> is the client's loop \<open>do { n = get (buffer, size) } while (n != 0)\<close>, with fuel.
\<close>

fun drain :: "('s \<Rightarrow> nat \<Rightarrow> ('b list \<times> 's) option) \<Rightarrow> nat \<Rightarrow> nat \<Rightarrow> 's \<Rightarrow> ('b list \<times> 's) option" where
  "drain get 0 n s = None"
| "drain get (Suc fuel) n s = do {
     (out, s') \<leftarrow> get s n;
     if out = [] then Some ([], s')
     else do { (more, s'') \<leftarrow> drain get fuel n s'; Some (out @ more, s'') } }"

locale bounded_fifo =
  fixes put :: "'s \<Rightarrow> 'b list \<Rightarrow> 's option"
    and get :: "'s \<Rightarrow> nat \<Rightarrow> ('b list \<times> 's) option"
    and queue :: "'s \<Rightarrow> 'b list"
    and inv :: "'s \<Rightarrow> bool"
    and capacity :: nat
  assumes put_spec: "inv s \<Longrightarrow>
      ok (put s bs) (\<lambda>s'. inv s' \<and> queue s' = take capacity (queue s @ bs))"
    and get_spec: "inv s \<Longrightarrow>
      ok (get s n) (\<lambda>(out, s'). inv s' \<and> out = take n (queue s) \<and> queue s' = drop n (queue s))"
    and queue_bound: "inv s \<Longrightarrow> length (queue s) \<le> capacity"
begin

lemma put_fits:
  assumes "inv s" and "length (queue s) + length bs \<le> capacity"
  shows "ok (put s bs) (\<lambda>s'. inv s' \<and> queue s' = queue s @ bs)"
  using put_spec [OF assms(1), of bs] assms(2) by (elim ok_mono) simp

lemma drain_all:
  assumes "inv s" and "0 < n" and "length (queue s) < fuel"
  shows "ok (drain get fuel n s) (\<lambda>(out, s'). inv s' \<and> out = queue s \<and> queue s' = [])"
  using assms
proof (induction fuel arbitrary: s)
  case 0
  then show ?case by simp
next
  case (Suc fuel)
  obtain s1 where g: "get s n = Some (take n (queue s), s1)" "inv s1" "queue s1 = drop n (queue s)"
    using get_spec [OF Suc.prems(1), of n] by (auto simp: ok_def)
  show ?case
  proof (cases "queue s = []")
    case True
    then show ?thesis using g by simp
  next
    case False
    have "length (queue s1) < fuel" using False Suc.prems(2,3) g(3) by (cases "queue s") auto
    then have "ok (drain get fuel n s1) (\<lambda>(out, s'). inv s' \<and> out = queue s1 \<and> queue s' = [])"
      using Suc.IH [OF g(2) Suc.prems(2)] by blast
    then show ?thesis using False Suc.prems(2) g by (auto simp: ok_def)
  qed
qed

lemma put_get:
  assumes "inv s" and "queue s = []" and "length bs \<le> capacity" and "length bs \<le> n"
  shows "ok (do { s' \<leftarrow> put s bs; get s' n }) (\<lambda>(out, s'). inv s' \<and> out = bs \<and> queue s' = [])"
proof -
  obtain s1 where p: "put s bs = Some s1" "inv s1" "queue s1 = bs"
    using put_fits [OF assms(1), of bs] assms by (auto simp: ok_def)
  then show ?thesis using get_spec [OF p(2), of n] assms(4) by (auto simp: ok_def)
qed

end

section \<open>Loops that may not end\<close>

text \<open>
  Where the code loops until something outside the program happens, a definition gets a number of
  turns. Its result is \<open>Fault\<close> for an access outside an array, \<open>Running\<close> when the turns do not
  suffice, and otherwise the value \<open>Returned\<close>. The two failures stay apart: \<open>safe m P\<close> excludes the
  first and allows the second.
\<close>

datatype 'a outcome = Fault | Running | Returned 'a

fun andthen :: "'a outcome \<Rightarrow> ('a \<Rightarrow> 'b outcome) \<Rightarrow> 'b outcome" where
  "andthen Fault f = Fault"
| "andthen Running f = Running"
| "andthen (Returned x) f = f x"

definition lift :: "'a option \<Rightarrow> 'a outcome" where
  "lift m = (case m of None \<Rightarrow> Fault | Some x \<Rightarrow> Returned x)"

fun repeat :: "nat \<Rightarrow> ('s \<Rightarrow> ('s + 'r) outcome) \<Rightarrow> 's \<Rightarrow> 'r outcome" where
  "repeat 0 body s = Running"
| "repeat (Suc turns) body s =
     andthen (body s) (\<lambda>r. case r of Inl s \<Rightarrow> repeat turns body s | Inr x \<Rightarrow> Returned x)"

definition safe :: "'a outcome \<Rightarrow> ('a \<Rightarrow> bool) \<Rightarrow> bool" where
  "safe m P \<longleftrightarrow> m \<noteq> Fault \<and> (\<forall>x. m = Returned x \<longrightarrow> P x)"

text \<open>\<open>holds live\<close> is the same judgement, which excludes \<open>Running\<close> as well when \<open>live\<close> is true.\<close>

definition holds :: "bool \<Rightarrow> 'a outcome \<Rightarrow> ('a \<Rightarrow> bool) \<Rightarrow> bool" where
  "holds live m P \<longleftrightarrow> safe m P \<and> (live \<longrightarrow> m \<noteq> Running)"

lemma safe_simps [simp]: "safe (Returned x) P = P x" "safe Running P" "\<not> safe Fault P"
  by (simp_all add: safe_def)

lemma holds_simps [simp]: "holds live (Returned x) P = P x" "holds live Running P = (\<not> live)"
  "\<not> holds live Fault P"
  by (simp_all add: holds_def)

lemma holds_live: "holds True m P \<longleftrightarrow> (\<exists>x. m = Returned x \<and> P x)"
  by (cases m) simp_all

lemma holds_safe: "holds False m P = safe m P"
  by (simp add: holds_def)

lemma safe_andthen [simp]: "safe (andthen m f) P = safe m (\<lambda>x. safe (f x) P)"
  by (cases m) simp_all

lemma holds_andthen [simp]: "holds live (andthen m f) P = holds live m (\<lambda>x. holds live (f x) P)"
  by (cases m) simp_all

lemma safe_lift [simp]: "safe (lift m) P = ok m P"
  by (cases m) (simp_all add: lift_def)

lemma holds_lift [simp]: "holds live (lift m) P = ok m P"
  by (cases m) (simp_all add: lift_def)

lemma safe_mono: "safe m Q \<Longrightarrow> (\<And>x. m = Returned x \<Longrightarrow> Q x \<Longrightarrow> P x) \<Longrightarrow> safe m P"
  by (auto simp: safe_def)

lemma holds_mono: "holds live m Q \<Longrightarrow> (\<And>x. m = Returned x \<Longrightarrow> Q x \<Longrightarrow> P x) \<Longrightarrow> holds live m P"
  by (auto simp: holds_def elim: safe_mono)

lemma safe_repeat:
  assumes "I s" and "\<And>s. I s \<Longrightarrow> safe (body s) (\<lambda>r. case r of Inl s' \<Rightarrow> I s' | Inr x \<Rightarrow> Q x)"
  shows "safe (repeat turns body s) Q"
  using assms(1)
proof (induction turns arbitrary: s)
  case (Suc turns)
  show ?case unfolding repeat.simps safe_andthen
    by (rule safe_mono [OF assms(2) [OF Suc.prems]]) (auto split: sum.splits intro: Suc.IH)
qed simp

text \<open>A loop with a measure ends when it gets more turns than the measure.\<close>

lemma holds_repeat:
  assumes "I s" and "weight s < turns"
    and "\<And>s. I s \<Longrightarrow> holds live (body s) (\<lambda>r. case r of
      Inl s' \<Rightarrow> I s' \<and> weight s' < (weight s :: nat) | Inr x \<Rightarrow> Q x)"
  shows "holds live (repeat turns body s) Q"
  using assms(1,2)
proof (induction turns arbitrary: s)
  case (Suc turns)
  show ?case unfolding repeat.simps holds_andthen
    by (rule holds_mono [OF assms(3) [OF Suc.prems(1)]]) (use Suc in \<open>auto split: sum.splits\<close>)
qed simp

lemma lift_Some [simp]: "lift (Some x) = Returned x" "lift None = Fault"
  by (simp_all add: lift_def)

lemma andthen_Returned: "andthen m f = Returned y \<longleftrightarrow> (\<exists>x. m = Returned x \<and> f x = Returned y)"
  by (cases m) auto

end
