(* ===== verification/Args.thy ===== *)
theory Args
  imports Prelude
begin

text \<open>
  Arguments.c: the option record of WolfSshUefi.h, the text conversions (\<open>CopyUnicodeAsAscii\<close>,
  \<open>ParsePort\<close>, \<open>HexValue\<close>, \<open>ParseFingerprint\<close>, \<open>ParseTarget\<close>) and the command line parser. A
  text argument is the list of its characters, which ends at the first character 0 or with the
  list; a \<open>CHAR8\<close> buffer is a list of its full capacity.
\<close>

unbundle bit_operations_syntax

section \<open>Data\<close>

record WOLFSSH_UEFI_OPTIONS =
  Address :: "UINT8 list"
  Port :: nat
  Username :: "UINT8 list"
  Password :: "UINT8 list"
  Fingerprint :: "UINT8 list"
  HavePassword :: bool
  HaveFingerprint :: bool
  AcceptAnyHostKey :: bool
  SelfTest :: bool
  Help :: bool

definition ZeroOptions :: WOLFSSH_UEFI_OPTIONS where
  "ZeroOptions = \<lparr>Address = replicate 4 0, Port = 0, Username = replicate 64 0,
     Password = replicate 256 0, Fingerprint = replicate 65 0, HavePassword = False,
     HaveFingerprint = False, AcceptAnyHostKey = False, SelfTest = False, Help = False\<rparr>"

section \<open>Conversions\<close>

fun CopyAsciiLoop ::
  "UINTN \<Rightarrow> CHAR16 list \<Rightarrow> UINTN \<Rightarrow> UINT8 list \<Rightarrow> (EFI_STATUS \<times> UINT8 list) option" where
  "CopyAsciiLoop index [] capacity dest = do {
     dest \<leftarrow> aset dest index 0;
     Some (EFI_SUCCESS, dest) }"
| "CopyAsciiLoop index (c # cs) capacity dest =
     (if c = 0 then do {
        dest \<leftarrow> aset dest index 0;
        Some (EFI_SUCCESS, dest) }
      else if uadd index 1 \<ge> capacity \<or> c > 0x7f then do {
        dest \<leftarrow> aset dest 0 0;
        Some (EFI_INVALID_PARAMETER, dest) }
      else do {
        dest \<leftarrow> aset dest index (ucast c);
        CopyAsciiLoop (Suc index) cs capacity dest })"

definition CopyUnicodeAsAscii ::
  "CHAR16 list \<Rightarrow> UINT8 list \<Rightarrow> UINTN \<Rightarrow> (EFI_STATUS \<times> UINT8 list) option" where
  "CopyUnicodeAsAscii source dest capacity =
     (if capacity = 0 then Some (EFI_INVALID_PARAMETER, dest)
      else CopyAsciiLoop 0 source capacity dest)"

fun ParsePortLoop :: "UINTN \<Rightarrow> CHAR16 list \<Rightarrow> EFI_STATUS + UINTN" where
  "ParsePortLoop value [] = Inr value"
| "ParsePortLoop value (c # cs) =
     (if c = 0 then Inr value
      else if c < 0x30 \<or> c > 0x39 then Inl EFI_INVALID_PARAMETER
      else
        let value = uadd (umul value 10) (unat (c - 0x30))
        in if value > 65535 then Inl EFI_INVALID_PARAMETER else ParsePortLoop value cs)"

definition ParsePort :: "CHAR16 list \<Rightarrow> EFI_STATUS + nat" where
  "ParsePort text =
     (if text = [] \<or> hd text = 0 then Inl EFI_INVALID_PARAMETER
      else case ParsePortLoop 0 text of
        Inl e \<Rightarrow> Inl e
      | Inr value \<Rightarrow> if value = 0 then Inl EFI_INVALID_PARAMETER else Inr (UINT16_cast value))"

definition HexValue :: "CHAR16 \<Rightarrow> int" where
  "HexValue c =
     (if c \<ge> 0x30 \<and> c \<le> 0x39 then uint c - 0x30
      else if c \<ge> 0x61 \<and> c \<le> 0x66 then uint c - 0x61 + 10
      else if c \<ge> 0x41 \<and> c \<le> 0x46 then uint c - 0x41 + 10
      else -1)"

text \<open>The string constant \<open>"0123456789abcdef"\<close> that both Arguments.c and Auth.c index.\<close>

definition HexDigits :: "UINT8 list" where
  "HexDigits = map of_char ''0123456789abcdef''"

fun FingerprintLoop ::
  "UINTN \<Rightarrow> CHAR16 list \<Rightarrow> UINT8 list \<Rightarrow> (EFI_STATUS \<times> UINTN \<times> UINT8 list) option" where
  "FingerprintLoop out [] buf = Some (EFI_SUCCESS, out, buf)"
| "FingerprintLoop out (c # cs) buf =
     (if c = 0 then Some (EFI_SUCCESS, out, buf)
      else if c = 0x3a \<or> c = 0x2d then FingerprintLoop out cs buf
      else
        let value = HexValue c
        in if value < 0 \<or> out \<ge> 64 then Some (EFI_INVALID_PARAMETER, out, buf)
           else do {
             digit \<leftarrow> aget HexDigits (nat value);
             buf \<leftarrow> aset buf out digit;
             FingerprintLoop (Suc out) cs buf })"

definition ParseFingerprint :: "CHAR16 list \<Rightarrow> UINT8 list \<Rightarrow> (EFI_STATUS \<times> UINT8 list) option" where
  "ParseFingerprint text buf = do {
     (status, out, buf) \<leftarrow> FingerprintLoop 0 text buf;
     if EFI_ERROR status then Some (status, buf)
     else if out \<noteq> 64 then Some (EFI_INVALID_PARAMETER, buf)
     else do {
       buf \<leftarrow> aset buf out 0;
       Some (EFI_SUCCESS, buf) } }"

section \<open>The command line\<close>

text \<open>
  \<open>NetLibAsciiStrToIp4\<close> is EDK2's: a parameter that gives the status and the address for the text
  of the host. \<open>AsciiStrStr (Target, "@")\<close> is the position of the first at sign.
\<close>

type_synonym ip4_parser = "UINT8 list \<Rightarrow> EFI_STATUS \<times> UINT8 list"

definition AsciiStrStr_at :: "UINT8 list \<Rightarrow> nat option" where
  "AsciiStrStr_at s = (let n = length (takeWhile (\<lambda>c. c \<noteq> 0x40) s) in if n < length s then Some n else None)"

definition ParseHost ::
  "ip4_parser \<Rightarrow> UINT8 list \<Rightarrow> WOLFSSH_UEFI_OPTIONS \<Rightarrow> EFI_STATUS + WOLFSSH_UEFI_OPTIONS" where
  "ParseHost ip4 host options =
     (if host = [] then Inl EFI_INVALID_PARAMETER
      else case ip4 host of (status, address) \<Rightarrow>
        if EFI_ERROR status then Inl EFI_INVALID_PARAMETER
        else Inr (options\<lparr>Address := address\<rparr>))"

definition ParseTarget ::
  "ip4_parser \<Rightarrow> CHAR16 list \<Rightarrow> WOLFSSH_UEFI_OPTIONS \<Rightarrow> bool \<Rightarrow>
   (EFI_STATUS + WOLFSSH_UEFI_OPTIONS) option" where
  "ParseTarget ip4 text options haveSeparateUsername = do {
     (status, target) \<leftarrow> CopyUnicodeAsAscii text (replicate 128 0) 128;
     if EFI_ERROR status then Some (Inl EFI_INVALID_PARAMETER)
     else case AsciiStrStr_at (cstr target) of
       Some at \<Rightarrow> do {
         let host = drop (at + 1) (cstr target);
         target \<leftarrow> aset target at 0;
         let len = length (cstr target);
         if len = 0 \<or> len \<ge> 64 then Some (Inl EFI_INVALID_PARAMETER)
         else do {
           username \<leftarrow> CopyMem (Username options) 0 target 0 (len + 1);
           Some (ParseHost ip4 host (options\<lparr>Username := username\<rparr>)) } }
     | None \<Rightarrow>
         if \<not> haveSeparateUsername then Some (Inl EFI_INVALID_PARAMETER)
         else Some (ParseHost ip4 (cstr target) options) }"

definition wide :: "string \<Rightarrow> CHAR16 list" where
  "wide s = map of_char s"

text \<open>An option with a value: the new options and whether a username was given.\<close>

definition ParseValue ::
  "CHAR16 list \<Rightarrow> CHAR16 list \<Rightarrow> WOLFSSH_UEFI_OPTIONS \<Rightarrow> bool \<Rightarrow>
   (EFI_STATUS + WOLFSSH_UEFI_OPTIONS \<times> bool) option" where
  "ParseValue flag value options haveUsername =
     (if flag = wide ''-p'' then
        (case ParsePort value of
           Inl _ \<Rightarrow> Some (Inl EFI_INVALID_PARAMETER)
         | Inr port \<Rightarrow> Some (Inr (options\<lparr>Port := port\<rparr>, haveUsername)))
      else if flag = wide ''-P'' then do {
        (status, password) \<leftarrow> CopyUnicodeAsAscii value (Password options) 256;
        if EFI_ERROR status then Some (Inl EFI_INVALID_PARAMETER)
        else Some (Inr (options\<lparr>Password := password, HavePassword := True\<rparr>, haveUsername)) }
      else if flag = wide ''-f'' then do {
        (status, fingerprint) \<leftarrow> ParseFingerprint value (Fingerprint options);
        if EFI_ERROR status then Some (Inl EFI_INVALID_PARAMETER)
        else Some (Inr (options\<lparr>Fingerprint := fingerprint, HaveFingerprint := True\<rparr>, haveUsername)) }
      else do {
        (status, username) \<leftarrow> CopyUnicodeAsAscii value (Username options) 64;
        if EFI_ERROR status then Some (Inl EFI_INVALID_PARAMETER)
        else Some (Inr (options\<lparr>Username := username\<rparr>, True)) })"

text \<open>The loop over the arguments: the options, the target and \<open>HaveUsername\<close> at its end.\<close>

fun ParseLoop ::
  "CHAR16 list list \<Rightarrow> WOLFSSH_UEFI_OPTIONS \<Rightarrow> CHAR16 list option \<Rightarrow> bool \<Rightarrow>
   (EFI_STATUS + WOLFSSH_UEFI_OPTIONS \<times> CHAR16 list option \<times> bool) option" where
  "ParseLoop [] options target haveUsername = Some (Inr (options, target, haveUsername))"
| "ParseLoop (arg # args) options target haveUsername =
     (if arg = wide ''-h'' \<or> arg = wide ''--help'' \<or> arg = wide ''-?'' then
        ParseLoop args (options\<lparr>Help := True\<rparr>) target haveUsername
      else if arg = wide ''--self-test'' then
        ParseLoop args (options\<lparr>SelfTest := True\<rparr>) target haveUsername
      else if arg = wide ''-y'' then
        ParseLoop args (options\<lparr>AcceptAnyHostKey := True\<rparr>) target haveUsername
      else if arg = wide ''-p'' \<or> arg = wide ''-P'' \<or> arg = wide ''-f'' \<or> arg = wide ''-l'' then
        (case args of
           [] \<Rightarrow> Some (Inl EFI_INVALID_PARAMETER)
         | value # rest \<Rightarrow> do {
             result \<leftarrow> ParseValue arg value options haveUsername;
             case result of
               Inl e \<Rightarrow> Some (Inl e)
             | Inr (options, haveUsername) \<Rightarrow> ParseLoop rest options target haveUsername })
      else if (arg \<noteq> [] \<and> hd arg = 0x2d) \<or> target \<noteq> None then Some (Inl EFI_INVALID_PARAMETER)
      else ParseLoop args options (Some arg) haveUsername)"

text \<open>
  \<open>HandleProtocol\<close> is firmware: its status and the argument vector of the shell parameters
  protocol are arguments of the model.
\<close>

definition WolfSshParseArguments ::
  "ip4_parser \<Rightarrow> EFI_STATUS \<Rightarrow> CHAR16 list list \<Rightarrow> (EFI_STATUS + WOLFSSH_UEFI_OPTIONS) option" where
  "WolfSshParseArguments ip4 status argv =
     (if EFI_ERROR status then Some (Inl status)
      else do {
        result \<leftarrow> ParseLoop (drop 1 argv) (ZeroOptions\<lparr>Port := 22\<rparr>) None False;
        case result of
          Inl e \<Rightarrow> Some (Inl e)
        | Inr (options, target, haveUsername) \<Rightarrow>
            if Help options \<or> SelfTest options then Some (Inr options)
            else case target of
              None \<Rightarrow> Some (Inl EFI_INVALID_PARAMETER)
            | Some target \<Rightarrow> do {
                parsed \<leftarrow> ParseTarget ip4 target options haveUsername;
                case parsed of
                  Inl _ \<Rightarrow> Some (Inl EFI_INVALID_PARAMETER)
                | Inr options \<Rightarrow> do {
                    first \<leftarrow> aget (Username options) 0;
                    if first = 0 then Some (Inl EFI_INVALID_PARAMETER)
                    else if AcceptAnyHostKey options \<and> HaveFingerprint options
                    then Some (Inl EFI_INVALID_PARAMETER)
                    else Some (Inr options) } } })"

section \<open>What the conversions do\<close>

definition text_of :: "CHAR16 list \<Rightarrow> CHAR16 list" where
  "text_of s = takeWhile (\<lambda>c. c \<noteq> 0) s"

definition is_ascii :: "CHAR16 list \<Rightarrow> bool" where
  "is_ascii s \<longleftrightarrow> (\<forall>c \<in> set s. c \<le> 0x7f)"

lemma CopyAsciiLoop_ok:
  assumes "index < capacity" and "capacity \<le> length dest" and "capacity < 2 ^ 64"
  shows "if index + length (text_of s) < capacity \<and> is_ascii (text_of s)
    then CopyAsciiLoop index s capacity dest = Some (EFI_SUCCESS,
      take index dest @ map ucast (text_of s) @ 0 # drop (Suc (index + length (text_of s))) dest)
    else \<exists>dest'. CopyAsciiLoop index s capacity dest = Some (EFI_INVALID_PARAMETER, dest') \<and>
      length dest' = length dest \<and> dest' ! 0 = 0"
  using assms
proof (induction s arbitrary: index dest)
  case Nil
  then show ?case by (simp add: text_of_def is_ascii_def upd_conv_take_nth_drop)
next
  case (Cons c cs)
  show ?case
  proof (cases "c = 0")
    case True
    then show ?thesis using Cons.prems
      by (simp add: text_of_def is_ascii_def upd_conv_take_nth_drop)
  next
    case False
    have u: "uadd index 1 = Suc index" using Cons.prems by simp
    have len: "0 < length dest" using Cons.prems by linarith
    have tx: "text_of (c # cs) = c # text_of cs" using False by (simp add: text_of_def)
    have ascii: "is_ascii (c # text_of cs) \<longleftrightarrow> c \<le> 0x7f \<and> is_ascii (text_of cs)"
      by (simp add: is_ascii_def)
    show ?thesis
    proof (cases "Suc index \<ge> capacity \<or> c > 0x7f")
      case True
      then have "\<not> (index + length (text_of (c # cs)) < capacity \<and> is_ascii (text_of (c # cs)))"
        unfolding tx ascii by auto
      moreover have "CopyAsciiLoop index (c # cs) capacity dest =
          Some (EFI_INVALID_PARAMETER, dest[0 := 0])"
        using True False u Cons.prems len by simp
      moreover have "dest[0 := 0] ! 0 = 0" using len by simp
      ultimately show ?thesis by (simp only: if_False) simp
    next
      case go: False
      let ?d = "dest[index := ucast c]"
      have step: "CopyAsciiLoop index (c # cs) capacity dest = CopyAsciiLoop (Suc index) cs capacity ?d"
        using go False u Cons.prems by simp
      have ih: "if Suc index + length (text_of cs) < capacity \<and> is_ascii (text_of cs)
        then CopyAsciiLoop (Suc index) cs capacity ?d = Some (EFI_SUCCESS,
          take (Suc index) ?d @ map ucast (text_of cs) @ 0 # drop (Suc (Suc index + length (text_of cs))) ?d)
        else \<exists>dest'. CopyAsciiLoop (Suc index) cs capacity ?d = Some (EFI_INVALID_PARAMETER, dest') \<and>
          length dest' = length ?d \<and> dest' ! 0 = 0"
        using Cons.IH [of "Suc index" ?d] Cons.prems go by simp
      have "take (Suc index) ?d = take index dest @ [ucast c]"
        using Cons.prems by (simp add: take_Suc_conv_app_nth)
      then show ?thesis using ih go unfolding step tx ascii by (auto simp: not_less split: if_split_asm)
    qed
  qed
qed

lemma CopyUnicodeAsAscii_ok:
  assumes "0 < capacity" and "capacity = length dest" and "capacity < 2 ^ 64"
  shows "if length (text_of s) < capacity \<and> is_ascii (text_of s)
    then CopyUnicodeAsAscii s dest capacity = Some (EFI_SUCCESS,
      map ucast (text_of s) @ 0 # drop (Suc (length (text_of s))) dest)
    else \<exists>dest'. CopyUnicodeAsAscii s dest capacity = Some (EFI_INVALID_PARAMETER, dest') \<and>
      length dest' = capacity \<and> dest' ! 0 = 0"
  using CopyAsciiLoop_ok [of 0 capacity dest s] assms(1,3)
  by (cases "length (text_of s) < capacity \<and> is_ascii (text_of s)")
    (simp_all only: CopyUnicodeAsAscii_def if_True if_False assms(2) [symmetric] take_0 append_Nil add_0,
     simp_all)

text \<open>Ports: decimal digits with a value between 1 and 65535.\<close>

definition is_digit :: "CHAR16 \<Rightarrow> bool" where
  "is_digit c \<longleftrightarrow> 0x30 \<le> c \<and> c \<le> 0x39"

definition decimal_value :: "nat \<Rightarrow> CHAR16 list \<Rightarrow> nat" where
  "decimal_value v s = foldl (\<lambda>v c. 10 * v + (unat c - 48)) v s"

lemma decimal_value_ge: "v \<le> decimal_value v s"
proof (induction s arbitrary: v)
  case (Cons c s)
  have "v \<le> 10 * v + (unat c - 48)" by simp
  also have "\<dots> \<le> decimal_value (10 * v + (unat c - 48)) s" by (rule Cons.IH)
  finally show ?case by (simp add: decimal_value_def)
qed (simp add: decimal_value_def)

lemma digit_minus: "is_digit c \<Longrightarrow> unat (c - 0x30) = unat c - 48"
  by (simp add: is_digit_def unat_sub_if' word_le_nat_alt)

lemma ParsePortLoop_ok:
  assumes "v \<le> 65535"
  shows "ParsePortLoop v s =
    (if (\<forall>c \<in> set (text_of s). is_digit c) \<and> decimal_value v (text_of s) \<le> 65535
     then Inr (decimal_value v (text_of s)) else Inl EFI_INVALID_PARAMETER)"
  using assms
proof (induction s arbitrary: v)
  case Nil
  then show ?case by (simp add: text_of_def decimal_value_def)
next
  case (Cons c s)
  consider "c = 0" | "c \<noteq> 0" "\<not> is_digit c" | "c \<noteq> 0" "is_digit c" by blast
  then show ?case
  proof cases
    case 1
    then show ?thesis using Cons.prems by (simp add: text_of_def decimal_value_def)
  next
    case 2
    then have "c < 0x30 \<or> c > 0x39" by (auto simp: is_digit_def not_le)
    then show ?thesis using 2 by (simp add: text_of_def)
  next
    case 3
    then have c: "\<not> (c < 0x30 \<or> c > 0x39)" by (simp add: is_digit_def not_less)
    have "unat c \<le> 57" using 3(2) by (simp add: is_digit_def word_le_nat_alt)
    then have u: "uadd (umul v 10) (unat (c - 0x30)) = 10 * v + (unat c - 48)"
      using Cons.prems by (simp add: digit_minus [OF 3(2)])
    have tx: "text_of (c # s) = c # text_of s" using 3(1) by (simp add: text_of_def)
    show ?thesis
      using Cons.IH [of "10 * v + (unat c - 48)"] decimal_value_ge [of "10 * v + (unat c - 48)" "text_of s"]
        3 c u tx by (auto simp: decimal_value_def Let_def)
  qed
qed

lemma ParsePort_ok:
  "ParsePort s =
    (let d = text_of s; v = decimal_value 0 d
     in if d \<noteq> [] \<and> (\<forall>c \<in> set d. is_digit c) \<and> 1 \<le> v \<and> v \<le> 65535
        then Inr v else Inl EFI_INVALID_PARAMETER)"
proof -
  have "text_of s = [] \<longleftrightarrow> s = [] \<or> hd s = 0" by (cases s) (auto simp: text_of_def)
  then show ?thesis
    by (auto simp: ParsePort_def ParsePortLoop_ok Let_def decimal_value_def)
qed

text \<open>Fingerprints: 64 hexadecimal digits in either case, with colons and dashes ignored.\<close>

definition hex_text :: "CHAR16 list \<Rightarrow> CHAR16 list" where
  "hex_text s = filter (\<lambda>c. c \<noteq> 0x3a \<and> c \<noteq> 0x2d) (text_of s)"

definition hex_table :: "(CHAR16 \<times> UINT8) list" where
  "hex_table = zip (map of_char ''0123456789abcdefABCDEF'') (map of_char ''0123456789abcdefabcdef'')"

definition is_hex :: "CHAR16 \<Rightarrow> bool" where
  "is_hex c \<longleftrightarrow> c \<in> fst ` set hex_table"

definition hex_digit :: "CHAR16 \<Rightarrow> UINT8" where
  "hex_digit c = the (map_of hex_table c)"

lemma HexValue_range: "-1 \<le> HexValue c" "HexValue c \<le> 15"
  by (auto simp: HexValue_def word_le_def)

lemma HexDigits_length [simp]: "length HexDigits = 16"
  by (simp add: HexDigits_def)

lemma HexDigits_nonzero: "0 \<notin> set HexDigits"
  by (simp add: HexDigits_def)

lemma word_between:
  assumes "a \<le> c" and "c \<le> b"
  shows "c \<in> word_of_nat ` set [unat a..<Suc (unat b)]"
proof
  show "c = word_of_nat (unat c)" by simp
  show "unat c \<in> set [unat a..<Suc (unat b)]" using assms by (auto simp: word_le_nat_alt less_Suc_eq_le)
qed

text \<open>The value of a digit is its place among the sixteen digits in lower case.\<close>

lemma HexValue_table:
  assumes "c \<in> fst ` set hex_table"
  shows "0 \<le> HexValue c \<and> HexDigits ! nat (HexValue c) = the (map_of hex_table c)"
  using assms by (auto simp: hex_table_def HexDigits_def HexValue_def of_char_def)

lemma hex_value:
  shows "is_hex c \<longleftrightarrow> 0 \<le> HexValue c"
    and "is_hex c \<Longrightarrow> hex_digit c = HexDigits ! nat (HexValue c)"
proof -
  have "is_hex c" if "0 \<le> HexValue c"
  proof -
    consider "0x30 \<le> c" "c \<le> 0x39" | "0x61 \<le> c" "c \<le> 0x66" | "0x41 \<le> c" "c \<le> 0x46"
      using \<open>0 \<le> HexValue c\<close> by (auto simp: HexValue_def split: if_splits)
    then show ?thesis
    proof cases
      case 1 show ?thesis using word_between [OF 1]
        by (auto simp: is_hex_def hex_table_def of_char_def)
    next
      case 2 show ?thesis using word_between [OF 2]
        by (auto simp: is_hex_def hex_table_def of_char_def)
    next
      case 3 show ?thesis using word_between [OF 3]
        by (auto simp: is_hex_def hex_table_def of_char_def)
    qed
  qed
  then show "is_hex c \<longleftrightarrow> 0 \<le> HexValue c" using HexValue_table [of c] by (auto simp: is_hex_def)
  show "is_hex c \<Longrightarrow> hex_digit c = HexDigits ! nat (HexValue c)"
    using HexValue_table [of c] by (simp add: is_hex_def hex_digit_def)
qed

lemma hex_digit_in: "is_hex c \<Longrightarrow> hex_digit c \<in> set HexDigits"
  using HexValue_range(2) [of c] hex_value [of c] by simp

lemma FingerprintLoop_ok:
  assumes "out \<le> 64" and "length buf = 65"
  shows "if (\<forall>c \<in> set (hex_text s). is_hex c) \<and> out + length (hex_text s) \<le> 64
    then FingerprintLoop out s buf = Some (EFI_SUCCESS, out + length (hex_text s),
      take out buf @ map hex_digit (hex_text s) @ drop (out + length (hex_text s)) buf)
    else \<exists>n buf'. FingerprintLoop out s buf = Some (EFI_INVALID_PARAMETER, n, buf') \<and> length buf' = 65"
  using assms
proof (induction s arbitrary: out buf)
  case Nil
  then show ?case by (simp add: hex_text_def text_of_def)
next
  case (Cons c s)
  consider "c = 0" | "c \<noteq> 0" "c = 0x3a \<or> c = 0x2d"
    | "c \<noteq> 0" "\<not> (c = 0x3a \<or> c = 0x2d)" "\<not> is_hex c \<or> out \<ge> 64"
    | "c \<noteq> 0" "\<not> (c = 0x3a \<or> c = 0x2d)" "is_hex c" "out < 64" by force
  then show ?case
  proof cases
    case 1
    then show ?thesis using Cons.prems by (simp add: hex_text_def text_of_def)
  next
    case 2
    then have "hex_text (c # s) = hex_text s" by (auto simp: hex_text_def text_of_def)
    then show ?thesis using Cons.IH [OF Cons.prems] 2 by auto
  next
    case 3
    then have tx: "hex_text (c # s) = c # hex_text s" by (auto simp: hex_text_def text_of_def)
    have "\<not> ((\<forall>c \<in> set (hex_text (c # s)). is_hex c) \<and> out + length (hex_text (c # s)) \<le> 64)"
      unfolding tx using 3(3) by auto
    moreover have "FingerprintLoop out (c # s) buf = Some (EFI_INVALID_PARAMETER, out, buf)"
      using 3 by (auto simp: hex_value(1))
    ultimately show ?thesis using Cons.prems by simp
  next
    case 4
    then have tx: "hex_text (c # s) = c # hex_text s" by (auto simp: hex_text_def text_of_def)
    let ?b = "buf[out := hex_digit c]"
    have "nat (HexValue c) < 16" "\<not> HexValue c < 0"
      using HexValue_range(2) [of c] 4(3) by (simp_all add: hex_value(1))
    then have step: "FingerprintLoop out (c # s) buf = FingerprintLoop (Suc out) s ?b"
      using 4 Cons.prems by (simp add: hex_value(2))
    have ih: "if (\<forall>c \<in> set (hex_text s). is_hex c) \<and> Suc out + length (hex_text s) \<le> 64
      then FingerprintLoop (Suc out) s ?b = Some (EFI_SUCCESS, Suc out + length (hex_text s),
        take (Suc out) ?b @ map hex_digit (hex_text s) @ drop (Suc out + length (hex_text s)) ?b)
      else \<exists>n buf'. FingerprintLoop (Suc out) s ?b = Some (EFI_INVALID_PARAMETER, n, buf') \<and> length buf' = 65"
      by (rule Cons.IH) (use 4 Cons.prems in simp_all)
    have "take (Suc out) ?b = take out buf @ [hex_digit c]"
      using Cons.prems 4 by (simp add: take_Suc_conv_app_nth)
    then show ?thesis using ih 4(3) unfolding step tx by simp
  qed
qed

lemma ParseFingerprint_ok:
  assumes "length buf = 65"
  shows "if (\<forall>c \<in> set (hex_text s). is_hex c) \<and> length (hex_text s) = 64
    then ParseFingerprint s buf = Some (EFI_SUCCESS, map hex_digit (hex_text s) @ [0])
    else \<exists>buf'. ParseFingerprint s buf = Some (EFI_INVALID_PARAMETER, buf') \<and> length buf' = 65"
proof -
  have d: "(map hex_digit (hex_text s) @ drop 64 buf)[64 := 0] = map hex_digit (hex_text s) @ [0]"
    if "length (hex_text s) = 64"
  proof -
    have "length (drop 64 buf) = 1" using assms by simp
    then obtain x where "drop 64 buf = [x]" by (cases "drop 64 buf") auto
    then show ?thesis using that by (simp add: list_update_append)
  qed
  show ?thesis
    using FingerprintLoop_ok [of 0 buf s] assms d
    by (auto simp: ParseFingerprint_def split: if_splits)
qed

section \<open>Well-formed options\<close>

text \<open>
  The invariant of the option record: buffers of their declared sizes that hold terminated
  strings, a port in range, and, when a fingerprint was given, 64 lower-case hexadecimal digits.
\<close>

definition terminated :: "nat \<Rightarrow> UINT8 list \<Rightarrow> bool" where
  "terminated n buf \<longleftrightarrow> length buf = n \<and> 0 \<in> set buf"

definition fingerprint_ok :: "UINT8 list \<Rightarrow> bool" where
  "fingerprint_ok buf \<longleftrightarrow> length (cstr buf) = 64 \<and> set (cstr buf) \<subseteq> set HexDigits"

definition wf_options :: "WOLFSSH_UEFI_OPTIONS \<Rightarrow> bool" where
  "wf_options opts \<longleftrightarrow> terminated 64 (Username opts) \<and> terminated 256 (Password opts) \<and>
     length (Fingerprint opts) = 65 \<and> 1 \<le> Port opts \<and> Port opts \<le> 65535 \<and>
     (HaveFingerprint opts \<longrightarrow> fingerprint_ok (Fingerprint opts))"

lemma CopyUnicodeAsAscii_safe:
  assumes "0 < capacity" and "length dest = capacity" and "capacity < 2 ^ 64"
  shows "ok (CopyUnicodeAsAscii s dest capacity) (\<lambda>(status, dest').
    terminated capacity dest' \<and> (status = EFI_SUCCESS \<or> status = EFI_INVALID_PARAMETER))"
proof (cases "length (text_of s) < capacity \<and> is_ascii (text_of s)")
  case True
  then show ?thesis
    using CopyUnicodeAsAscii_ok [OF assms(1) assms(2) [symmetric] assms(3), of s] assms
    by (simp add: terminated_def)
next
  case False
  then obtain dest' where d: "CopyUnicodeAsAscii s dest capacity = Some (EFI_INVALID_PARAMETER, dest')"
    "length dest' = capacity" "dest' ! 0 = 0"
    using CopyUnicodeAsAscii_ok [OF assms(1) assms(2) [symmetric] assms(3), of s] by auto
  then have "0 \<in> set dest'" using assms(1) by (metis nth_mem)
  then show ?thesis using d by (simp add: terminated_def)
qed

lemma ParsePort_range: "ParsePort s = Inr p \<Longrightarrow> 1 \<le> p \<and> p \<le> 65535"
  unfolding ParsePort_ok by (auto simp: Let_def split: if_splits)

lemma ParseFingerprint_safe:
  assumes "length buf = 65"
  shows "ok (ParseFingerprint s buf) (\<lambda>(status, buf'). length buf' = 65 \<and>
    (status = EFI_SUCCESS \<longrightarrow> fingerprint_ok buf') \<and>
    (status = EFI_SUCCESS \<or> status = EFI_INVALID_PARAMETER))"
proof (cases "(\<forall>c \<in> set (hex_text s). is_hex c) \<and> length (hex_text s) = 64")
  case True
  have "cstr (map hex_digit (hex_text s) @ [0]) = map hex_digit (hex_text s)"
  proof -
    have "\<forall>x \<in> set (map hex_digit (hex_text s)). x \<noteq> 0"
      using True hex_digit_in HexDigits_nonzero by auto metis
    then show ?thesis by (simp add: cstr_def takeWhile_append)
  qed
  then show ?thesis using True ParseFingerprint_ok [OF assms, of s] hex_digit_in
    by (auto simp: fingerprint_ok_def)
next
  case False
  then obtain buf' where "ParseFingerprint s buf = Some (EFI_INVALID_PARAMETER, buf')" "length buf' = 65"
    using ParseFingerprint_ok [OF assms, of s] by (simp only: if_False) blast
  then show ?thesis by simp
qed

lemma ParseValue_safe:
  assumes "wf_options opts"
  shows "ok (ParseValue flag value opts have) (\<lambda>result. \<forall>opts' have'. result = Inr (opts', have') \<longrightarrow>
    wf_options opts' \<and> Help opts' = Help opts \<and> SelfTest opts' = SelfTest opts)"
proof -
  have w: "length (Password opts) = 256" "length (Username opts) = 64" "length (Fingerprint opts) = 65"
    using assms by (simp_all add: wf_options_def terminated_def)
  have pw: "ok (CopyUnicodeAsAscii value (Password opts) 256) (\<lambda>(status, dest').
      terminated 256 dest' \<and> (status = EFI_SUCCESS \<or> status = EFI_INVALID_PARAMETER))"
    and un: "ok (CopyUnicodeAsAscii value (Username opts) 64) (\<lambda>(status, dest').
      terminated 64 dest' \<and> (status = EFI_SUCCESS \<or> status = EFI_INVALID_PARAMETER))"
    by (rule CopyUnicodeAsAscii_safe; simp add: w)+
  show ?thesis
    unfolding ParseValue_def ok_if ok_bind
    using assms pw un ParseFingerprint_safe [OF w(3), of "value"]
    by (auto simp: wf_options_def split: sum.splits elim!: ok_mono dest: ParsePort_range)
qed

lemma ParseLoop_safe:
  assumes "wf_options opts"
  shows "ok (ParseLoop args opts target have)
    (\<lambda>result. \<forall>opts' target' have'. result = Inr (opts', target', have') \<longrightarrow> wf_options opts')"
  using assms
proof (induction args opts target "have" rule: ParseLoop.induct)
  case (1 opts target "have")
  then show ?case by simp
next
  case (2 arg args opts target "have")
  let ?h = "\<lambda>result. \<forall>opts' target' have'. result = Inr (opts', target', have') \<longrightarrow> wf_options opts'"
  have flags: "wf_options (opts\<lparr>Help := b\<rparr>)" "wf_options (opts\<lparr>SelfTest := b\<rparr>)"
    "wf_options (opts\<lparr>AcceptAnyHostKey := b\<rparr>)" for b
    using "2.prems" by (simp_all add: wf_options_def)
  define A where "A \<longleftrightarrow> arg = wide ''-h'' \<or> arg = wide ''--help'' \<or> arg = wide ''-?''"
  define B where "B \<longleftrightarrow> arg = wide ''--self-test''"
  define C where "C \<longleftrightarrow> arg = wide ''-y''"
  define D where "D \<longleftrightarrow> arg = wide ''-p'' \<or> arg = wide ''-P'' \<or> arg = wide ''-f'' \<or> arg = wide ''-l''"
  define E where "E \<longleftrightarrow> (arg \<noteq> [] \<and> hd arg = 0x2d) \<or> target \<noteq> None"
  note ih = "2.IH" [folded A_def B_def C_def D_def E_def]
  consider "A" | "\<not> A" "B" | "\<not> A" "\<not> B" "C" | "\<not> A" "\<not> B" "\<not> C" "D"
    | "\<not> A" "\<not> B" "\<not> C" "\<not> D" by blast
  then show ?case unfolding ParseLoop.simps A_def [symmetric] B_def [symmetric] C_def [symmetric]
      D_def [symmetric] E_def [symmetric]
  proof cases
    case 4
    show "ok (if A then ParseLoop args (opts\<lparr>Help := True\<rparr>) target have else
        if B then ParseLoop args (opts\<lparr>SelfTest := True\<rparr>) target have else
        if C then ParseLoop args (opts\<lparr>AcceptAnyHostKey := True\<rparr>) target have else
        if D then (case args of [] \<Rightarrow> Some (Inl EFI_INVALID_PARAMETER)
           | value # rest \<Rightarrow> do {
             result \<leftarrow> ParseValue arg value opts have;
             case result of Inl e \<Rightarrow> Some (Inl e)
             | Inr (options, haveUsername) \<Rightarrow> ParseLoop rest options target haveUsername })
        else if E then Some (Inl EFI_INVALID_PARAMETER) else ParseLoop args opts (Some arg) have) ?h"
    proof (cases args)
      case Nil
      then show ?thesis using 4 by simp
    next
      case (Cons v rest)
      obtain r where r: "ParseValue arg v opts have = Some r"
        and wf: "\<And>o' h'. r = Inr (o', h') \<Longrightarrow> wf_options o'"
        using ParseValue_safe [OF "2.prems", of arg v "have"] by (auto elim!: okE)
      show ?thesis
      proof (cases r)
        case (Inl e)
        then show ?thesis using 4 Cons r by simp
      next
        case (Inr x)
        obtain o' h' where x: "x = (o', h')" by (cases x)
        have "ok (ParseLoop rest o' target h') ?h"
          by (rule ih(4) [OF 4(1-4) Cons r Inr x [symmetric]]) (use wf Inr x in simp)
        then show ?thesis using 4 Cons r Inr x by simp
      qed
    qed
  qed (use flags ih "2.prems" in simp_all)
qed

lemma takeWhile_short: "x \<in> set xs \<Longrightarrow> \<not> P x \<Longrightarrow> length (takeWhile P xs) < length xs"
  by (induction xs) auto

lemma ParseTarget_safe:
  assumes "wf_options opts"
  shows "ok (ParseTarget ip4 tx opts have) (\<lambda>result. \<forall>opts'. result = Inr opts' \<longrightarrow> wf_options opts')"
proof -
  obtain status target where c: "CopyUnicodeAsAscii tx (replicate 128 0) 128 = Some (status, target)"
    and t: "terminated 128 target"
    using CopyUnicodeAsAscii_safe [of 128 "replicate 128 0" tx] by (auto elim!: okE)
  have host: "wf_options o' \<Longrightarrow> ParseHost ip4 h o' = Inr o'' \<Longrightarrow> wf_options o''" for h o' o''
    by (auto simp: ParseHost_def wf_options_def split: if_splits prod.splits)
  show ?thesis
  proof (cases "EFI_ERROR status")
    case True
    then show ?thesis by (simp add: ParseTarget_def c)
  next
    case False
    show ?thesis
    proof (cases "AsciiStrStr_at (cstr target)")
      case None
      then show ?thesis using False c host assms by (auto simp: ParseTarget_def)
    next
      case (Some a)
      have "length (cstr target) \<le> length target" by (simp add: cstr_def length_takeWhile_le)
      then have a: "a < length target"
        using Some by (auto simp: AsciiStrStr_at_def Let_def split: if_splits)
      let ?t = "target[a := 0]"
      have zero: "0 \<in> set ?t" using a by (rule set_update_memI)
      have short: "length (cstr ?t) < length ?t" unfolding cstr_def
        by (rule takeWhile_short [OF zero]) simp
      have len: "length (Username opts) = 64" using assms by (simp add: wf_options_def terminated_def)
      have copy: "ok (CopyMem (Username opts) 0 ?t 0 (length (cstr ?t) + 1)) (terminated 64)"
        if "length (cstr ?t) < 64"
      proof -
        have "?t ! length (cstr ?t) = 0"
          using nth_length_takeWhile [of "\<lambda>c. c \<noteq> 0" ?t] short by (simp add: cstr_def)
        then have "0 \<in> set (take (length (cstr ?t) + 1) ?t)"
          using short by (simp add: take_Suc_conv_app_nth)
        then show ?thesis using that short len by (simp add: CopyMem_def terminated_def)
      qed
      have eq: "ParseTarget ip4 tx opts have =
          (if length (cstr ?t) = 0 \<or> length (cstr ?t) \<ge> 64 then Some (Inl EFI_INVALID_PARAMETER)
           else Option.bind (CopyMem (Username opts) 0 ?t 0 (length (cstr ?t) + 1)) (\<lambda>u.
             Some (ParseHost ip4 (drop (a + 1) (cstr target)) (opts\<lparr>Username := u\<rparr>))))"
        using False c Some a by (simp add: ParseTarget_def Let_def)
      have named: "wf_options (opts\<lparr>Username := u\<rparr>)" if "terminated 64 u" for u
        using that assms by (simp add: wf_options_def)
      show ?thesis
      proof (cases "length (cstr ?t) = 0 \<or> length (cstr ?t) \<ge> 64")
        case True
        then show ?thesis unfolding eq by simp
      next
        case small: False
        then have "length (cstr ?t) < 64" by simp
        from copy [OF this] show ?thesis unfolding eq if_not_P [OF small] ok_bind ok_Some
          by (rule ok_mono) (use host named in blast)
      qed
    qed
  qed
qed

text \<open>The whole command line: no access out of range, and well-formed options on success.\<close>

lemma ParseArguments_ok:
  "ok (WolfSshParseArguments ip4 status argv) (\<lambda>result. \<forall>opts. result = Inr opts \<longrightarrow> wf_options opts \<and>
    (Help opts \<or> SelfTest opts \<or>
     cstr (Username opts) \<noteq> [] \<and> \<not> (AcceptAnyHostKey opts \<and> HaveFingerprint opts)))"
proof (cases "EFI_ERROR status")
  case True
  then show ?thesis by (simp add: WolfSshParseArguments_def)
next
  case False
  have "wf_options (ZeroOptions\<lparr>Port := 22\<rparr>)"
    by (simp add: wf_options_def ZeroOptions_def terminated_def)
  then obtain r where r: "ParseLoop (drop 1 argv) (ZeroOptions\<lparr>Port := 22\<rparr>) None False = Some r"
    and wf: "\<And>o' t' h'. r = Inr (o', t', h') \<Longrightarrow> wf_options o'"
    using ParseLoop_safe [of "ZeroOptions\<lparr>Port := 22\<rparr>" "drop 1 argv" None False] by (auto elim!: okE)
  show ?thesis
  proof (cases r)
    case (Inl e)
    then show ?thesis using False r by (simp add: WolfSshParseArguments_def)
  next
    case (Inr x)
    obtain o' t' h' where x: "x = (o', t', h')" by (cases x)
    have wf': "wf_options o'" using wf Inr x by simp
    show ?thesis
    proof (cases "Help o' \<or> SelfTest o'")
      case True
      then show ?thesis using False r Inr x wf' by (auto simp: WolfSshParseArguments_def)
    next
      case go: False
      show ?thesis
      proof (cases t')
        case None
        then show ?thesis using False r Inr x go by (simp add: WolfSshParseArguments_def)
      next
        case (Some target)
        obtain p where p: "ParseTarget ip4 target o' h' = Some p"
          and wp: "\<And>o''. p = Inr o'' \<Longrightarrow> wf_options o''"
          using ParseTarget_safe [OF wf', of ip4 target h'] by (auto elim!: okE)
        have name: "aget (Username o'') 0 = Some (Username o'' ! 0)"
          "Username o'' ! 0 \<noteq> 0 \<Longrightarrow> cstr (Username o'') \<noteq> []" if "wf_options o''" for o''
        proof -
          have "length (Username o'') = 64" using that by (simp add: wf_options_def terminated_def)
          then obtain c cs where "Username o'' = c # cs" by (cases "Username o''") simp_all
          then show "aget (Username o'') 0 = Some (Username o'' ! 0)"
            "Username o'' ! 0 \<noteq> 0 \<Longrightarrow> cstr (Username o'') \<noteq> []" by (simp_all add: cstr_def)
        qed
        show ?thesis using False r Inr x go Some p wp name
          by (cases p) (auto simp: WolfSshParseArguments_def)
      qed
    qed
  qed
qed

section \<open>A target of the form user@host\<close>

definition plain_ascii :: "CHAR16 list \<Rightarrow> bool" where
  "plain_ascii s \<longleftrightarrow> (\<forall>c \<in> set s. c \<noteq> 0 \<and> c \<le> 0x7f)"

abbreviation (input) narrow :: "CHAR16 list \<Rightarrow> UINT8 list" where "narrow s \<equiv> map ucast s"

lemma unat_narrow: "c \<le> 0x7f \<Longrightarrow> unat (ucast (c :: CHAR16) :: UINT8) = unat c"
  by (simp add: word_le_nat_alt unsigned_ucast_eq take_bit_nat_eq_self)

lemma narrow_eq: "c \<le> 0x7f \<Longrightarrow> d \<le> 0x7f \<Longrightarrow> (ucast (c :: CHAR16) :: UINT8) = ucast d \<longleftrightarrow> c = d"
  using unat_narrow [of c] unat_narrow [of d] by (metis word_unat_eq_iff)

lemma narrow_nonzero: "c \<noteq> 0 \<Longrightarrow> c \<le> 0x7f \<Longrightarrow> (ucast (c :: CHAR16) :: UINT8) \<noteq> 0"
  using narrow_eq [of c 0] by simp

lemma plain_text:
  assumes "plain_ascii s"
  shows "text_of s = s" and "is_ascii s" and "cstr (narrow s @ 0 # rest) = narrow s"
proof -
  show "text_of s = s" using assms by (simp add: text_of_def plain_ascii_def)
  show "is_ascii s" using assms by (simp add: is_ascii_def plain_ascii_def)
  show "cstr (narrow s @ 0 # rest) = narrow s"
    using assms by (auto simp: cstr_def plain_ascii_def takeWhile_append narrow_nonzero)
qed

lemma ParseTarget_user_host:
  assumes user: "plain_ascii u" "u \<noteq> []" "0x40 \<notin> set u" "length u < 64"
    and host: "plain_ascii h" "h \<noteq> []" "length u + length h < 127"
    and ip: "ip4 (narrow h) = (st, addr)" "\<not> EFI_ERROR st" and len: "length (Username opts) = 64"
  shows "ParseTarget ip4 (u @ 0x40 # h) opts have = Some (Inr (opts\<lparr>
    Username := narrow u @ 0 # drop (Suc (length u)) (Username opts), Address := addr\<rparr>))"
proof -
  let ?t = "u @ 0x40 # h"
  let ?rest = "drop (Suc (length ?t)) (replicate 128 (0 :: UINT8))"
  have t: "plain_ascii ?t" "length ?t < 128" using user host by (auto simp: plain_ascii_def)
  have copy: "CopyUnicodeAsAscii ?t (replicate 128 0) 128 = Some (EFI_SUCCESS, narrow ?t @ 0 # ?rest)"
    using CopyUnicodeAsAscii_ok [of 128 "replicate 128 0" ?t] plain_text(1,2) [OF t(1)] t(2) by simp
  note c = plain_text(3) [OF t(1), of ?rest]
  have "\<forall>x \<in> set (narrow u). x \<noteq> 0x40"
  proof
    fix x assume "x \<in> set (narrow u)"
    then obtain y where "y \<in> set u" "x = ucast y" by auto
    then show "x \<noteq> 0x40" using user(1,3) narrow_eq [of y "0x40"] by (auto simp: plain_ascii_def)
  qed
  then have "takeWhile (\<lambda>c. c \<noteq> 0x40) (narrow ?t) = narrow u" by (simp add: takeWhile_append)
  then have at: "AsciiStrStr_at (narrow ?t) = Some (length u)" by (simp add: AsciiStrStr_at_def Let_def)
  have set_at: "aset (narrow ?t @ 0 # ?rest) (length u) 0 = Some (narrow u @ 0 # narrow h @ 0 # ?rest)"
    by (simp add: list_update_append)
  note cu = plain_text(3) [OF user(1), of "narrow h @ 0 # ?rest"]
  have cp: "CopyMem (Username opts) 0 (narrow u @ 0 # narrow h @ 0 # ?rest) 0 (length u + 1) =
      Some (narrow u @ 0 # drop (Suc (length u)) (Username opts))"
    using user(4) len by (simp add: CopyMem_def)
  show ?thesis
    using user(2,4) host(2) ip copy c at set_at cu cp
    by (simp add: ParseTarget_def Let_def ParseHost_def)
qed

section \<open>Properties\<close>

text \<open>
  C34. The port option accepts exactly the decimal numbers from 1 to 65535, leading zeros allowed,
  and gives the number; the bound checked after every digit keeps the computation from wrapping.
\<close>

theorem port_exact:
  "ParsePort s = (let d = text_of s; v = decimal_value 0 d
     in if d \<noteq> [] \<and> (\<forall>c \<in> set d. is_digit c) \<and> 1 \<le> v \<and> v \<le> 65535
        then Inr v else Inl EFI_INVALID_PARAMETER)"
  by (rule ParsePort_ok)

theorem port_exact_witness:
  "ParsePort (wide ''2022'') = Inr 2022 \<and> ParsePort (wide ''65536'') = Inl EFI_INVALID_PARAMETER"
  using port_exact [of "wide ''2022''"] port_exact [of "wide ''65536''"]
  by (simp add: wide_def of_char_def text_of_def decimal_value_def is_digit_def Let_def)

text \<open>
  C35. The fingerprint option accepts exactly the texts that hold 64 hexadecimal digits, in
  either case, when the separators colon and hyphen are left out, and stores them in lower case with
  a terminator. Nothing is ever written outside the buffer of 65 characters.
\<close>

theorem fingerprint_exact:
  assumes "length buf = 65"
  shows "if (\<forall>c \<in> set (hex_text s). is_hex c) \<and> length (hex_text s) = 64
    then ParseFingerprint s buf = Some (EFI_SUCCESS, map hex_digit (hex_text s) @ [0])
    else \<exists>buf'. ParseFingerprint s buf = Some (EFI_INVALID_PARAMETER, buf') \<and> length buf' = 65"
  by (rule ParseFingerprint_ok [OF assms])

theorem fingerprint_exact_witness:
  "ParseFingerprint (concat (replicate 32 [0x41, 0x3a, 0x62])) (replicate 65 0) =
      Some (EFI_SUCCESS, concat (replicate 32 [0x61, 0x62]) @ [0]) \<and>
    (\<exists>buf'. ParseFingerprint [0x41, 0x3a, 0x62] (replicate 65 0) = Some (EFI_INVALID_PARAMETER, buf') \<and>
      length buf' = 65)"
proof
  have t: "hex_text (concat (replicate n [0x41, 0x3a, 0x62])) = concat (replicate n [0x41, 0x62])" for n
    by (induction n) (simp_all add: hex_text_def text_of_def)
  have m: "map hex_digit (concat (replicate n [0x41, 0x62])) = concat (replicate n [hex_digit 0x41, hex_digit 0x62])"
    and l: "length (concat (replicate n [0x41, 0x62 :: CHAR16])) = 2 * n"
    and h: "\<forall>c \<in> set (concat (replicate n [0x41, 0x62])). c = 0x41 \<or> c = 0x62" for n
    by (induction n) simp_all
  have d: "hex_digit 0x41 = 0x61" "hex_digit 0x62 = 0x62" "is_hex 0x41" "is_hex 0x62"
    by (simp_all add: hex_digit_def is_hex_def hex_table_def of_char_def)
  show "ParseFingerprint (concat (replicate 32 [0x41, 0x3a, 0x62])) (replicate 65 0) =
      Some (EFI_SUCCESS, concat (replicate 32 [0x61, 0x62]) @ [0])"
    using fingerprint_exact [of "replicate 65 0" "concat (replicate 32 [0x41, 0x3a, 0x62])"]
    unfolding t m l using h [of 32] d by auto
  show "\<exists>buf'. ParseFingerprint [0x41, 0x3a, 0x62] (replicate 65 0) = Some (EFI_INVALID_PARAMETER, buf') \<and>
      length buf' = 65"
    using fingerprint_exact [of "replicate 65 0" "[0x41, 0x3a, 0x62]"] by (simp add: hex_text_def text_of_def)
qed

text \<open>
  C32. Whatever the command line: parsing it stays inside all buffers, and when it succeeds
  the options are well-formed (terminated strings, a port in range, a fingerprint of 64 digits),
  a user is named, and a pinned key excludes the option that accepts any key, unless only help or
  the self test was asked for.
\<close>

theorem arguments_wellformed:
  "ok (WolfSshParseArguments ip4 status argv) (\<lambda>result. \<forall>opts. result = Inr opts \<longrightarrow> wf_options opts \<and>
    (Help opts \<or> SelfTest opts \<or>
     cstr (Username opts) \<noteq> [] \<and> \<not> (AcceptAnyHostKey opts \<and> HaveFingerprint opts)))"
  by (rule ParseArguments_ok)

theorem arguments_wellformed_witness:
  "WolfSshParseArguments (\<lambda>_. (EFI_SUCCESS, [])) EFI_SUCCESS [[], wide ''--self-test''] =
      Some (Inr (ZeroOptions\<lparr>Port := 22, SelfTest := True\<rparr>)) \<and>
    wf_options (ZeroOptions\<lparr>Port := 22, SelfTest := True\<rparr>)"
proof -
  have e: "WolfSshParseArguments (\<lambda>_. (EFI_SUCCESS, [])) EFI_SUCCESS [[], wide ''--self-test''] =
      Some (Inr (ZeroOptions\<lparr>Port := 22, SelfTest := True\<rparr>))"
    by (simp add: WolfSshParseArguments_def wide_def of_char_def)
  show ?thesis
    using arguments_wellformed [of "\<lambda>_. (EFI_SUCCESS, [])" EFI_SUCCESS "[[], wide ''--self-test'']"] e by simp
qed

text \<open>
  C33. The usual command line, \<open>user@host\<close>: the options name exactly that user and the address of
  that host, on port 22, with no password, no pinned key and no blanket acceptance of host keys.
\<close>

theorem target_options:
  assumes "plain_ascii u" and "u \<noteq> []" and "0x40 \<notin> set u" and "length u < 64" and "hd u \<noteq> 0x2d"
    and "plain_ascii h" and "h \<noteq> []" and "length u + length h < 127"
    and "ip4 (narrow h) = (st, addr)" and "\<not> EFI_ERROR st" and "\<not> EFI_ERROR status"
  shows "\<exists>opts. WolfSshParseArguments ip4 status [prog, u @ 0x40 # h] = Some (Inr opts) \<and>
    cstr (Username opts) = narrow u \<and> Address opts = addr \<and> Port opts = 22 \<and> \<not> HavePassword opts \<and>
    \<not> HaveFingerprint opts \<and> \<not> AcceptAnyHostKey opts \<and> \<not> SelfTest opts \<and> \<not> Help opts"
proof -
  let ?o = "ZeroOptions\<lparr>Port := 22\<rparr>"
  have other: "u @ 0x40 # h \<noteq> wide (CHR ''-'' # s)" for s
    using assms(2,5) by (cases u) (auto simp: wide_def of_char_def)
  have first: "hd (u @ 0x40 # h) \<noteq> 0x2d" using assms(2,5) by simp
  have loop: "ParseLoop [u @ 0x40 # h] ?o None False = Some (Inr (?o, Some (u @ 0x40 # h), False))"
    using other first by simp
  have target: "ParseTarget ip4 (u @ 0x40 # h) ?o False = Some (Inr (?o\<lparr>
      Username := narrow u @ 0 # drop (Suc (length u)) (replicate 64 0), Address := addr\<rparr>))"
    using ParseTarget_user_host [of u h ip4 st addr ?o False] assms
    by (simp add: ZeroOptions_def)
  obtain x xs where u: "u = x # xs" using assms(2) by (cases u) auto
  have "(ucast x :: UINT8) \<noteq> 0" using assms(1) u narrow_nonzero by (simp add: plain_ascii_def)
  then have "WolfSshParseArguments ip4 status [prog, u @ 0x40 # h] = Some (Inr (?o\<lparr>
      Username := narrow u @ 0 # drop (Suc (length u)) (replicate 64 0), Address := addr\<rparr>))"
    using assms(11) loop target u by (simp add: WolfSshParseArguments_def ZeroOptions_def)
  then show ?thesis using plain_text(3) [OF assms(1)] by (simp add: ZeroOptions_def)
qed

theorem target_options_witness:
  "\<exists>opts. WolfSshParseArguments (\<lambda>_. (EFI_SUCCESS, [10, 0, 2, 2])) EFI_SUCCESS
      [[], wide ''root'' @ 0x40 # wide ''10.0.2.2''] = Some (Inr opts) \<and>
    cstr (Username opts) = narrow (wide ''root'') \<and> Address opts = [10, 0, 2, 2] \<and> Port opts = 22 \<and>
    \<not> HavePassword opts \<and> \<not> HaveFingerprint opts \<and> \<not> AcceptAnyHostKey opts \<and> \<not> SelfTest opts \<and> \<not> Help opts"
  by (rule target_options [where st = EFI_SUCCESS]) (simp_all add: plain_ascii_def wide_def of_char_def)

end
