(* ===== verification/Tcp4.thy ===== *)
theory Tcp4
  imports Prelude "HOL-Library.Multiset"
begin

text \<open>
  The TCP transport of Tcp4.c: one connection over \<open>EFI_TCP4_PROTOCOL\<close>, whose receive side keeps one
  request posted and hands its bytes to wolfSSH, and whose send side waits for each transmission.

  The firmware is a parameter. A \<open>firmware\<close> answers each call from the history of calls and answers
  before it, so that every deterministic environment is one, and the theorems quantify over all of
  them. The tokens that complete while a call runs are part of its answer, because the firmware
  signals their events at that point; the notification function then sets the flag of the token.
\<close>

section \<open>The firmware\<close>

datatype TOKEN = RxToken | TxToken | ConnectToken | CloseToken

datatype COMPLETION =
    ReceiveComplete EFI_STATUS "UINT8 list"
  | TransmitComplete EFI_STATUS
  | ConnectComplete EFI_STATUS
  | CloseComplete EFI_STATUS

record TCP4_CONFIG =
  UseDefaultAddress :: bool
  RemoteAddress :: "UINT8 list"
  RemotePort :: nat
  ActiveFlag :: bool
  ReceiveBufferSize :: nat
  SendBufferSize :: nat
  EnableNagle :: bool
  EnableWindowScaling :: bool
  EnableSelectiveAck :: bool
  EnablePathMtuDiscovery :: bool

text \<open>
  The calls the sources make: those of \<open>EFI_TCP4_PROTOCOL\<close> and of its service binding, and the boot
  services used around them. A pointer, handle or event is a number and 0 is the null pointer.
  \<open>OpenBinding\<close> and \<open>OpenProtocol\<close> are the two uses of \<open>HandleProtocol\<close>.
\<close>

datatype FIRMWARE_CALL =
    Poll
  | Stall UINTN
  | Receive nat UINTN
  | Transmit nat "UINT8 list"
  | Cancel TOKEN
  | ConnectCall nat
  | CloseCall nat bool
  | Configure "TCP4_CONFIG option"
  | LocateHandles
  | DetectMedia nat
  | OpenBinding nat
  | CreateChild nat
  | OpenProtocol nat
  | CreateEvent TOKEN
  | CloseEvent nat
  | DestroyChild nat nat
  | FreeHandles
  | ReadKeyStroke

record FIRMWARE_REPLY =
  Status :: EFI_STATUS
  Pointer :: nat
  HandleBuffer :: "nat list"
  MediaState :: EFI_STATUS
  KeyStroke :: "nat \<times> CHAR16"
  Completions :: "COMPLETION list"

type_synonym history = "(FIRMWARE_CALL \<times> FIRMWARE_REPLY) list"
type_synonym firmware = "history \<Rightarrow> FIRMWARE_CALL \<Rightarrow> FIRMWARE_REPLY"

section \<open>The socket\<close>

text \<open>
  The structure of WolfSshUefi.h. Of the two tokens and their data the parts that are read back are
  kept: the status of each token and the length of the received data. \<open>ConnectDone\<close> and
  \<open>ConnectTokenStatus\<close> are the local variables of \<open>OpenOnController\<close> that its token points to, and
  \<open>Log\<close> is the history of firmware calls.
\<close>

record WOLFSSH_UEFI_TCP4 =
  Controller :: nat
  Child :: nat
  Binding :: nat
  Protocol :: nat
  RxEvent :: nat
  TxEvent :: nat
  RxDone :: bool
  TxDone :: bool
  RxTokenStatus :: EFI_STATUS
  TxTokenStatus :: EFI_STATUS
  RxDataLength :: nat
  RxBuffer :: "UINT8 list"
  RxOffset :: nat
  RxLength :: nat
  RxActive :: bool
  EndOfStream :: bool
  LastRxStatus :: EFI_STATUS
  ConnectDone :: bool
  ConnectTokenStatus :: EFI_STATUS
  Log :: history

type_synonym tcp4 = WOLFSSH_UEFI_TCP4

abbreviation (input) RX_CAPACITY :: nat where "RX_CAPACITY \<equiv> 16384"

definition ZeroSocket :: "tcp4 \<Rightarrow> tcp4" where
  "ZeroSocket s = s\<lparr>Controller := 0, Child := 0, Binding := 0, Protocol := 0, RxEvent := 0,
     TxEvent := 0, RxDone := False, TxDone := False, RxTokenStatus := EFI_SUCCESS,
     TxTokenStatus := EFI_SUCCESS, RxDataLength := 0, RxBuffer := replicate RX_CAPACITY 0,
     RxOffset := 0, RxLength := 0, RxActive := False, EndOfStream := False,
     LastRxStatus := EFI_SUCCESS\<rparr>"

text \<open>
  \<open>NetworkNotify\<close> sets the flag its event was created with: \<open>RxDone\<close> for \<open>RxEvent\<close>, \<open>TxDone\<close> for
  \<open>TxEvent\<close>, which serves both transmission and closing, \<open>ConnectDone\<close> for the connection's event.
\<close>

fun NetworkNotify :: "TOKEN \<Rightarrow> tcp4 \<Rightarrow> tcp4" where
  "NetworkNotify RxToken s = s\<lparr>RxDone := True\<rparr>"
| "NetworkNotify TxToken s = s\<lparr>TxDone := True\<rparr>"
| "NetworkNotify CloseToken s = s\<lparr>TxDone := True\<rparr>"
| "NetworkNotify ConnectToken s = s\<lparr>ConnectDone := True\<rparr>"

fun DoneFlag :: "TOKEN \<Rightarrow> tcp4 \<Rightarrow> bool" where
  "DoneFlag RxToken s = RxDone s"
| "DoneFlag TxToken s = TxDone s"
| "DoneFlag CloseToken s = TxDone s"
| "DoneFlag ConnectToken s = ConnectDone s"

text \<open>
  The driver completes a token: it stores the status, for a receive request also the data and its
  length in \<open>RxBuffer\<close> and \<open>RxData\<close>, and signals the token's event.
\<close>

fun Deliver :: "tcp4 \<Rightarrow> COMPLETION \<Rightarrow> tcp4 option" where
  "Deliver s (ReceiveComplete status bytes) = do {
     buf \<leftarrow> CopyMem (RxBuffer s) 0 bytes 0 (length bytes);
     Some (NetworkNotify RxToken
       (s\<lparr>RxTokenStatus := status, RxDataLength := length bytes, RxBuffer := buf\<rparr>)) }"
| "Deliver s (TransmitComplete status) = Some (NetworkNotify TxToken (s\<lparr>TxTokenStatus := status\<rparr>))"
| "Deliver s (ConnectComplete status) =
     Some (NetworkNotify ConnectToken (s\<lparr>ConnectTokenStatus := status\<rparr>))"
| "Deliver s (CloseComplete status) = Some (NetworkNotify CloseToken s)"

definition call :: "firmware \<Rightarrow> FIRMWARE_CALL \<Rightarrow> tcp4 \<Rightarrow> (FIRMWARE_REPLY \<times> tcp4) option" where
  "call fw c s =
     (let r = fw (Log s) c
      in do { s \<leftarrow> run Deliver (s\<lparr>Log := Log s @ [(c, r)]\<rparr>) (Completions r); Some (r, s) })"

text \<open>A call whose answer is not used.\<close>

definition invoke :: "firmware \<Rightarrow> FIRMWARE_CALL \<Rightarrow> tcp4 \<Rightarrow> tcp4 option" where
  "invoke fw c s = map_option snd (call fw c s)"

section \<open>Waiting and cancelling\<close>

definition poll_delay :: "nat \<Rightarrow> nat" where
  "poll_delay remaining = (if remaining < 50 then remaining else 50)"

lemma poll_delay_decreases: "remaining \<noteq> 0 \<Longrightarrow> remaining - poll_delay remaining < remaining"
  by (simp add: poll_delay_def)

function WaitForCompletion ::
  "firmware \<Rightarrow> TOKEN \<Rightarrow> nat \<Rightarrow> tcp4 \<Rightarrow> (EFI_STATUS \<times> tcp4) option" where
  "WaitForCompletion fw tok remaining s =
     (if DoneFlag tok s then Some (EFI_SUCCESS, s)
      else do {
        s \<leftarrow> invoke fw Poll s;
        if DoneFlag tok s then Some (EFI_SUCCESS, s)
        else if remaining = 0 then Some (EFI_TIMEOUT, s)
        else do {
          s \<leftarrow> invoke fw (Stall (poll_delay remaining)) s;
          WaitForCompletion fw tok (remaining - poll_delay remaining) s } })"
  by pat_completeness auto
termination
  by (relation "measure (\<lambda>(fw, tok, remaining, s). remaining)") (auto simp: poll_delay_def)

function CancelLoop :: "firmware \<Rightarrow> TOKEN \<Rightarrow> nat \<Rightarrow> tcp4 \<Rightarrow> tcp4 option" where
  "CancelLoop fw tok remaining s =
     (if \<not> DoneFlag tok s \<and> remaining > 0 then do {
        s \<leftarrow> invoke fw Poll s;
        s \<leftarrow> invoke fw (Stall (poll_delay remaining)) s;
        CancelLoop fw tok (remaining - poll_delay remaining) s }
      else Some s)"
  by pat_completeness auto
termination
  by (relation "measure (\<lambda>(fw, tok, remaining, s). remaining)") (auto simp: poll_delay_def)

declare WaitForCompletion.simps [simp del] CancelLoop.simps [simp del]

definition CancelToken :: "firmware \<Rightarrow> TOKEN \<Rightarrow> tcp4 \<Rightarrow> tcp4 option" where
  "CancelToken fw tok s = do { s \<leftarrow> invoke fw (Cancel tok) s; CancelLoop fw tok 1000000 s }"

section \<open>Receiving\<close>

definition PostReceive :: "firmware \<Rightarrow> tcp4 \<Rightarrow> (EFI_STATUS \<times> tcp4) option" where
  "PostReceive fw s =
     (if RxActive s \<or> EndOfStream s then Some (EFI_SUCCESS, s)
      else do {
        let s = s\<lparr>RxDone := False, RxOffset := 0, RxLength := 0, RxDataLength := RX_CAPACITY,
                  RxTokenStatus := EFI_NOT_READY\<rparr>;
        (r, s) \<leftarrow> call fw (Receive (RxEvent s) (RxDataLength s)) s;
        Some (Status r, if EFI_ERROR (Status r) then s else s\<lparr>RxActive := True\<rparr>) })"

definition FinishReceive :: "tcp4 \<Rightarrow> tcp4" where
  "FinishReceive s =
     (if \<not> RxActive s \<or> \<not> RxDone s then s
      else
        let s = s\<lparr>RxActive := False, LastRxStatus := RxTokenStatus s\<rparr>
        in if LastRxStatus s = EFI_CONNECTION_FIN then s\<lparr>EndOfStream := True\<rparr>
           else if EFI_ERROR (LastRxStatus s) then s
           else s\<lparr>RxOffset := 0, RxLength := RxDataLength s\<rparr>)"

definition WolfSshTcp4Poll :: "firmware \<Rightarrow> tcp4 \<Rightarrow> tcp4 option" where
  "WolfSshTcp4Poll fw s =
     (if Protocol s = 0 then Some s else map_option FinishReceive (invoke fw Poll s))"

text \<open>
  What the callbacks return to wolfSSH: the number of bytes transferred or one of the codes of
  \<open>wolfssh/error.h\<close>, whose values the code does not depend on. The received bytes are a second result.
\<close>

datatype CBIO =
    Transferred nat
  | WS_CBIO_ERR_GENERAL
  | WS_CBIO_ERR_WANT_READ
  | WS_CBIO_ERR_CONN_RST
  | WS_CBIO_ERR_CONN_CLOSE
  | WS_CBIO_ERR_TIMEOUT

definition WolfSshTcp4RecvCallback :: "firmware \<Rightarrow> nat \<Rightarrow> tcp4 \<Rightarrow> (CBIO \<times> UINT8 list \<times> tcp4) option" where
  "WolfSshTcp4RecvCallback fw n s =
     (if n = 0 then Some (WS_CBIO_ERR_GENERAL, [], s)
      else do {
        s \<leftarrow> WolfSshTcp4Poll fw s;
        if RxLength s > RxOffset s then do {
          let copyLength = min n (RxLength s - RxOffset s);
          bytes \<leftarrow> aread (RxBuffer s) (RxOffset s) copyLength;
          let s = s\<lparr>RxOffset := RxOffset s + copyLength\<rparr>;
          s \<leftarrow> (if RxOffset s = RxLength s then do {
                 (status, s) \<leftarrow> PostReceive fw (s\<lparr>RxOffset := 0, RxLength := 0\<rparr>);
                 Some (if EFI_ERROR status then s\<lparr>LastRxStatus := status\<rparr> else s) }
               else Some s);
          Some (Transferred copyLength, bytes, s) }
        else if EndOfStream s then Some (WS_CBIO_ERR_CONN_CLOSE, [], s)
        else if EFI_ERROR (LastRxStatus s) \<and> LastRxStatus s \<noteq> EFI_NOT_READY then
          Some (if LastRxStatus s = EFI_CONNECTION_RESET then WS_CBIO_ERR_CONN_RST
                else WS_CBIO_ERR_GENERAL, [], s)
        else if \<not> RxActive s then do {
          (status, s) \<leftarrow> PostReceive fw s;
          Some (if EFI_ERROR status then WS_CBIO_ERR_GENERAL else WS_CBIO_ERR_WANT_READ, [], s) }
        else Some (WS_CBIO_ERR_WANT_READ, [], s) })"

section \<open>Sending\<close>

definition WolfSshTcp4SendCallback :: "firmware \<Rightarrow> UINT8 list \<Rightarrow> tcp4 \<Rightarrow> (CBIO \<times> tcp4) option" where
  "WolfSshTcp4SendCallback fw bytes s =
     (if Protocol s = 0 \<or> bytes = [] then Some (WS_CBIO_ERR_GENERAL, s)
      else do {
        let s = s\<lparr>TxDone := False, TxTokenStatus := EFI_NOT_READY\<rparr>;
        (r, s) \<leftarrow> call fw (Transmit (TxEvent s) bytes) s;
        if EFI_ERROR (Status r) then Some (WS_CBIO_ERR_GENERAL, s)
        else do {
          (status, s) \<leftarrow> WaitForCompletion fw TxToken 30000000 s;
          if status = EFI_TIMEOUT then do {
            s \<leftarrow> CancelToken fw TxToken s;
            Some (WS_CBIO_ERR_TIMEOUT, s) }
          else if TxTokenStatus s = EFI_CONNECTION_RESET then Some (WS_CBIO_ERR_CONN_RST, s)
          else if EFI_ERROR (TxTokenStatus s) then Some (WS_CBIO_ERR_GENERAL, s)
          else Some (Transferred (length bytes), s) } })"

section \<open>Closing\<close>

definition CloseStage :: "firmware \<Rightarrow> bool \<Rightarrow> tcp4 \<Rightarrow> tcp4 option" where
  "CloseStage fw abort s = do {
     let s = s\<lparr>TxDone := False\<rparr>;
     (r, s) \<leftarrow> call fw (CloseCall (TxEvent s) abort) s;
     s \<leftarrow> (if EFI_ERROR (Status r) then Some s
          else map_option snd (WaitForCompletion fw CloseToken 2000000 s));
     invoke fw (Configure None) s }"

definition WolfSshTcp4Close :: "firmware \<Rightarrow> bool \<Rightarrow> tcp4 \<Rightarrow> tcp4 option" where
  "WolfSshTcp4Close fw abort s = do {
     s \<leftarrow> (if Protocol s \<noteq> 0 \<and> RxActive s \<and> \<not> RxDone s then do {
            s \<leftarrow> CancelToken fw RxToken s;
            Some (s\<lparr>RxActive := False\<rparr>) }
          else Some s);
     s \<leftarrow> (if Protocol s \<noteq> 0 \<and> TxEvent s \<noteq> 0 then CloseStage fw abort s else Some s);
     s \<leftarrow> (if Binding s \<noteq> 0 \<and> Child s \<noteq> 0 then invoke fw (DestroyChild (Binding s) (Child s)) s
          else Some s);
     s \<leftarrow> (if RxEvent s \<noteq> 0 then invoke fw (CloseEvent (RxEvent s)) s else Some s);
     s \<leftarrow> (if TxEvent s \<noteq> 0 then invoke fw (CloseEvent (TxEvent s)) s else Some s);
     Some (ZeroSocket s) }"

section \<open>Connecting\<close>

text \<open>
  A service that returns a pointer, handle or event through an argument: \<open>store\<close> keeps it when the
  call succeeds. \<open>Acquire\<close> is one such step of \<open>OpenOnController\<close>: on failure the code jumps to
  \<open>Error\<close>, where the socket is closed.
\<close>

definition CloseWith :: "firmware \<Rightarrow> EFI_STATUS \<Rightarrow> tcp4 \<Rightarrow> (EFI_STATUS \<times> tcp4) option" where
  "CloseWith fw status s = do { s \<leftarrow> WolfSshTcp4Close fw True s; Some (status, s) }"

definition Acquire ::
  "firmware \<Rightarrow> FIRMWARE_CALL \<Rightarrow> (nat \<Rightarrow> tcp4 \<Rightarrow> tcp4) \<Rightarrow>
   (tcp4 \<Rightarrow> (EFI_STATUS \<times> tcp4) option) \<Rightarrow> tcp4 \<Rightarrow> (EFI_STATUS \<times> tcp4) option" where
  "Acquire fw c store continue s = do {
     (r, s) \<leftarrow> call fw c s;
     if EFI_ERROR (Status r) then CloseWith fw (Status r) s
     else continue (store (Pointer r) s) }"

definition ConnectConfig :: "UINT8 list \<Rightarrow> nat \<Rightarrow> TCP4_CONFIG" where
  "ConnectConfig remoteAddress remotePort =
     \<lparr>UseDefaultAddress = True, RemoteAddress = remoteAddress, RemotePort = remotePort,
      ActiveFlag = True, ReceiveBufferSize = 64 * 1024, SendBufferSize = 64 * 1024,
      EnableNagle = False, EnableWindowScaling = True, EnableSelectiveAck = False,
      EnablePathMtuDiscovery = False\<rparr>"

text \<open>The loop that waits for an address, with the number of attempts left.\<close>

fun ConfigureLoop ::
  "firmware \<Rightarrow> TCP4_CONFIG \<Rightarrow> nat \<Rightarrow> EFI_STATUS \<Rightarrow> tcp4 \<Rightarrow> (EFI_STATUS \<times> tcp4) option" where
  "ConfigureLoop fw config 0 status s = Some (status, s)"
| "ConfigureLoop fw config (Suc retries) status s = do {
     (r, s) \<leftarrow> call fw (Configure (Some config)) s;
     if Status r \<noteq> EFI_NO_MAPPING then Some (Status r, s)
     else do {
       s \<leftarrow> invoke fw (Stall 100000) s;
       ConfigureLoop fw config retries (Status r) s } }"

text \<open>The connection request itself, from the creation of its event to its destruction.\<close>

definition ConnectStage :: "firmware \<Rightarrow> nat \<Rightarrow> tcp4 \<Rightarrow> (EFI_STATUS \<times> tcp4) option" where
  "ConnectStage fw connectEvent s = do {
     let s = s\<lparr>ConnectTokenStatus := EFI_NOT_READY\<rparr>;
     (r, s) \<leftarrow> call fw (ConnectCall connectEvent) s;
     (status, s) \<leftarrow> (if EFI_ERROR (Status r) then Some (Status r, s)
                     else WaitForCompletion fw ConnectToken 30000000 s);
     s \<leftarrow> (if status = EFI_TIMEOUT then CancelToken fw ConnectToken s else Some s);
     let status = (if EFI_ERROR status then status else ConnectTokenStatus s);
     s \<leftarrow> invoke fw (CloseEvent connectEvent) s;
     Some (status, s) }"

definition ConnectAndPost :: "firmware \<Rightarrow> tcp4 \<Rightarrow> (EFI_STATUS \<times> tcp4) option" where
  "ConnectAndPost fw s = do {
     (r, s) \<leftarrow> call fw (CreateEvent ConnectToken) (s\<lparr>ConnectDone := False\<rparr>);
     if EFI_ERROR (Status r) then CloseWith fw (Status r) s
     else do {
       (status, s) \<leftarrow> ConnectStage fw (Pointer r) s;
       if EFI_ERROR status then CloseWith fw status s
       else do {
         (status, s) \<leftarrow> PostReceive fw s;
         if EFI_ERROR status then CloseWith fw status s else Some (EFI_SUCCESS, s) } } }"

definition ConfigureStage :: "firmware \<Rightarrow> TCP4_CONFIG \<Rightarrow> tcp4 \<Rightarrow> (EFI_STATUS \<times> tcp4) option" where
  "ConfigureStage fw config s = do {
     (status, s) \<leftarrow> ConfigureLoop fw config 100 EFI_SUCCESS s;
     if EFI_ERROR status then CloseWith fw status s else ConnectAndPost fw s }"

definition OpenOnController ::
  "firmware \<Rightarrow> nat \<Rightarrow> UINT8 list \<Rightarrow> nat \<Rightarrow> tcp4 \<Rightarrow> (EFI_STATUS \<times> tcp4) option" where
  "OpenOnController fw controller remoteAddress remotePort s =
     Acquire fw (OpenBinding controller) (\<lambda>p s. s\<lparr>Binding := p\<rparr>) (\<lambda>s.
       Acquire fw (CreateChild (Binding s)) (\<lambda>p s. s\<lparr>Child := p\<rparr>) (\<lambda>s.
         Acquire fw (OpenProtocol (Child s)) (\<lambda>p s. s\<lparr>Protocol := p\<rparr>)
           (Acquire fw (CreateEvent RxToken) (\<lambda>p s. s\<lparr>RxEvent := p\<rparr>)
             (Acquire fw (CreateEvent TxToken) (\<lambda>p s. s\<lparr>TxEvent := p\<rparr>)
               (ConfigureStage fw (ConnectConfig remoteAddress remotePort)))) s) s)
       ((ZeroSocket s)\<lparr>Controller := controller, LastRxStatus := EFI_NOT_READY\<rparr>)"

fun ControllerLoop ::
  "firmware \<Rightarrow> UINT8 list \<Rightarrow> nat \<Rightarrow> nat list \<Rightarrow> EFI_STATUS \<Rightarrow> tcp4 \<Rightarrow> (EFI_STATUS \<times> tcp4) option" where
  "ControllerLoop fw remoteAddress remotePort [] status s = Some (status, s)"
| "ControllerLoop fw remoteAddress remotePort (h # hs) status s = do {
     (r, s) \<leftarrow> call fw (DetectMedia h) s;
     if \<not> EFI_ERROR (Status r) \<and> MediaState r \<noteq> EFI_SUCCESS then
       ControllerLoop fw remoteAddress remotePort hs (MediaState r) s
     else do {
       (status, s) \<leftarrow> OpenOnController fw h remoteAddress remotePort s;
       if \<not> EFI_ERROR status then Some (status, s)
       else ControllerLoop fw remoteAddress remotePort hs status s } }"

definition WolfSshTcp4Connect ::
  "firmware \<Rightarrow> UINT8 list \<Rightarrow> nat \<Rightarrow> tcp4 \<Rightarrow> (EFI_STATUS \<times> tcp4) option" where
  "WolfSshTcp4Connect fw remoteAddress remotePort s =
     (if remotePort = 0 then Some (EFI_INVALID_PARAMETER, s)
      else do {
        (r, s) \<leftarrow> call fw LocateHandles s;
        if EFI_ERROR (Status r) then Some (Status r, s)
        else do {
          (status, s) \<leftarrow> ControllerLoop fw remoteAddress remotePort (HandleBuffer r) EFI_NOT_FOUND s;
          s \<leftarrow> invoke fw FreeHandles s;
          Some (status, s) } })"

end
