(* ===== verification/Tcp4_Stream.thy ===== *)
theory Tcp4_Stream
  imports Tcp4
begin

text \<open>
  What the receive side of the transport promises: the documented behaviour of the TCP driver as a
  contract, the invariant of the socket, and the refinement of a byte stream, in which the bytes
  handed to wolfSSH followed by those still in the socket are the bytes the driver delivered.
\<close>

section \<open>The contract of the driver\<close>

text \<open>
  The tokens the driver holds follow from the history: a request that succeeds hands one over, a
  completion gives it back, and resetting the instance with \<open>Configure (NULL)\<close> gives back all.
\<close>

fun token_of :: "COMPLETION \<Rightarrow> TOKEN" where
  "token_of (ReceiveComplete _ _) = RxToken"
| "token_of (TransmitComplete _) = TxToken"
| "token_of (ConnectComplete _) = ConnectToken"
| "token_of (CloseComplete _) = CloseToken"

fun data_of :: "COMPLETION \<Rightarrow> UINT8 list" where
  "data_of (ReceiveComplete status bytes) = (if EFI_ERROR status then [] else bytes)"
| "data_of _ = []"

fun posts :: "FIRMWARE_CALL \<Rightarrow> TOKEN set" where
  "posts (Receive _ _) = {RxToken}"
| "posts (Transmit _ _) = {TxToken}"
| "posts (ConnectCall _) = {ConnectToken}"
| "posts (CloseCall _ _) = {CloseToken}"
| "posts _ = {}"

definition posted :: "FIRMWARE_CALL \<Rightarrow> EFI_STATUS \<Rightarrow> TOKEN set \<Rightarrow> TOKEN set" where
  "posted c status tokens = (if EFI_ERROR status then tokens else tokens \<union> posts c)"

definition settle :: "TOKEN set \<Rightarrow> FIRMWARE_CALL \<times> FIRMWARE_REPLY \<Rightarrow> TOKEN set" where
  "settle tokens = (\<lambda>(c, r). if c = Configure None then {}
     else posted c (Status r) tokens - token_of ` set (Completions r))"

definition outstanding :: "history \<Rightarrow> TOKEN set" where
  "outstanding h = foldl settle {} h"

definition received :: "history \<Rightarrow> UINT8 list" where
  "received h = concat (map (\<lambda>(c, r). concat (map data_of (Completions r))) h)"

text \<open>The statuses with which receive requests completed.\<close>

definition reported :: "history \<Rightarrow> EFI_STATUS set" where
  "reported h = {status. \<exists>(c, r) \<in> set h. \<exists>bytes. ReceiveComplete status bytes \<in> set (Completions r)}"

fun creates :: "FIRMWARE_CALL \<Rightarrow> bool" where
  "creates (OpenBinding _) = True"
| "creates (CreateChild _) = True"
| "creates (OpenProtocol _) = True"
| "creates (CreateEvent _) = True"
| "creates _ = False"

text \<open>
  A conforming firmware completes only tokens it holds, each of them once, stores no more than the
  receive buffer takes, returns a proper pointer when it reports success, and reports a missing
  medium with an error code.
\<close>

definition conforming :: "firmware \<Rightarrow> bool" where
  "conforming fw \<longleftrightarrow> (\<forall>h c. let r = fw h c in
     token_of ` set (Completions r) \<subseteq> posted c (Status r) (outstanding h) \<and>
     distinct (map token_of (Completions r)) \<and>
     (\<forall>status bytes. ReceiveComplete status bytes \<in> set (Completions r) \<longrightarrow> length bytes \<le> RX_CAPACITY) \<and>
     (creates c \<and> \<not> EFI_ERROR (Status r) \<longrightarrow> Pointer r \<noteq> 0) \<and>
     (MediaState r = EFI_SUCCESS \<or> EFI_ERROR (MediaState r)))"

lemma outstanding_append [simp]: "outstanding (h @ [e]) = settle (outstanding h) e"
  by (simp add: outstanding_def)

lemma outstanding_Nil [simp]: "outstanding [] = {}"
  by (simp add: outstanding_def)

lemma received_append [simp]: "received (h @ h') = received h @ received h'"
  by (simp add: received_def)

lemma received_one [simp]: "received [(c, r)] = concat (map data_of (Completions r))"
  by (simp add: received_def)

lemma received_Nil [simp]: "received [] = []"
  by (simp add: received_def)

lemma reported_append [simp]: "reported (h @ h') = reported h \<union> reported h'"
  by (auto simp: reported_def)

lemma reported_one [simp]:
  "reported [(c, r)] = {status. \<exists>bytes. ReceiveComplete status bytes \<in> set (Completions r)}"
  by (auto simp: reported_def)

section \<open>The invariant\<close>

text \<open>The bytes that have arrived and have not been handed out.\<close>

definition unread :: "tcp4 \<Rightarrow> UINT8 list" where
  "unread s =
     (if RxActive s then
        (if RxDone s \<and> \<not> EFI_ERROR (RxTokenStatus s) then take (RxDataLength s) (RxBuffer s) else [])
      else take (RxLength s - RxOffset s) (drop (RxOffset s) (RxBuffer s)))"

definition wf_buffer :: "tcp4 \<Rightarrow> bool" where
  "wf_buffer s \<longleftrightarrow> length (RxBuffer s) = RX_CAPACITY"

definition wf_socket :: "TOKEN set \<Rightarrow> tcp4 \<Rightarrow> bool" where
  "wf_socket tokens s \<longleftrightarrow> wf_buffer s \<and> RxOffset s \<le> RxLength s \<and> RxLength s \<le> RX_CAPACITY \<and>
     RxDataLength s \<le> RX_CAPACITY \<and> (RxActive s \<longrightarrow> RxLength s = 0) \<and>
     (RxToken \<in> tokens \<longleftrightarrow> RxActive s \<and> \<not> RxDone s)"

text \<open>The status of a completed receive request, and what the socket knows of the end of the stream.\<close>

definition rx_reported :: "tcp4 \<Rightarrow> EFI_STATUS set" where
  "rx_reported s = (if RxDone s then {RxTokenStatus s} else {})"

definition end_known :: "EFI_STATUS set \<Rightarrow> tcp4 \<Rightarrow> bool" where
  "end_known R s \<longleftrightarrow> (RxActive s \<longrightarrow> rx_reported s \<subseteq> R) \<and>
     (EndOfStream s \<longrightarrow> \<not> RxActive s \<and> EFI_CONNECTION_FIN \<in> R)"

text \<open>
  \<open>streaming c s\<close>: the socket is well-formed, agrees with the driver on the receive token, the
  bytes \<open>c\<close> handed out so far followed by the unread ones are all that were received, and the end of
  the stream is only assumed when the driver reported it.
\<close>

definition streaming :: "UINT8 list \<Rightarrow> tcp4 \<Rightarrow> bool" where
  "streaming c s \<longleftrightarrow> wf_socket (outstanding (Log s)) s \<and> received (Log s) = c @ unread s \<and>
     end_known (reported (Log s)) s"

text \<open>The part of the socket that no completion changes.\<close>

definition frame where
  "frame s = (Controller s, Child s, Binding s, Protocol s, RxEvent s, TxEvent s,
     RxOffset s, RxLength s, RxActive s, EndOfStream s, LastRxStatus s)"

lemma frameD:
  assumes "frame s' = frame s"
  shows "Child s' = Child s" "Binding s' = Binding s" "Protocol s' = Protocol s" "RxEvent s' = RxEvent s"
    "TxEvent s' = TxEvent s" "RxOffset s' = RxOffset s" "RxLength s' = RxLength s"
    "RxActive s' = RxActive s" "EndOfStream s' = EndOfStream s" "LastRxStatus s' = LastRxStatus s"
  using assms by (simp_all add: frame_def)

lemma unread_update [simp]:
  "unread (s\<lparr>TxDone := b\<rparr>) = unread s" "unread (s\<lparr>TxTokenStatus := st\<rparr>) = unread s"
  "unread (s\<lparr>ConnectDone := b\<rparr>) = unread s" "unread (s\<lparr>ConnectTokenStatus := st\<rparr>) = unread s"
  "unread (s\<lparr>Log := h\<rparr>) = unread s" "unread (s\<lparr>LastRxStatus := st\<rparr>) = unread s"
  by (simp_all add: unread_def)

lemma wf_socket_update [simp]:
  "wf_socket T (s\<lparr>TxDone := b\<rparr>) = wf_socket T s" "wf_socket T (s\<lparr>TxTokenStatus := st\<rparr>) = wf_socket T s"
  "wf_socket T (s\<lparr>ConnectDone := b\<rparr>) = wf_socket T s"
  "wf_socket T (s\<lparr>ConnectTokenStatus := st\<rparr>) = wf_socket T s"
  "wf_socket T (s\<lparr>Log := h\<rparr>) = wf_socket T s" "wf_socket T (s\<lparr>LastRxStatus := st\<rparr>) = wf_socket T s"
  by (simp_all add: wf_socket_def wf_buffer_def)

lemma end_known_update [simp]:
  "end_known R (s\<lparr>TxDone := b\<rparr>) = end_known R s" "end_known R (s\<lparr>TxTokenStatus := st\<rparr>) = end_known R s"
  "end_known R (s\<lparr>ConnectDone := b\<rparr>) = end_known R s"
  "end_known R (s\<lparr>ConnectTokenStatus := st\<rparr>) = end_known R s"
  "end_known R (s\<lparr>Log := h\<rparr>) = end_known R s" "end_known R (s\<lparr>LastRxStatus := st\<rparr>) = end_known R s"
  by (simp_all add: end_known_def rx_reported_def)

lemma log_update [simp]:
  "frame (s\<lparr>Log := h\<rparr>) = frame s" "rx_reported (s\<lparr>Log := h\<rparr>) = rx_reported s"
  by (simp_all add: frame_def rx_reported_def)

lemma streaming_update [simp]:
  "streaming c (s\<lparr>TxDone := b\<rparr>) = streaming c s" "streaming c (s\<lparr>TxTokenStatus := st\<rparr>) = streaming c s"
  "streaming c (s\<lparr>ConnectDone := b\<rparr>) = streaming c s"
  "streaming c (s\<lparr>ConnectTokenStatus := st\<rparr>) = streaming c s"
  "streaming c (s\<lparr>LastRxStatus := st\<rparr>) = streaming c s"
  by (simp_all add: streaming_def)

lemma unread_bound: "wf_socket T s \<Longrightarrow> length (unread s) \<le> RX_CAPACITY"
  by (auto simp: unread_def wf_socket_def wf_buffer_def)

section \<open>Completions and calls\<close>

lemma Deliver_safe:
  assumes "wf_buffer s" and "\<And>st b. x = ReceiveComplete st b \<Longrightarrow> length b \<le> RX_CAPACITY"
  shows "ok (Deliver s x) (\<lambda>s'. wf_buffer s' \<and> frame s' = frame s \<and> Log s' = Log s)"
  using assms by (cases x) (auto simp: wf_buffer_def frame_def CopyMem_def)

lemma Deliver_ok:
  assumes "wf_socket T s" and "token_of x \<in> T"
    and "\<And>st b. x = ReceiveComplete st b \<Longrightarrow> length b \<le> RX_CAPACITY"
  shows "ok (Deliver s x) (\<lambda>s'. wf_socket (T - {token_of x}) s' \<and> unread s' = unread s @ data_of x \<and>
    frame s' = frame s \<and> Log s' = Log s \<and>
    rx_reported s' \<subseteq> rx_reported s \<union> {st. \<exists>b. ReceiveComplete st b = x})"
proof (cases x)
  case (ReceiveComplete st b)
  then have "RxActive s" "\<not> RxDone s" "length b \<le> RX_CAPACITY"
    using assms by (auto simp: wf_socket_def)
  then show ?thesis using assms ReceiveComplete
    by (auto simp: CopyMem_def wf_socket_def wf_buffer_def unread_def frame_def rx_reported_def)
qed (use assms in \<open>auto simp: wf_socket_def wf_buffer_def frame_def unread_def rx_reported_def\<close>)

lemma deliveries_safe:
  assumes "wf_buffer s" and "\<And>st b. ReceiveComplete st b \<in> set xs \<Longrightarrow> length b \<le> RX_CAPACITY"
  shows "ok (run Deliver s xs) (\<lambda>s'. wf_buffer s' \<and> frame s' = frame s \<and> Log s' = Log s)"
  using assms
proof (induction xs arbitrary: s)
  case (Cons x xs)
  have "ok (Deliver s x) (\<lambda>s'. wf_buffer s' \<and> frame s' = frame s \<and> Log s' = Log s)"
    by (rule Deliver_safe) (use Cons.prems in auto)
  then obtain s1 where "Deliver s x = Some s1" "wf_buffer s1" "frame s1 = frame s" "Log s1 = Log s"
    by (auto simp: ok_def)
  moreover have "ok (run Deliver s1 xs) (\<lambda>s'. wf_buffer s' \<and> frame s' = frame s1 \<and> Log s' = Log s1)"
    using Cons.IH [of s1] Cons.prems(2) \<open>wf_buffer s1\<close> by auto
  ultimately show ?case by simp
qed simp

lemma deliveries_ok:
  assumes "wf_socket T s" and "token_of ` set xs \<subseteq> T" and "distinct (map token_of xs)"
    and "\<And>st b. ReceiveComplete st b \<in> set xs \<Longrightarrow> length b \<le> RX_CAPACITY"
  shows "ok (run Deliver s xs) (\<lambda>s'. wf_socket (T - token_of ` set xs) s' \<and>
    unread s' = unread s @ concat (map data_of xs) \<and> frame s' = frame s \<and> Log s' = Log s \<and>
    rx_reported s' \<subseteq> rx_reported s \<union> {st. \<exists>b. ReceiveComplete st b \<in> set xs})"
  using assms
proof (induction xs arbitrary: s T)
  case (Cons x xs)
  have "ok (Deliver s x) (\<lambda>s'. wf_socket (T - {token_of x}) s' \<and> unread s' = unread s @ data_of x \<and>
    frame s' = frame s \<and> Log s' = Log s \<and>
    rx_reported s' \<subseteq> rx_reported s \<union> {st. \<exists>b. ReceiveComplete st b = x})"
    by (rule Deliver_ok) (use Cons.prems in auto)
  then obtain s1 where s1: "Deliver s x = Some s1" "wf_socket (T - {token_of x}) s1"
    "unread s1 = unread s @ data_of x" "frame s1 = frame s" "Log s1 = Log s"
    "rx_reported s1 \<subseteq> rx_reported s \<union> {st. \<exists>b. ReceiveComplete st b = x}"
    by (auto simp: ok_def)
  have sub: "token_of ` set xs \<subseteq> T - {token_of x}"
    using Cons.prems(2,3) by (simp add: subset_Diff_insert)
  have "ok (run Deliver s1 xs) (\<lambda>s'. wf_socket (T - {token_of x} - token_of ` set xs) s' \<and>
    unread s' = unread s1 @ concat (map data_of xs) \<and> frame s' = frame s1 \<and> Log s' = Log s1 \<and>
    rx_reported s' \<subseteq> rx_reported s1 \<union> {st. \<exists>b. ReceiveComplete st b \<in> set xs})"
    by (rule Cons.IH) (use sub s1(2) Cons.prems in auto)
  then obtain s2 where s2: "run Deliver s1 xs = Some s2"
    "wf_socket (T - {token_of x} - token_of ` set xs) s2" "unread s2 = unread s1 @ concat (map data_of xs)"
    "frame s2 = frame s1" "Log s2 = Log s1"
    "rx_reported s2 \<subseteq> rx_reported s1 \<union> {st. \<exists>b. ReceiveComplete st b \<in> set xs}"
    by (auto simp: ok_def)
  moreover have "T - {token_of x} - token_of ` set xs = T - token_of ` set (x # xs)" by auto
  moreover have "rx_reported s2 \<subseteq> rx_reported s \<union> {st. \<exists>b. ReceiveComplete st b \<in> set (x # xs)}"
    using s1(6) s2(6) by auto
  ultimately show ?case using s1 by simp
qed simp

lemma conformingD:
  assumes "conforming fw"
  shows "token_of ` set (Completions (fw h c)) \<subseteq> posted c (Status (fw h c)) (outstanding h)"
    "distinct (map token_of (Completions (fw h c)))"
    "ReceiveComplete st b \<in> set (Completions (fw h c)) \<Longrightarrow> length b \<le> RX_CAPACITY"
    "creates c \<Longrightarrow> \<not> EFI_ERROR (Status (fw h c)) \<Longrightarrow> Pointer (fw h c) \<noteq> 0"
    "MediaState (fw h c) = EFI_SUCCESS \<or> EFI_ERROR (MediaState (fw h c))"
  using assms unfolding conforming_def Let_def by blast+

text \<open>Every call is safe, adds itself and its answer to the log and keeps the frame.\<close>

definition called :: "firmware \<Rightarrow> FIRMWARE_CALL \<Rightarrow> tcp4 \<Rightarrow> FIRMWARE_REPLY \<Rightarrow> tcp4 \<Rightarrow> bool" where
  "called fw c s r s' \<longleftrightarrow> r = fw (Log s) c \<and> Log s' = Log s @ [(c, r)] \<and> frame s' = frame s \<and> wf_buffer s'"

lemma call_safe:
  assumes "conforming fw" and "wf_buffer s"
  shows "ok (call fw c s) (\<lambda>(r, s'). called fw c s r s')"
proof -
  let ?s = "s\<lparr>Log := Log s @ [(c, fw (Log s) c)]\<rparr>"
  have "ok (run Deliver ?s (Completions (fw (Log s) c)))
      (\<lambda>s'. wf_buffer s' \<and> frame s' = frame ?s \<and> Log s' = Log ?s)"
    by (rule deliveries_safe) (use assms conformingD(3) in \<open>auto simp: wf_buffer_def\<close>)
  then show ?thesis by (auto simp: call_def called_def Let_def ok_def frame_def)
qed

lemma call_general:
  assumes "conforming fw" and "wf_socket (posted c (Status (fw (Log s) c)) (outstanding (Log s))) s"
    and "c \<noteq> Configure None" and "received (Log s) = d @ unread s" and "end_known (reported (Log s)) s"
  shows "ok (call fw c s) (\<lambda>(r, s'). called fw c s r s' \<and> streaming d s')"
proof -
  let ?r = "fw (Log s) c"
  let ?s = "s\<lparr>Log := Log s @ [(c, ?r)]\<rparr>"
  let ?T = "posted c (Status ?r) (outstanding (Log s))"
  have "ok (run Deliver ?s (Completions ?r)) (\<lambda>s'. wf_socket (?T - token_of ` set (Completions ?r)) s' \<and>
      unread s' = unread ?s @ concat (map data_of (Completions ?r)) \<and> frame s' = frame ?s \<and> Log s' = Log ?s \<and>
      rx_reported s' \<subseteq> rx_reported ?s \<union> {st. \<exists>b. ReceiveComplete st b \<in> set (Completions ?r)})"
    by (rule deliveries_ok) (use assms conformingD [OF assms(1)] in auto)
  then obtain s' where s': "run Deliver ?s (Completions ?r) = Some s'"
    "wf_socket (?T - token_of ` set (Completions ?r)) s'"
    "unread s' = unread s @ concat (map data_of (Completions ?r))" "frame s' = frame s" "Log s' = Log ?s"
    "rx_reported s' \<subseteq> rx_reported s \<union> reported [(c, ?r)]"
    by (auto elim: okE)
  have "RxActive s' = RxActive s" "EndOfStream s' = EndOfStream s" using s'(4) by (simp_all add: frame_def)
  then have "end_known (reported (Log s')) s'"
    using s'(5,6) assms(5) unfolding end_known_def by auto
  then show ?thesis using s' assms(3,4)
    by (auto simp: call_def called_def Let_def streaming_def settle_def wf_socket_def)
qed

lemma posted_other: "RxToken \<notin> posts c \<Longrightarrow> RxToken \<in> posted c st T \<longleftrightarrow> RxToken \<in> T"
  by (simp add: posted_def)

text \<open>A call that does not post the receive token keeps the stream.\<close>

definition rx_neutral :: "FIRMWARE_CALL \<Rightarrow> bool" where
  "rx_neutral c \<longleftrightarrow> RxToken \<notin> posts c \<and> c \<noteq> Configure None"

lemma call_ok:
  assumes "conforming fw" and "streaming d s" and "rx_neutral c"
  shows "ok (call fw c s) (\<lambda>(r, s'). called fw c s r s' \<and> streaming d s')"
  by (rule call_general)
    (use assms posted_other [of c] in \<open>auto simp: streaming_def wf_socket_def rx_neutral_def\<close>)

lemma streaming_buffer: "streaming d s \<Longrightarrow> wf_buffer s"
  by (simp add: streaming_def wf_socket_def)

lemma invoke_ok_iff: "ok (invoke fw c s) P \<longleftrightarrow> ok (call fw c s) (\<lambda>(r, s'). P s')"
  by (simp add: invoke_def case_prod_unfold)

section \<open>Waiting and cancelling\<close>

text \<open>
  Both loops only poll and stall. An assertion that those two calls keep is kept by the loops, and
  when waiting ends the flag tells whether the token completed.
\<close>

definition idle_call :: "FIRMWARE_CALL \<Rightarrow> bool" where
  "idle_call c \<longleftrightarrow> c = Poll \<or> (\<exists>n. c = Stall n)"

lemma idle_calls [simp]: "idle_call Poll" "idle_call (Stall n)"
  by (auto simp: idle_call_def)

lemma WaitForCompletion_rule:
  assumes "\<And>s c. P s \<Longrightarrow> idle_call c \<Longrightarrow> ok (call fw c s) (\<lambda>(r, s'). P s')" and "P s"
  shows "ok (WaitForCompletion fw tok remaining s) (\<lambda>(status, s'). P s' \<and>
    (status = EFI_SUCCESS \<and> DoneFlag tok s' \<or> status = EFI_TIMEOUT \<and> \<not> DoneFlag tok s'))"
  using assms(2)
proof (induction remaining arbitrary: s rule: less_induct)
  case (less remaining)
  show ?case
  proof (cases "DoneFlag tok s")
    case True
    then show ?thesis using less.prems by (simp add: WaitForCompletion.simps [of fw tok remaining s])
  next
    case open_s: False
    have poll: "ok (invoke fw Poll s) P" using assms(1) [OF less.prems] by (simp add: invoke_ok_iff)
    have rest: "ok (if DoneFlag tok s1 then Some (EFI_SUCCESS, s1)
        else if remaining = 0 then Some (EFI_TIMEOUT, s1)
        else do {
          s \<leftarrow> invoke fw (Stall (poll_delay remaining)) s1;
          WaitForCompletion fw tok (remaining - poll_delay remaining) s })
       (\<lambda>(status, s'). P s' \<and>
          (status = EFI_SUCCESS \<and> DoneFlag tok s' \<or> status = EFI_TIMEOUT \<and> \<not> DoneFlag tok s'))"
      if "P s1" for s1
    proof -
      have "ok (invoke fw (Stall (poll_delay remaining)) s1) P"
        using assms(1) [OF that] by (simp add: invoke_ok_iff)
      then show ?thesis using that less.IH [OF poll_delay_decreases]
        by (auto elim: ok_mono)
    qed
    have eq: "WaitForCompletion fw tok remaining s = Option.bind (invoke fw Poll s) (\<lambda>s1.
        if DoneFlag tok s1 then Some (EFI_SUCCESS, s1)
        else if remaining = 0 then Some (EFI_TIMEOUT, s1)
        else do {
          s \<leftarrow> invoke fw (Stall (poll_delay remaining)) s1;
          WaitForCompletion fw tok (remaining - poll_delay remaining) s })"
      using open_s by (simp add: WaitForCompletion.simps [of fw tok remaining s])
    show ?thesis unfolding eq ok_bind by (rule ok_mono [OF poll]) (rule rest)
  qed
qed

lemma CancelLoop_rule:
  assumes "\<And>s c. P s \<Longrightarrow> idle_call c \<Longrightarrow> ok (call fw c s) (\<lambda>(r, s'). P s')" and "P s"
  shows "ok (CancelLoop fw tok remaining s) P"
  using assms(2)
proof (induction remaining arbitrary: s rule: less_induct)
  case (less remaining)
  have poll: "ok (invoke fw Poll s) P" using assms(1) [OF less.prems] by (simp add: invoke_ok_iff)
  have rest: "ok (do { s \<leftarrow> invoke fw (Stall (poll_delay remaining)) s1;
      CancelLoop fw tok (remaining - poll_delay remaining) s }) P" if "P s1" "remaining \<noteq> 0" for s1
  proof -
    have "ok (invoke fw (Stall (poll_delay remaining)) s1) P"
      using assms(1) [OF that(1)] by (simp add: invoke_ok_iff)
    then show ?thesis using less.IH [OF poll_delay_decreases [OF that(2)]] by (auto elim: ok_mono)
  qed
  show ?case
  proof (cases "\<not> DoneFlag tok s \<and> remaining > 0")
    case True
    then have "ok (CancelLoop fw tok remaining s) P \<longleftrightarrow>
        ok (invoke fw Poll s) (\<lambda>s1. ok (do { s \<leftarrow> invoke fw (Stall (poll_delay remaining)) s1;
          CancelLoop fw tok (remaining - poll_delay remaining) s }) P)"
      by (simp add: CancelLoop.simps [of fw tok remaining s])
    then show ?thesis using True rest by (auto intro: ok_mono [OF poll])
  next
    case False
    then show ?thesis using less.prems by (auto simp: CancelLoop.simps [of fw tok remaining s])
  qed
qed

lemma CancelToken_rule:
  assumes "\<And>s c. P s \<Longrightarrow> idle_call c \<or> c = Cancel tok \<Longrightarrow> ok (call fw c s) (\<lambda>(r, s'). P s')" and "P s"
  shows "ok (CancelToken fw tok s) P"
proof -
  have "ok (invoke fw (Cancel tok) s) P" using assms by (simp add: invoke_ok_iff)
  then show ?thesis unfolding CancelToken_def ok_bind
    by (rule ok_mono) (rule CancelLoop_rule, use assms(1) in auto)
qed

section \<open>Receiving\<close>

text \<open>What the operations on an open socket keep besides the stream: its handles.\<close>

definition handles where
  "handles s = (Controller s, Child s, Binding s, Protocol s, RxEvent s, TxEvent s)"

lemma frame_handles: "frame s' = frame s \<Longrightarrow> handles s' = handles s"
  by (simp add: frame_def handles_def)

lemma Deliver_active: "Deliver (s\<lparr>RxActive := a\<rparr>) x = map_option (\<lambda>s. s\<lparr>RxActive := a\<rparr>) (Deliver s x)"
  by (cases x) (auto split: bind_splits)

lemma deliveries_active:
  "run Deliver (s\<lparr>RxActive := a\<rparr>) xs = map_option (\<lambda>s. s\<lparr>RxActive := a\<rparr>) (run Deliver s xs)"
proof (induction xs arbitrary: s)
  case (Cons x xs)
  then show ?case by (cases "Deliver s x") (simp_all add: Deliver_active)
qed simp

lemma call_active:
  "call fw c (s\<lparr>RxActive := a\<rparr>) = map_option (\<lambda>(r, s). (r, s\<lparr>RxActive := a\<rparr>)) (call fw c s)"
proof -
  let ?s = "s\<lparr>Log := Log s @ [(c, fw (Log s) c)]\<rparr>"
  have eq: "s\<lparr>RxActive := a, Log := h\<rparr> = s\<lparr>Log := h, RxActive := a\<rparr>" for h by simp
  show ?thesis unfolding call_def Let_def
    using deliveries_active [where s = ?s and a = a and xs = "Completions (fw (Log s) c)"]
    by (cases "run Deliver ?s (Completions (fw (Log s) c))") (simp_all add: eq)
qed

lemma PostReceive_ok:
  assumes "conforming fw" and "streaming d s" and "RxActive s \<or> unread s = []"
  shows "ok (PostReceive fw s) (\<lambda>(status, s'). streaming d s' \<and> handles s' = handles s \<and>
    EndOfStream s' = EndOfStream s \<and> (\<not> EFI_ERROR status \<longrightarrow> RxActive s' \<or> EndOfStream s') \<and>
    (Log s' = Log s \<or> (\<exists>r. Log s' = Log s @ [(Receive (RxEvent s) RX_CAPACITY, r)])))"
proof (cases "RxActive s \<or> EndOfStream s")
  case True
  then show ?thesis using assms(2) by (auto simp: PostReceive_def)
next
  case False
  let ?s = "s\<lparr>RxDone := False, RxOffset := 0, RxLength := 0, RxDataLength := RX_CAPACITY,
     RxTokenStatus := EFI_NOT_READY\<rparr>"
  let ?c = "Receive (RxEvent s) RX_CAPACITY"
  let ?r = "fw (Log s) ?c"
  have un: "unread s = []" and not: "RxToken \<notin> outstanding (Log s)"
    using assms(2,3) False by (auto simp: streaming_def wf_socket_def)
  have r: "received (Log s) = d @ []" and wf: "wf_buffer s"
    and e: "EndOfStream s \<longrightarrow> \<not> RxActive s \<and> EFI_CONNECTION_FIN \<in> reported (Log s)"
    using assms(2) un by (auto simp: streaming_def wf_socket_def end_known_def)
  have post: "PostReceive fw s = do { (r, s) \<leftarrow> call fw ?c ?s;
      Some (Status r, if EFI_ERROR (Status r) then s else s\<lparr>RxActive := True\<rparr>) }"
    using False by (simp add: PostReceive_def)
  show ?thesis
  proof (cases "EFI_ERROR (Status ?r)")
    case True
    have "ok (call fw ?c ?s) (\<lambda>(r, s'). called fw ?c ?s r s' \<and> streaming d s')"
      by (rule call_general) (use assms(1) True not r wf e False in
        \<open>auto simp: posted_def wf_socket_def wf_buffer_def unread_def end_known_def\<close>)
    then show ?thesis using True False
      by (auto simp: post called_def ok_def frame_def handles_def)
  next
    case good: False
    have "ok (call fw ?c (?s\<lparr>RxActive := True\<rparr>)) (\<lambda>(r, s'). called fw ?c (?s\<lparr>RxActive := True\<rparr>) r s' \<and> streaming d s')"
      by (rule call_general) (use assms(1) good False r wf e in
        \<open>auto simp: posted_def wf_socket_def wf_buffer_def unread_def end_known_def rx_reported_def\<close>)
    then obtain s' where s': "call fw ?c (?s\<lparr>RxActive := True\<rparr>) = Some (?r, s')" "streaming d s'"
      "frame s' = frame (?s\<lparr>RxActive := True\<rparr>)" "Log s' = Log s @ [(?c, ?r)]"
      by (auto simp: ok_def called_def)
    then obtain s1 where "call fw ?c ?s = Some (?r, s1)" "s' = s1\<lparr>RxActive := True\<rparr>"
      unfolding call_active by auto
    then show ?thesis using good s' False by (simp add: post frame_def handles_def)
  qed
qed

lemma FinishReceive_ok:
  assumes "streaming d s"
  shows "streaming d (FinishReceive s)" "handles (FinishReceive s) = handles s"
    "Log (FinishReceive s) = Log s"
proof -
  show "handles (FinishReceive s) = handles s" "Log (FinishReceive s) = Log s"
    by (simp_all add: FinishReceive_def handles_def Let_def)
  show "streaming d (FinishReceive s)"
    using assms by (auto simp: FinishReceive_def streaming_def wf_socket_def wf_buffer_def unread_def
      end_known_def rx_reported_def Let_def)
qed

lemma Poll_ok:
  assumes "conforming fw" and "streaming d s"
  shows "ok (WolfSshTcp4Poll fw s) (\<lambda>s'. streaming d s' \<and> handles s' = handles s)"
proof -
  have "ok (call fw Poll s) (\<lambda>(r, s'). called fw Poll s r s' \<and> streaming d s')"
    by (rule call_ok) (use assms in \<open>simp_all add: rx_neutral_def\<close>)
  then show ?thesis using assms FinishReceive_ok
    by (auto simp: WolfSshTcp4Poll_def invoke_def ok_def called_def dest: frame_handles)
qed

text \<open>
  The receive callback hands out a non-empty piece of what is unread, at most as much as was asked
  for, and reports the end of the stream only when the driver did and nothing is left.
\<close>

definition recv_result :: "nat \<Rightarrow> CBIO \<Rightarrow> UINT8 list \<Rightarrow> tcp4 \<Rightarrow> bool" where
  "recv_result n res bytes s \<longleftrightarrow> (case res of
       Transferred k \<Rightarrow> length bytes = k \<and> 0 < k \<and> k \<le> n
     | WS_CBIO_ERR_CONN_CLOSE \<Rightarrow> bytes = [] \<and> unread s = [] \<and> EFI_CONNECTION_FIN \<in> reported (Log s)
     | WS_CBIO_ERR_WANT_READ \<Rightarrow> bytes = [] \<and> RxActive s
     | WS_CBIO_ERR_CONN_RST \<Rightarrow> bytes = [] \<and> LastRxStatus s = EFI_CONNECTION_RESET
     | WS_CBIO_ERR_GENERAL \<Rightarrow> bytes = []
     | WS_CBIO_ERR_TIMEOUT \<Rightarrow> False)"

lemma read_ok:
  assumes "streaming d s" and "RxOffset s < RxLength s" and "k \<le> RxLength s - RxOffset s"
  shows "aread (RxBuffer s) (RxOffset s) k = Some (take k (unread s))" (is ?read)
    and "streaming (d @ take k (unread s)) (s\<lparr>RxOffset := RxOffset s + k\<rparr>)" (is ?next)
    and "\<not> RxActive s" and "length (unread s) = RxLength s - RxOffset s"
proof -
  have wf: "\<not> RxActive s" "RxLength s \<le> RX_CAPACITY" "length (RxBuffer s) = RX_CAPACITY"
    using assms by (auto simp: streaming_def wf_socket_def wf_buffer_def)
  then show "\<not> RxActive s" "length (unread s) = RxLength s - RxOffset s" by (auto simp: unread_def)
  have "take k (unread s) = take k (drop (RxOffset s) (RxBuffer s))"
    using wf(1) assms(3) by (simp add: unread_def min_absorb1)
  then show ?read using wf assms by (simp add: aread_def)
  have "unread s = take k (unread s) @ unread (s\<lparr>RxOffset := RxOffset s + k\<rparr>)"
    using wf(1) append_take_drop_id [of k "take (RxLength s - RxOffset s) (drop (RxOffset s) (RxBuffer s))"]
      assms(3) by (simp add: unread_def drop_take add.commute min_absorb1)
  then have "received (Log s) = (d @ take k (unread s)) @ unread (s\<lparr>RxOffset := RxOffset s + k\<rparr>)"
    using assms(1) by (simp add: streaming_def)
  then show ?next using assms wf
    by (auto simp: streaming_def wf_socket_def wf_buffer_def end_known_def rx_reported_def)
qed

lemma drained_ok:
  assumes "streaming d s" and "RxOffset s = RxLength s" and "\<not> RxActive s"
  shows "streaming d (s\<lparr>RxOffset := 0, RxLength := 0\<rparr>)"
  using assms by (auto simp: streaming_def wf_socket_def wf_buffer_def unread_def end_known_def rx_reported_def)

text \<open>The branch of the callback that copies data.\<close>

definition RecvData :: "firmware \<Rightarrow> nat \<Rightarrow> tcp4 \<Rightarrow> (CBIO \<times> UINT8 list \<times> tcp4) option" where
  "RecvData fw k s = do {
     bytes \<leftarrow> aread (RxBuffer s) (RxOffset s) k;
     let s = s\<lparr>RxOffset := RxOffset s + k\<rparr>;
     s \<leftarrow> (if RxOffset s = RxLength s then do {
            (status, s) \<leftarrow> PostReceive fw (s\<lparr>RxOffset := 0, RxLength := 0\<rparr>);
            Some (if EFI_ERROR status then s\<lparr>LastRxStatus := status\<rparr> else s) }
          else Some s);
     Some (Transferred k, bytes, s) }"

lemma handles_update [simp]:
  "handles (s\<lparr>RxOffset := a\<rparr>) = handles s" "handles (s\<lparr>RxLength := a\<rparr>) = handles s"
  "handles (s\<lparr>LastRxStatus := st\<rparr>) = handles s" "handles (s\<lparr>TxDone := b\<rparr>) = handles s"
  "handles (s\<lparr>TxTokenStatus := st\<rparr>) = handles s" "handles (s\<lparr>ConnectDone := b\<rparr>) = handles s"
  "handles (s\<lparr>ConnectTokenStatus := st\<rparr>) = handles s"
  by (simp_all add: handles_def)

lemma RecvData_ok:
  assumes "conforming fw" and "streaming d s" and "RxOffset s < RxLength s"
    and "0 < k" and "k \<le> n" and "k \<le> RxLength s - RxOffset s"
  shows "ok (RecvData fw k s) (\<lambda>(res, bytes, s'). streaming (d @ bytes) s' \<and> handles s' = handles s \<and>
    recv_result n res bytes s')"
proof -
  note r = read_ok [OF assms(2,3,6)]
  let ?s = "s\<lparr>RxOffset := RxOffset s + k\<rparr>"
  have len: "length (take k (unread s)) = k" using r(4) assms(6) by simp
  show ?thesis
  proof (cases "RxOffset s + k = RxLength s")
    case False
    then show ?thesis using r(1,2) len assms by (simp add: RecvData_def Let_def recv_result_def)
  next
    case True
    let ?z = "?s\<lparr>RxOffset := 0, RxLength := 0\<rparr>"
    have "streaming (d @ take k (unread s)) ?z"
      using drained_ok [OF r(2)] True r(3) by simp
    moreover have "unread ?z = []" using r(3) by (simp add: unread_def)
    ultimately have "ok (PostReceive fw ?z) (\<lambda>(status, s'). streaming (d @ take k (unread s)) s' \<and>
        handles s' = handles s)"
      using PostReceive_ok [OF assms(1), of "d @ take k (unread s)" ?z] by (auto simp: ok_def)
    then show ?thesis using r(1) True len assms
      by (auto simp: RecvData_def Let_def recv_result_def ok_def)
  qed
qed

lemma RecvCallback_eq:
  assumes "n \<noteq> 0" and "WolfSshTcp4Poll fw s = Some s1"
  shows "WolfSshTcp4RecvCallback fw n s =
      (if RxLength s1 > RxOffset s1 then RecvData fw (min n (RxLength s1 - RxOffset s1)) s1
       else if EndOfStream s1 then Some (WS_CBIO_ERR_CONN_CLOSE, [], s1)
       else if EFI_ERROR (LastRxStatus s1) \<and> LastRxStatus s1 \<noteq> EFI_NOT_READY then
         Some (if LastRxStatus s1 = EFI_CONNECTION_RESET then WS_CBIO_ERR_CONN_RST
               else WS_CBIO_ERR_GENERAL, [], s1)
       else if \<not> RxActive s1 then do {
         (status, s) \<leftarrow> PostReceive fw s1;
         Some (if EFI_ERROR status then WS_CBIO_ERR_GENERAL else WS_CBIO_ERR_WANT_READ, [], s) }
       else Some (WS_CBIO_ERR_WANT_READ, [], s1))"
  using assms by (simp add: WolfSshTcp4RecvCallback_def RecvData_def Let_def)

lemma RecvCallback_ok:
  assumes "conforming fw" and "streaming d s"
  shows "ok (WolfSshTcp4RecvCallback fw n s) (\<lambda>(res, bytes, s'). streaming (d @ bytes) s' \<and>
    handles s' = handles s \<and> recv_result n res bytes s')"
proof (cases "n = 0")
  case True
  then show ?thesis using assms(2) by (simp add: WolfSshTcp4RecvCallback_def recv_result_def)
next
  case False
  from Poll_ok [OF assms] obtain s1 where s1: "WolfSshTcp4Poll fw s = Some s1" "streaming d s1"
    "handles s1 = handles s" by (auto simp: ok_def)
  note eq = RecvCallback_eq [OF False s1(1)]
  show ?thesis
  proof (cases "RxLength s1 > RxOffset s1")
    case True
    then show ?thesis using RecvData_ok [OF assms(1) s1(2), of "min n (RxLength s1 - RxOffset s1)" n] False s1(3)
      by (simp add: eq)
  next
    case empty: False
    then have un: "RxActive s1 \<or> unread s1 = []" by (simp add: unread_def)
    have fin: "EndOfStream s1 \<Longrightarrow> \<not> RxActive s1 \<and> EFI_CONNECTION_FIN \<in> reported (Log s1)"
      using s1(2) by (simp add: streaming_def end_known_def)
    note post = PostReceive_ok [OF assms(1) s1(2) un]
    show ?thesis
    proof (cases "EndOfStream s1")
      case True
      then show ?thesis using empty fin un s1(2,3) by (simp add: eq recv_result_def)
    next
      case going: False
      show ?thesis
      proof (cases "EFI_ERROR (LastRxStatus s1) \<and> LastRxStatus s1 \<noteq> EFI_NOT_READY")
        case True
        then show ?thesis using empty going s1(2,3) by (simp add: eq recv_result_def)
      next
        case False
        then show ?thesis using empty going s1(2,3) post by (auto simp: eq recv_result_def ok_def)
      qed
    qed
  qed
qed

text \<open>
  When the driver refuses a new request because the peer closed the connection, the callback reports
  a general error, and the socket does not remember the end of the stream.
\<close>

lemma RecvCallback_refused:
  assumes "n \<noteq> 0" and "WolfSshTcp4Poll fw s = Some s1" and "RxLength s1 \<le> RxOffset s1"
    and "\<not> RxActive s1" and "\<not> EndOfStream s1" and "\<not> EFI_ERROR (LastRxStatus s1)"
    and "Status (fw (Log s1) (Receive (RxEvent s1) RX_CAPACITY)) = EFI_CONNECTION_FIN"
    and "Completions (fw (Log s1) (Receive (RxEvent s1) RX_CAPACITY)) = []"
  shows "\<exists>s'. WolfSshTcp4RecvCallback fw n s = Some (WS_CBIO_ERR_GENERAL, [], s') \<and> \<not> EndOfStream s'"
  using assms by (simp add: RecvCallback_eq PostReceive_def call_def Let_def)

section \<open>Sending\<close>

lemma stream_calls:
  assumes "conforming fw" and "streaming d s \<and> handles s = a" and "rx_neutral c"
  shows "ok (call fw c s) (\<lambda>(r, s'). streaming d s' \<and> handles s' = a)"
  using call_ok [OF assms(1) _ assms(3), of d s] assms(2)
  by (auto simp: ok_def called_def dest: frame_handles)

lemma idle_neutral: "idle_call c \<or> c = Cancel tok \<Longrightarrow> rx_neutral c"
  by (auto simp: idle_call_def rx_neutral_def)

lemma Cancel_ok:
  assumes "conforming fw" and "streaming d s \<and> handles s = a"
  shows "ok (CancelToken fw tok s) (\<lambda>s'. streaming d s' \<and> handles s' = a)"
  by (rule CancelToken_rule) (use assms stream_calls idle_neutral in blast)+

lemma Wait_ok:
  assumes "conforming fw" and "streaming d s \<and> handles s = a"
  shows "ok (WaitForCompletion fw tok remaining s) (\<lambda>(status, s'). (streaming d s' \<and> handles s' = a) \<and>
    (status = EFI_SUCCESS \<and> DoneFlag tok s' \<or> status = EFI_TIMEOUT \<and> \<not> DoneFlag tok s'))"
  by (rule WaitForCompletion_rule) (use assms stream_calls idle_neutral in blast)+

text \<open>
  The send callback returns the number of bytes only after the driver accepted all of them, and the
  token was completed; it leaves the receive side alone.
\<close>

lemma SendCallback_ok:
  assumes "conforming fw" and "streaming d s"
  shows "ok (WolfSshTcp4SendCallback fw bytes s) (\<lambda>(res, s'). streaming d s' \<and> handles s' = handles s \<and>
    (\<forall>k. res = Transferred k \<longrightarrow> k = length bytes \<and> bytes \<noteq> [] \<and> TxDone s' \<and>
       \<not> EFI_ERROR (TxTokenStatus s')))"
proof (cases "Protocol s = 0 \<or> bytes = []")
  case True
  then show ?thesis using assms(2) by (simp add: WolfSshTcp4SendCallback_def)
next
  case False
  let ?s = "s\<lparr>TxDone := False, TxTokenStatus := EFI_NOT_READY\<rparr>"
  let ?inv = "\<lambda>s'. streaming d s' \<and> handles s' = handles s"
  have "ok (call fw (Transmit (TxEvent s) bytes) ?s) (\<lambda>(r, s'). ?inv s')"
    by (rule stream_calls) (use assms in \<open>simp_all add: rx_neutral_def\<close>)
  then obtain r s1 where s1: "call fw (Transmit (TxEvent s) bytes) ?s = Some (r, s1)" "?inv s1"
    by (auto simp: ok_def)
  from Wait_ok [OF assms(1) s1(2), of TxToken 30000000]
  obtain status s2 where s2: "WaitForCompletion fw TxToken 30000000 s1 = Some (status, s2)" "?inv s2"
    "status = EFI_SUCCESS \<and> TxDone s2 \<or> status = EFI_TIMEOUT \<and> \<not> TxDone s2"
    by (auto simp: ok_def)
  from Cancel_ok [OF assms(1) s2(2), of TxToken]
  obtain s3 where s3: "CancelToken fw TxToken s2 = Some s3" "?inv s3" by (auto simp: ok_def)
  show ?thesis using False s1 s2 s3
    by (auto simp: WolfSshTcp4SendCallback_def Let_def)
qed

end
