(* ===== verification/Tcp4_Open.thy ===== *)
theory Tcp4_Open
  imports Tcp4_Stream
begin

text \<open>
  Opening and closing the transport: the ledger of the events, child handles and pool blocks that
  the firmware hands out, which both operations keep balanced, and the time the operations take.
\<close>

section \<open>The ledger\<close>

datatype RESOURCE = EventResource nat | ChildResource nat | HandleBlock

fun acquires :: "FIRMWARE_CALL \<times> FIRMWARE_REPLY \<Rightarrow> RESOURCE multiset" where
  "acquires (CreateEvent _, r) = (if EFI_ERROR (Status r) then {#} else {#EventResource (Pointer r)#})"
| "acquires (CreateChild _, r) = (if EFI_ERROR (Status r) then {#} else {#ChildResource (Pointer r)#})"
| "acquires (LocateHandles, r) = (if EFI_ERROR (Status r) then {#} else {#HandleBlock#})"
| "acquires _ = {#}"

fun releases :: "FIRMWARE_CALL \<times> FIRMWARE_REPLY \<Rightarrow> RESOURCE multiset" where
  "releases (CloseEvent e, _) = {#EventResource e#}"
| "releases (DestroyChild _ c, _) = {#ChildResource c#}"
| "releases (FreeHandles, _) = {#HandleBlock#}"
| "releases _ = {#}"

definition acquired :: "history \<Rightarrow> RESOURCE multiset" where
  "acquired h = sum_list (map acquires h)"

definition released :: "history \<Rightarrow> RESOURCE multiset" where
  "released h = sum_list (map releases h)"

definition handle_of :: "(nat \<Rightarrow> RESOURCE) \<Rightarrow> nat \<Rightarrow> RESOURCE multiset" where
  "handle_of kind p = (if p = 0 then {#} else {#kind p#})"

definition owned :: "tcp4 \<Rightarrow> RESOURCE multiset" where
  "owned s = handle_of ChildResource (Child s) + handle_of EventResource (RxEvent s) +
     handle_of EventResource (TxEvent s)"

text \<open>What was acquired is released, owned by the socket, or in \<open>other\<close>.\<close>

definition balanced :: "RESOURCE multiset \<Rightarrow> tcp4 \<Rightarrow> bool" where
  "balanced other s \<longleftrightarrow> acquired (Log s) = released (Log s) + owned s + other"

lemma acquired_append [simp]: "acquired (h @ h') = acquired h + acquired h'"
  by (simp add: acquired_def)

lemma released_append [simp]: "released (h @ h') = released h + released h'"
  by (simp add: released_def)

lemma acquired_one [simp]: "acquired [e] = acquires e"
  by (simp add: acquired_def)

lemma released_one [simp]: "released [e] = releases e"
  by (simp add: released_def)

lemma handle_of_simps [simp]: "handle_of k 0 = {#}" "p \<noteq> 0 \<Longrightarrow> handle_of k p = {#k p#}"
  by (simp_all add: handle_of_def)

lemma owned_frame: "handles s' = handles s \<Longrightarrow> owned s' = owned s"
  by (simp add: handles_def owned_def)

text \<open>A history without any entry in the ledger.\<close>

definition level :: "history \<Rightarrow> bool" where
  "level h \<longleftrightarrow> acquired h = {#} \<and> released h = {#}"

lemma level_simps [simp]:
  "level []" "level (h @ h') \<longleftrightarrow> level h \<and> level h'"
  "level (e # h) \<longleftrightarrow> acquires e = {#} \<and> releases e = {#} \<and> level h"
  by (auto simp: level_def acquired_def released_def)

lemma balanced_level:
  "Log s' = Log s @ h \<Longrightarrow> level h \<Longrightarrow> handles s' = handles s \<Longrightarrow> balanced other s' = balanced other s"
  using owned_frame [of s' s] by (simp add: balanced_def level_def)

section \<open>Calls and the ledger\<close>

text \<open>Calls that neither acquire nor release anything.\<close>

definition plain_call :: "FIRMWARE_CALL \<Rightarrow> bool" where
  "plain_call c \<longleftrightarrow> (\<forall>r. acquires (c, r) = {#} \<and> releases (c, r) = {#})"

lemma plain_idle: "idle_call c \<or> c = Cancel tok \<Longrightarrow> plain_call c"
  by (auto simp: idle_call_def plain_call_def)

lemma plain_calls [simp]:
  "plain_call (CloseCall e a)" "plain_call (Configure g)" "plain_call (ConnectCall e)"
  "plain_call (Receive e n)" "plain_call (DetectMedia h)" "plain_call (OpenBinding h)"
  "plain_call (OpenProtocol h)" "plain_call Poll" "plain_call (Stall n)"
  by (simp_all add: plain_call_def)

text \<open>What every step of closing keeps.\<close>

definition closing :: "RESOURCE multiset \<Rightarrow> nat \<times> nat \<times> nat \<times> nat \<times> nat \<times> nat \<Rightarrow> tcp4 \<Rightarrow> bool" where
  "closing other hs s \<longleftrightarrow> wf_buffer s \<and> handles s = hs \<and> balanced other s"

lemma closing_update [simp]:
  "closing other hs (s\<lparr>TxDone := b\<rparr>) = closing other hs s"
  "closing other hs (s\<lparr>RxActive := b\<rparr>) = closing other hs s"
  by (simp_all add: closing_def balanced_def wf_buffer_def handles_def owned_def)

lemma closing_called:
  assumes "called fw c s r s'" and "closing other hs s" and "plain_call c"
  shows "closing other hs s'"
  using assms owned_frame [of s' s] frame_handles [of s' s]
  by (simp add: closing_def called_def balanced_def plain_call_def)

lemma closing_call:
  assumes "conforming fw" and "closing other hs s" and "plain_call c"
  shows "ok (call fw c s) (\<lambda>(r, s'). closing other hs s' \<and> Log s' = Log s @ [(c, r)])"
proof -
  have "ok (call fw c s) (\<lambda>(r, s'). called fw c s r s')"
    by (rule call_safe) (use assms in \<open>auto simp: closing_def\<close>)
  then show ?thesis using closing_called [OF _ assms(2,3)] by (auto simp: ok_def called_def)
qed

lemma closing_Cancel:
  assumes "conforming fw" and "closing other hs s"
  shows "ok (CancelToken fw tok s) (closing other hs)"
proof (rule CancelToken_rule)
  show "ok (call fw c s') (\<lambda>(r, s''). closing other hs s'')"
    if "closing other hs s'" "idle_call c \<or> c = Cancel tok" for s' c
    using closing_call [OF assms(1) that(1) plain_idle [OF that(2)]] by (auto simp: ok_def)
qed (rule assms(2))

lemma closing_Wait:
  assumes "conforming fw" and "closing other hs s"
  shows "ok (WaitForCompletion fw tok remaining s) (\<lambda>(status, s'). closing other hs s')"
proof -
  have "ok (WaitForCompletion fw tok remaining s) (\<lambda>(status, s'). closing other hs s' \<and>
    (status = EFI_SUCCESS \<and> DoneFlag tok s' \<or> status = EFI_TIMEOUT \<and> \<not> DoneFlag tok s'))"
  proof (rule WaitForCompletion_rule)
    show "ok (call fw c s') (\<lambda>(r, s''). closing other hs s'')"
      if "closing other hs s'" "idle_call c" for s' c
      using closing_call [OF assms(1) that(1), of c] plain_idle [of c] that(2) by (auto simp: ok_def)
  qed (rule assms(2))
  then show ?thesis by (auto simp: ok_def)
qed

section \<open>Closing\<close>

lemma settle_empty: "posts c = {} \<Longrightarrow> settle {} (c, r) = {}"
  by (simp add: settle_def posted_def)

lemma settle_no_rx: "RxToken \<notin> T \<Longrightarrow> RxToken \<notin> posts c \<Longrightarrow> RxToken \<notin> settle T (c, r)"
  by (auto simp: settle_def posted_def)

lemma CloseStage_ok:
  assumes "conforming fw" and "closing other hs s"
  shows "ok (CloseStage fw abort s) (\<lambda>s'. closing other hs s' \<and> RxToken \<notin> outstanding (Log s'))"
proof -
  let ?s = "s\<lparr>TxDone := False\<rparr>"
  have "ok (call fw (CloseCall (TxEvent s) abort) ?s) (\<lambda>(r, s'). closing other hs s' \<and> Log s' = Log ?s @ [(CloseCall (TxEvent s) abort, r)])"
    by (rule closing_call) (use assms in simp_all)
  then obtain r s1 where s1: "call fw (CloseCall (TxEvent s) abort) ?s = Some (r, s1)" "closing other hs s1"
    by (auto simp: ok_def)
  have "ok (if EFI_ERROR (Status r) then Some s1
      else map_option snd (WaitForCompletion fw CloseToken 2000000 s1)) (closing other hs)"
    using s1(2) closing_Wait [OF assms(1) s1(2), of CloseToken 2000000] by (simp add: case_prod_unfold)
  then obtain s2 where s2: "(if EFI_ERROR (Status r) then Some s1
      else map_option snd (WaitForCompletion fw CloseToken 2000000 s1)) = Some s2" "closing other hs s2"
    by (auto simp: ok_def)
  have "ok (call fw (Configure None) s2) (\<lambda>(r, s'). closing other hs s' \<and> Log s' = Log s2 @ [(Configure None, r)])"
    by (rule closing_call) (use assms(1) s2(2) in simp_all)
  then show ?thesis using s1 s2
    by (auto simp: CloseStage_def Let_def invoke_def ok_def settle_def)
qed

text \<open>Giving back one resource, unless its pointer is null.\<close>

lemma release_ok:
  assumes "conforming fw" and "wf_buffer s" and "RxToken \<notin> outstanding (Log s)" and "posts c = {}"
    and "\<And>r. acquires (c, r) = {#}" and "\<And>r. releases (c, r) = x"
    and "acquired (Log s) = released (Log s) + (if b then x else {#}) + rest"
  shows "ok (if b then invoke fw c s else Some s) (\<lambda>s'. wf_buffer s' \<and> frame s' = frame s \<and>
    RxToken \<notin> outstanding (Log s') \<and> acquired (Log s') = released (Log s') + rest)"
proof (cases b)
  case True
  have "ok (call fw c s) (\<lambda>(r, s'). called fw c s r s')" by (rule call_safe) (rule assms(1,2))+
  then show ?thesis using True assms(3-7) settle_no_rx [OF assms(3)]
    by (auto simp: invoke_def called_def ok_def)
qed (use assms in simp)

lemma Close_ok:
  assumes "conforming fw" and "wf_buffer s" and "balanced other s"
    and "RxToken \<in> outstanding (Log s) \<or> RxActive s \<longrightarrow> Protocol s \<noteq> 0 \<and> TxEvent s \<noteq> 0"
    and "Child s \<noteq> 0 \<longrightarrow> Binding s \<noteq> 0"
  shows "ok (WolfSshTcp4Close fw abort s) (\<lambda>s'. s' = ZeroSocket s' \<and> balanced other s' \<and>
    RxToken \<notin> outstanding (Log s'))"
proof -
  let ?hs = "handles s"
  have c0: "closing other ?hs s" using assms(2,3) by (simp add: closing_def)
  let ?m1 = "if Protocol s \<noteq> 0 \<and> RxActive s \<and> \<not> RxDone s
    then do { s \<leftarrow> CancelToken fw RxToken s; Some (s\<lparr>RxActive := False\<rparr>) } else Some s"
  have "ok ?m1 (\<lambda>s1. closing other ?hs s1 \<and> (\<not> RxActive s \<longrightarrow> s1 = s))"
    using c0 closing_Cancel [OF assms(1) c0, of RxToken] by (auto simp: ok_def)
  then obtain s1 where s1: "?m1 = Some s1" "closing other ?hs s1" "\<not> RxActive s \<longrightarrow> s1 = s"
    by (auto simp: ok_def)
  have h1: "Protocol s1 = Protocol s" "TxEvent s1 = TxEvent s" using s1(2) by (auto simp: closing_def handles_def)
  let ?m2 = "if Protocol s1 \<noteq> 0 \<and> TxEvent s1 \<noteq> 0 then CloseStage fw abort s1 else Some s1"
  have "ok ?m2 (\<lambda>s2. closing other ?hs s2 \<and> RxToken \<notin> outstanding (Log s2))"
    using CloseStage_ok [OF assms(1) s1(2)] s1(2,3) assms(4) h1 by auto
  then obtain s2 where s2: "?m2 = Some s2" "closing other ?hs s2" "RxToken \<notin> outstanding (Log s2)"
    by (auto simp: ok_def)
  have h2: "Child s2 = Child s" "Binding s2 = Binding s" "RxEvent s2 = RxEvent s" "TxEvent s2 = TxEvent s"
    using s2(2) by (auto simp: closing_def handles_def)
  have b2: "wf_buffer s2" "acquired (Log s2) = released (Log s2) +
      (if Binding s2 \<noteq> 0 \<and> Child s2 \<noteq> 0 then {#ChildResource (Child s2)#} else {#}) +
      (handle_of EventResource (RxEvent s) + handle_of EventResource (TxEvent s) + other)"
    using s2(2) assms(5) h2 by (auto simp: closing_def balanced_def owned_def handle_of_def)
  let ?m3 = "if Binding s2 \<noteq> 0 \<and> Child s2 \<noteq> 0 then invoke fw (DestroyChild (Binding s2) (Child s2)) s2
    else Some s2"
  from release_ok [where c = "DestroyChild (Binding s2) (Child s2)" and x = "{#ChildResource (Child s2)#}",
      OF assms(1) b2(1) s2(3) _ _ _ b2(2)]
  obtain s3 where s3: "?m3 = Some s3" "wf_buffer s3" "frame s3 = frame s2" "RxToken \<notin> outstanding (Log s3)"
    "acquired (Log s3) = released (Log s3) +
      (handle_of EventResource (RxEvent s) + handle_of EventResource (TxEvent s) + other)"
    by (auto simp: ok_def)
  have e3: "RxEvent s3 = RxEvent s" "TxEvent s3 = TxEvent s" using s3(3) h2 by (auto simp: frame_def)
  let ?m4 = "if RxEvent s3 \<noteq> 0 then invoke fw (CloseEvent (RxEvent s3)) s3 else Some s3"
  have b3: "acquired (Log s3) = released (Log s3) +
      (if RxEvent s3 \<noteq> 0 then {#EventResource (RxEvent s3)#} else {#}) +
      (handle_of EventResource (TxEvent s) + other)"
    using s3(5) e3 by (auto simp: handle_of_def)
  from release_ok [where c = "CloseEvent (RxEvent s3)" and x = "{#EventResource (RxEvent s3)#}",
      OF assms(1) s3(2,4) _ _ _ b3]
  obtain s4 where s4: "?m4 = Some s4" "wf_buffer s4" "frame s4 = frame s3" "RxToken \<notin> outstanding (Log s4)"
    "acquired (Log s4) = released (Log s4) + (handle_of EventResource (TxEvent s) + other)"
    by (auto simp: ok_def)
  have e4: "TxEvent s4 = TxEvent s" using s4(3) e3 by (auto simp: frame_def)
  let ?m5 = "if TxEvent s4 \<noteq> 0 then invoke fw (CloseEvent (TxEvent s4)) s4 else Some s4"
  have b4: "acquired (Log s4) = released (Log s4) +
      (if TxEvent s4 \<noteq> 0 then {#EventResource (TxEvent s4)#} else {#}) + other"
    using s4(5) e4 by (auto simp: handle_of_def)
  from release_ok [where c = "CloseEvent (TxEvent s4)" and x = "{#EventResource (TxEvent s4)#}",
      OF assms(1) s4(2,4) _ _ _ b4]
  obtain s5 where s5: "?m5 = Some s5" "RxToken \<notin> outstanding (Log s5)"
    "acquired (Log s5) = released (Log s5) + other"
    by (auto simp: ok_def)
  have "WolfSshTcp4Close fw abort s = Some (ZeroSocket s5)"
    by (simp only: WolfSshTcp4Close_def s1(1) s2(1) s3(1) s4(1) s5(1) Option.bind.simps)
  then show ?thesis using s5 by (simp add: ZeroSocket_def balanced_def owned_def)
qed

section \<open>Opening\<close>

text \<open>
  Until the first receive request is posted, the receive side is at rest. The handles are those the
  socket has so far.
\<close>

definition resting ::
  "UINT8 list \<Rightarrow> RESOURCE multiset \<Rightarrow> nat \<times> nat \<times> nat \<times> nat \<times> nat \<times> nat \<Rightarrow> tcp4 \<Rightarrow> bool" where
  "resting d other hs s \<longleftrightarrow> streaming d s \<and> \<not> RxActive s \<and> \<not> EndOfStream s \<and> RxLength s = 0 \<and>
     balanced other s \<and> handles s = hs \<and> (Child s \<noteq> 0 \<longrightarrow> Binding s \<noteq> 0)"

definition connected :: "tcp4 \<Rightarrow> bool" where
  "connected s \<longleftrightarrow> Child s \<noteq> 0 \<and> Binding s \<noteq> 0 \<and> Protocol s \<noteq> 0 \<and> RxEvent s \<noteq> 0 \<and> TxEvent s \<noteq> 0"

text \<open>The outcome: on failure a cleared socket with nothing held, on success a stream from its start.\<close>

definition opened :: "UINT8 list \<Rightarrow> RESOURCE multiset \<Rightarrow> EFI_STATUS \<times> tcp4 \<Rightarrow> bool" where
  "opened d other = (\<lambda>(status, s). balanced other s \<and>
     (if EFI_ERROR status then s = ZeroSocket s \<and> RxToken \<notin> outstanding (Log s)
      else streaming d s \<and> connected s))"

lemma resting_update [simp]:
  "resting d other hs (s\<lparr>ConnectDone := b\<rparr>) = resting d other hs s"
  "resting d other hs (s\<lparr>ConnectTokenStatus := st\<rparr>) = resting d other hs s"
  by (simp_all add: resting_def balanced_def owned_def)

lemma resting_call:
  assumes "conforming fw" and "resting d other hs s" and "rx_neutral c" and "\<And>r. releases (c, r) = {#}"
  shows "ok (call fw c s) (\<lambda>(r, s'). r = fw (Log s) c \<and> resting d (acquires (c, r) + other) hs s')"
proof -
  have "ok (call fw c s) (\<lambda>(r, s'). called fw c s r s' \<and> streaming d s')"
    by (rule call_ok) (use assms in \<open>auto simp: resting_def\<close>)
  then show ?thesis using assms(2,4)
    by (auto simp: ok_def called_def resting_def balanced_def frame_def handles_def owned_def)
qed

lemma resting_plain:
  assumes "conforming fw" and "resting d other hs s" and "rx_neutral c" and "plain_call c"
  shows "ok (call fw c s) (\<lambda>(r, s'). resting d other hs s')"
  using resting_call [OF assms(1-3)] assms(4) by (auto simp: plain_call_def ok_def)

lemma resting_Wait:
  assumes "conforming fw" and "resting d other hs s"
  shows "ok (WaitForCompletion fw tok remaining s) (\<lambda>(status, s'). resting d other hs s')"
proof -
  have "ok (WaitForCompletion fw tok remaining s) (\<lambda>(status, s'). resting d other hs s' \<and>
    (status = EFI_SUCCESS \<and> DoneFlag tok s' \<or> status = EFI_TIMEOUT \<and> \<not> DoneFlag tok s'))"
    by (rule WaitForCompletion_rule)
      (use assms resting_plain idle_neutral plain_idle in \<open>blast+\<close>)
  then show ?thesis by (auto simp: ok_def)
qed

lemma resting_Cancel:
  assumes "conforming fw" and "resting d other hs s"
  shows "ok (CancelToken fw tok s) (resting d other hs)"
  by (rule CancelToken_rule) (use assms resting_plain idle_neutral plain_idle in \<open>blast+\<close>)

lemma CloseWith_ok:
  assumes "conforming fw" and "streaming d s" and "balanced other s" and "EFI_ERROR status"
    and "RxActive s \<longrightarrow> Protocol s \<noteq> 0 \<and> TxEvent s \<noteq> 0" and "Child s \<noteq> 0 \<longrightarrow> Binding s \<noteq> 0"
  shows "ok (CloseWith fw status s) (opened d other)"
proof -
  have "ok (WolfSshTcp4Close fw True s) (\<lambda>s'. s' = ZeroSocket s' \<and> balanced other s' \<and>
      RxToken \<notin> outstanding (Log s'))"
    by (rule Close_ok) (use assms in \<open>auto simp: streaming_def wf_socket_def\<close>)
  then show ?thesis using assms(4) unfolding CloseWith_def ok_bind ok_Some
    by (elim ok_mono) (simp add: opened_def)
qed

lemma CloseWith_resting:
  "conforming fw \<Longrightarrow> resting d other hs s \<Longrightarrow> EFI_ERROR status \<Longrightarrow> ok (CloseWith fw status s) (opened d other)"
  by (rule CloseWith_ok) (auto simp: resting_def)

lemma Acquire_ok:
  assumes "conforming fw" and "resting d other hs s" and "rx_neutral c" and "creates c"
    and "\<And>r. releases (c, r) = {#}"
    and store: "\<And>r s'. \<not> EFI_ERROR (Status r) \<Longrightarrow> Pointer r \<noteq> 0 \<Longrightarrow>
      resting d (acquires (c, r) + other) hs s' \<Longrightarrow> resting d other (hs' (Pointer r)) (store (Pointer r) s')"
    and cont: "\<And>p s'. p \<noteq> 0 \<Longrightarrow> resting d other (hs' p) s' \<Longrightarrow> ok (continue s') (opened d other)"
  shows "ok (Acquire fw c store continue s) (opened d other)"
proof -
  obtain r s' where r: "call fw c s = Some (r, s')" "r = fw (Log s) c"
    and s': "resting d (acquires (c, r) + other) hs s'"
    using resting_call [OF assms(1,2,3,5)] by (auto simp: ok_def)
  show ?thesis
  proof (cases "EFI_ERROR (Status r)")
    case True
    then have "acquires (c, r) = {#}" by (cases c) auto
    then show ?thesis using True r CloseWith_resting [OF assms(1)] s' by (simp add: Acquire_def)
  next
    case False
    then have "Pointer r \<noteq> 0" using conformingD(4) [OF assms(1,4)] r(2) by simp
    then show ?thesis using False r cont store [OF False _ s'] by (simp add: Acquire_def)
  qed
qed

lemma ConfigureLoop_ok:
  assumes "conforming fw" and "resting d other hs s"
  shows "ok (ConfigureLoop fw config retries status s) (\<lambda>(status, s'). resting d other hs s')"
  using assms(2)
proof (induction retries arbitrary: status s)
  case (Suc retries)
  obtain r s1 where s1: "call fw (Configure (Some config)) s = Some (r, s1)" "resting d other hs s1"
    using resting_plain [OF assms(1) Suc.prems, of "Configure (Some config)"]
    by (auto simp: ok_def rx_neutral_def)
  obtain s2 where s2: "invoke fw (Stall 100000) s1 = Some s2" "resting d other hs s2"
    using resting_plain [OF assms(1) s1(2), of "Stall 100000"]
    by (auto simp: ok_def rx_neutral_def invoke_def)
  show ?case using s1 s2 Suc.IH [OF s2(2), of EFI_NO_MAPPING] by auto
qed simp

lemma ConnectStage_ok:
  assumes "conforming fw" and "resting d ({#EventResource e#} + other) hs s"
  shows "ok (ConnectStage fw e s) (\<lambda>(status, s'). resting d other hs s')"
proof -
  let ?other = "{#EventResource e#} + other"
  let ?s = "s\<lparr>ConnectTokenStatus := EFI_NOT_READY\<rparr>"
  obtain r s1 where s1: "call fw (ConnectCall e) ?s = Some (r, s1)" "resting d ?other hs s1"
    using resting_plain [of fw d ?other hs ?s "ConnectCall e"] assms by (auto simp: ok_def rx_neutral_def)
  obtain status s2 where s2: "(if EFI_ERROR (Status r) then Some (Status r, s1)
      else WaitForCompletion fw ConnectToken 30000000 s1) = Some (status, s2)" "resting d ?other hs s2"
    using resting_Wait [OF assms(1) s1(2), of ConnectToken 30000000] s1(2)
    by (cases "EFI_ERROR (Status r)") (auto simp: ok_def)
  obtain s3 where s3: "(if status = EFI_TIMEOUT then CancelToken fw ConnectToken s2 else Some s2) = Some s3"
      "resting d ?other hs s3"
    using resting_Cancel [OF assms(1) s2(2), of ConnectToken] s2(2)
    by (cases "status = EFI_TIMEOUT") (auto simp: ok_def)
  have "ok (call fw (CloseEvent e) s3) (\<lambda>(r, s'). called fw (CloseEvent e) s3 r s' \<and> streaming d s')"
    by (rule call_ok) (use assms(1) s3(2) in \<open>auto simp: resting_def rx_neutral_def\<close>)
  then obtain s4 where s4: "invoke fw (CloseEvent e) s3 = Some s4" "resting d other hs s4"
    using s3(2)
    by (auto simp: ok_def called_def resting_def balanced_def frame_def handles_def owned_def invoke_def)
  have "ConnectStage fw e s = Some (if EFI_ERROR status then status else ConnectTokenStatus s3, s4)"
    unfolding ConnectStage_def Let_def by (simp only: s1(1) s2(1) s3(1) s4(1) Option.bind.simps prod.case)
  then show ?thesis using s4(2) by simp
qed

lemma ConnectAndPost_ok:
  assumes "conforming fw" and "resting d other hs s" and "connected s"
  shows "ok (ConnectAndPost fw s) (opened d other)"
proof -
  let ?s = "s\<lparr>ConnectDone := False\<rparr>"
  have c: "connected s'" if "resting d other' hs s'" for s' other'
    using that assms(2,3) by (auto simp: resting_def connected_def handles_def)
  obtain r s1 where r: "call fw (CreateEvent ConnectToken) ?s = Some (r, s1)" "r = fw (Log s) (CreateEvent ConnectToken)"
    and s1: "resting d (acquires (CreateEvent ConnectToken, r) + other) hs s1"
    using resting_call [of fw d other hs ?s "CreateEvent ConnectToken"] assms(1,2)
    by (auto simp: ok_def rx_neutral_def)
  show ?thesis
  proof (cases "EFI_ERROR (Status r)")
    case True
    then show ?thesis using r(1) s1 CloseWith_resting [OF assms(1)] by (simp add: ConnectAndPost_def)
  next
    case False
    obtain status s2 where s2: "ConnectStage fw (Pointer r) s1 = Some (status, s2)" "resting d other hs s2"
      using ConnectStage_ok [OF assms(1), of d "Pointer r" other hs s1] s1 False by (auto simp: ok_def)
    show ?thesis
    proof (cases "EFI_ERROR status")
      case True
      then show ?thesis using r(1) False s2 CloseWith_resting [OF assms(1)] by (simp add: ConnectAndPost_def)
    next
      case connected: False
      have st: "streaming d s2" "unread s2 = []" "balanced other s2"
        using s2(2) by (auto simp: resting_def unread_def)
      have "ok (PostReceive fw s2) (\<lambda>(status, s'). streaming d s' \<and> handles s' = handles s2 \<and>
          (Log s' = Log s2 \<or> (\<exists>r. Log s' = Log s2 @ [(Receive (RxEvent s2) RX_CAPACITY, r)])))"
        using PostReceive_ok [OF assms(1) st(1)] st(2) by (auto simp: ok_def)
      then obtain status3 s3 where s3: "PostReceive fw s2 = Some (status3, s3)" "streaming d s3"
        "handles s3 = handles s2"
        "Log s3 = Log s2 \<or> (\<exists>r. Log s3 = Log s2 @ [(Receive (RxEvent s2) RX_CAPACITY, r)])"
        by (auto simp: ok_def)
      have bal: "balanced other s3" using s3(4) st(3) owned_frame [OF s3(3)] by (auto simp: balanced_def)
      have con: "connected s3" using c [OF s2(2)] s3(3) by (simp add: connected_def handles_def)
      have "ok (if EFI_ERROR status3 then CloseWith fw status3 s3 else Some (EFI_SUCCESS, s3)) (opened d other)"
        using CloseWith_ok [OF assms(1) s3(2) bal, of status3] con s3(2) bal
        by (simp add: opened_def connected_def)
      then show ?thesis using r(1) False s2(1) connected s3(1) by (simp add: ConnectAndPost_def)
    qed
  qed
qed

lemma ConfigureStage_ok:
  assumes "conforming fw" and "resting d other hs s" and "connected s"
  shows "ok (ConfigureStage fw config s) (opened d other)"
proof -
  obtain status s1 where s1: "ConfigureLoop fw config 100 EFI_SUCCESS s = Some (status, s1)" "resting d other hs s1"
    using ConfigureLoop_ok [OF assms(1,2), of config 100 EFI_SUCCESS] by (auto simp: ok_def)
  have "connected s1" using assms(2,3) s1(2) by (auto simp: resting_def connected_def handles_def)
  then show ?thesis
    using s1 ConnectAndPost_ok [OF assms(1) s1(2)] CloseWith_resting [OF assms(1) s1(2)]
    by (simp add: ConfigureStage_def)
qed

text \<open>
  A socket at rest that owns nothing, as the program has it before it connects, and again after
  every attempt that failed.
\<close>

definition fresh :: "tcp4 \<Rightarrow> bool" where
  "fresh s \<longleftrightarrow> wf_buffer s \<and> owned s = {#} \<and> Protocol s = 0 \<and> RxToken \<notin> outstanding (Log s)"

lemma resting_start:
  assumes "fresh s" and "balanced other s"
  shows "resting (received (Log s)) other (controller, 0, 0, 0, 0, 0)
    ((ZeroSocket s)\<lparr>Controller := controller, LastRxStatus := st\<rparr>)"
  using assms by (simp add: fresh_def resting_def ZeroSocket_def streaming_def wf_socket_def wf_buffer_def
    unread_def end_known_def balanced_def owned_def handles_def)

text \<open>Storing a handle moves it from the ledger into the socket.\<close>

lemma streaming_handle [simp]:
  "streaming d (s\<lparr>Binding := p\<rparr>) = streaming d s" "streaming d (s\<lparr>Child := p\<rparr>) = streaming d s"
  "streaming d (s\<lparr>Protocol := p\<rparr>) = streaming d s" "streaming d (s\<lparr>RxEvent := p\<rparr>) = streaming d s"
  "streaming d (s\<lparr>TxEvent := p\<rparr>) = streaming d s"
  by (simp_all add: streaming_def wf_socket_def wf_buffer_def unread_def end_known_def rx_reported_def)

lemma resting_store:
  "resting d other (k, 0, 0, q, re, te) s \<Longrightarrow> resting d other (k, 0, p, q, re, te) (s\<lparr>Binding := p\<rparr>)"
  "resting d (add_mset (ChildResource p) other) (k, 0, b, q, re, te) s \<Longrightarrow> b \<noteq> 0 \<Longrightarrow> p \<noteq> 0 \<Longrightarrow>
     resting d other (k, p, b, q, re, te) (s\<lparr>Child := p\<rparr>)"
  "resting d other (k, c, b, 0, re, te) s \<Longrightarrow> resting d other (k, c, b, p, re, te) (s\<lparr>Protocol := p\<rparr>)"
  "resting d (add_mset (EventResource p) other) (k, c, b, q, 0, te) s \<Longrightarrow> p \<noteq> 0 \<Longrightarrow>
     resting d other (k, c, b, q, p, te) (s\<lparr>RxEvent := p\<rparr>)"
  "resting d (add_mset (EventResource p) other) (k, c, b, q, re, 0) s \<Longrightarrow> p \<noteq> 0 \<Longrightarrow>
     resting d other (k, c, b, q, re, p) (s\<lparr>TxEvent := p\<rparr>)"
  by (auto simp: resting_def balanced_def owned_def handles_def)

lemma resting_connected:
  "resting d other (k, c, b, q, re, te) s \<Longrightarrow> c \<noteq> 0 \<Longrightarrow> b \<noteq> 0 \<Longrightarrow> q \<noteq> 0 \<Longrightarrow> re \<noteq> 0 \<Longrightarrow> te \<noteq> 0 \<Longrightarrow> connected s"
  by (auto simp: resting_def connected_def handles_def)

lemma OpenOnController_ok:
  assumes "conforming fw" and "fresh s" and "balanced other s"
  shows "ok (OpenOnController fw controller address port s) (opened (received (Log s)) other)"
proof -
  let ?d = "received (Log s)"
  let ?tx = "Acquire fw (CreateEvent TxToken) (\<lambda>p s. s\<lparr>TxEvent := p\<rparr>) (ConfigureStage fw (ConnectConfig address port))"
  let ?rx = "Acquire fw (CreateEvent RxToken) (\<lambda>p s. s\<lparr>RxEvent := p\<rparr>) ?tx"
  let ?protocol = "\<lambda>s. Acquire fw (OpenProtocol (Child s)) (\<lambda>p s. s\<lparr>Protocol := p\<rparr>) ?rx s"
  let ?child = "\<lambda>s. Acquire fw (CreateChild (Binding s)) (\<lambda>p s. s\<lparr>Child := p\<rparr>) ?protocol s"
  note acquire = Acquire_ok [OF assms(1)]
  have tx: "ok (?tx s') (opened ?d other)"
    if "resting ?d other (controller, c, b, q, re, 0) s'" "c \<noteq> 0" "b \<noteq> 0" "q \<noteq> 0" "re \<noteq> 0" for s' c b q re
    by (rule acquire [where hs' = "\<lambda>p. (controller, c, b, q, re, p)", OF that(1)])
      (use that(2-5) in \<open>auto simp: rx_neutral_def intro!: resting_store(5)
        intro: ConfigureStage_ok [OF assms(1)] resting_connected\<close>)
  have rx: "ok (?rx s') (opened ?d other)"
    if "resting ?d other (controller, c, b, q, 0, 0) s'" "c \<noteq> 0" "b \<noteq> 0" "q \<noteq> 0" for s' c b q
    by (rule acquire [where hs' = "\<lambda>p. (controller, c, b, q, p, 0)", OF that(1)])
      (use that(2-4) in \<open>auto simp: rx_neutral_def intro!: resting_store(4) intro: tx\<close>)
  have protocol: "ok (?protocol s') (opened ?d other)"
    if "resting ?d other (controller, c, b, 0, 0, 0) s'" "c \<noteq> 0" "b \<noteq> 0" for s' c b
    by (rule acquire [where hs' = "\<lambda>p. (controller, c, b, p, 0, 0)", OF that(1)])
      (use that(2,3) in \<open>auto simp: rx_neutral_def intro!: resting_store(3) intro: rx\<close>)
  have child: "ok (?child s') (opened ?d other)"
    if "resting ?d other (controller, 0, b, 0, 0, 0) s'" "b \<noteq> 0" for s' b
    by (rule acquire [where hs' = "\<lambda>p. (controller, p, b, 0, 0, 0)", OF that(1)])
      (use that(2) in \<open>auto simp: rx_neutral_def intro!: resting_store(2) intro: protocol\<close>)
  show ?thesis unfolding OpenOnController_def
    by (rule acquire [where hs' = "\<lambda>p. (controller, 0, p, 0, 0, 0)", OF resting_start [OF assms(2,3)]])
      (auto simp: rx_neutral_def intro!: resting_store(1) intro: child)
qed

lemma closed_fresh: "s = ZeroSocket s \<Longrightarrow> RxToken \<notin> outstanding (Log s) \<Longrightarrow> fresh s"
proof -
  assume z: "s = ZeroSocket s" and "RxToken \<notin> outstanding (Log s)"
  moreover have "owned (ZeroSocket s) = {#}" "wf_buffer (ZeroSocket s)" "Protocol (ZeroSocket s) = 0"
    by (simp_all add: owned_def ZeroSocket_def wf_buffer_def)
  ultimately show ?thesis by (simp add: fresh_def)
qed

text \<open>
  The outcome of a whole attempt to connect: as \<open>opened\<close>, for some start of the stream; without a
  connection the socket owns nothing.
\<close>

definition attempted :: "RESOURCE multiset \<Rightarrow> EFI_STATUS \<times> tcp4 \<Rightarrow> bool" where
  "attempted other = (\<lambda>(status, s). balanced other s \<and>
     (if EFI_ERROR status then fresh s else (\<exists>d. streaming d s) \<and> connected s))"

lemma opened_attempted: "opened d other x \<Longrightarrow> attempted other x"
  using closed_fresh by (auto simp: opened_def attempted_def split: if_splits)

lemma fresh_call:
  assumes "conforming fw" and "fresh s" and "balanced other s" and "RxToken \<notin> posts c" and "\<And>r. releases (c, r) = x"
  shows "ok (call fw c s) (\<lambda>(r, s'). r = fw (Log s) c \<and> fresh s' \<and>
    acquired (Log s') = released (Log s) + acquires (c, r) + other \<and> released (Log s') = released (Log s) + x)"
proof -
  have "ok (call fw c s) (\<lambda>(r, s'). called fw c s r s')"
    by (rule call_safe) (use assms in \<open>auto simp: fresh_def\<close>)
  then show ?thesis using assms settle_no_rx [of "outstanding (Log s)" c]
    by (auto simp: ok_def called_def fresh_def frame_def owned_def balanced_def)
qed

lemma fresh_balanced: "fresh s \<Longrightarrow> balanced other s \<longleftrightarrow> acquired (Log s) = released (Log s) + other"
  by (simp add: fresh_def balanced_def)

lemma ControllerLoop_ok:
  assumes "conforming fw" and "fresh s" and "balanced other s" and "EFI_ERROR status"
  shows "ok (ControllerLoop fw address port hs status s) (attempted other)"
  using assms(2-4)
proof (induction hs arbitrary: status s)
  case Nil
  then show ?case by (simp add: attempted_def)
next
  case (Cons h hs)
  obtain r s1 where s1: "call fw (DetectMedia h) s = Some (r, s1)" "r = fw (Log s) (DetectMedia h)"
    "fresh s1" "balanced other s1"
    using fresh_call [OF assms(1) Cons.prems(1,2), of "DetectMedia h" "{#}"] fresh_balanced
    by (auto simp: ok_def)
  obtain st s2 where s2: "OpenOnController fw h address port s1 = Some (st, s2)" "attempted other (st, s2)"
    using OpenOnController_ok [OF assms(1) s1(3,4), of h address port] opened_attempted
    by (fastforce simp: ok_def)
  show ?case
  proof (cases "\<not> EFI_ERROR (Status r) \<and> MediaState r \<noteq> EFI_SUCCESS")
    case True
    then have "EFI_ERROR (MediaState r)" using conformingD(5) [OF assms(1)] s1(2) by auto
    then show ?thesis using True s1 Cons.IH [OF s1(3,4)] by simp
  next
    case False
    show ?thesis
    proof (cases "EFI_ERROR st")
      case True
      then have "fresh s2" "balanced other s2" using s2(2) by (auto simp: attempted_def)
      then show ?thesis using False True s1(1) s2(1) Cons.IH by auto
    next
      case good: False
      then show ?thesis using False s1(1) s2 by auto
    qed
  qed
qed

lemma Connect_ok:
  assumes "conforming fw" and "fresh s" and "balanced other s"
  shows "ok (WolfSshTcp4Connect fw address port s) (attempted other)"
proof (cases "port = 0")
  case True
  then show ?thesis using assms(2,3) by (simp add: WolfSshTcp4Connect_def attempted_def)
next
  case port: False
  obtain r s1 where r: "call fw LocateHandles s = Some (r, s1)" "fresh s1"
    "balanced (acquires (LocateHandles, r) + other) s1"
    using fresh_call [OF assms, of LocateHandles "{#}"] fresh_balanced by (auto simp: ok_def)
  show ?thesis
  proof (cases "EFI_ERROR (Status r)")
    case True
    then show ?thesis using port r by (simp add: WolfSshTcp4Connect_def attempted_def)
  next
    case False
    let ?other = "add_mset HandleBlock other"
    have b: "balanced ?other s1" using r(3) False by simp
    have nf: "EFI_ERROR EFI_NOT_FOUND" by simp
    obtain status s2 where s2: "ControllerLoop fw address port (HandleBuffer r) EFI_NOT_FOUND s1 = Some (status, s2)"
      "attempted ?other (status, s2)"
      using ControllerLoop_ok [OF assms(1) r(2) b nf, of address port "HandleBuffer r"] by (auto simp: ok_def)
    have "ok (invoke fw FreeHandles s2) (\<lambda>s'. attempted other (status, s'))"
    proof (cases "EFI_ERROR status")
      case True
      then have "fresh s2" "balanced ?other s2" using s2(2) by (auto simp: attempted_def)
      then show ?thesis
        using fresh_call [OF assms(1), of s2 ?other FreeHandles "{#HandleBlock#}"] fresh_balanced True
        by (auto simp: invoke_ok_iff attempted_def ok_def invoke_def)
    next
      case good: False
      then obtain d where d: "streaming d s2" "connected s2" "balanced ?other s2"
        using s2(2) by (auto simp: attempted_def)
      have "ok (call fw FreeHandles s2) (\<lambda>(r, s'). called fw FreeHandles s2 r s' \<and> streaming d s')"
        by (rule call_ok) (use assms(1) d(1) in \<open>simp_all add: rx_neutral_def\<close>)
      then show ?thesis using d good
        by (auto simp: ok_def invoke_def attempted_def called_def balanced_def frame_def owned_def connected_def)
    qed
    then show ?thesis using port r(1) False s2(1) by (auto simp: WolfSshTcp4Connect_def ok_def)
  qed
qed

section \<open>Time\<close>

text \<open>The microseconds a history spends in \<open>Stall\<close>.\<close>

fun stall_of :: "FIRMWARE_CALL \<times> FIRMWARE_REPLY \<Rightarrow> nat" where
  "stall_of (Stall n, _) = n"
| "stall_of _ = 0"

definition stalled :: "history \<Rightarrow> nat" where
  "stalled h = sum_list (map stall_of h)"

lemma stalled_append [simp]: "stalled (h @ h') = stalled h + stalled h'"
  by (simp add: stalled_def)

lemma stalled_Cons [simp]: "stalled (e # h) = stall_of e + stalled h" "stalled [] = 0"
  by (simp_all add: stalled_def)

text \<open>The bytes the driver accepted for transmission.\<close>

fun transmits :: "FIRMWARE_CALL \<times> FIRMWARE_REPLY \<Rightarrow> UINT8 list" where
  "transmits (Transmit _ bytes, r) = (if EFI_ERROR (Status r) then [] else bytes)"
| "transmits _ = []"

definition transmitted :: "history \<Rightarrow> UINT8 list" where
  "transmitted h = concat (map transmits h)"

lemma transmitted_append [simp]: "transmitted (h @ h') = transmitted h @ transmitted h'"
  by (simp add: transmitted_def)

lemma transmitted_Cons [simp]: "transmitted (e # h) = transmits e @ transmitted h" "transmitted [] = []"
  by (simp_all add: transmitted_def)

text \<open>\<open>within\<close> bounds the calls made between two states: the time they stall and their number.\<close>

definition within :: "nat \<Rightarrow> nat \<Rightarrow> tcp4 \<Rightarrow> tcp4 \<Rightarrow> bool" where
  "within time calls s s' \<longleftrightarrow> wf_buffer s' \<and>
     (\<exists>h. Log s' = Log s @ h \<and> level h \<and> transmitted h = [] \<and> stalled h \<le> time \<and> length h \<le> calls)"

definition rounds :: "nat \<Rightarrow> nat" where
  "rounds time = (time + 49) div 50"

lemma rounds_step: "time \<noteq> 0 \<Longrightarrow> Suc (rounds (time - poll_delay time)) = rounds time"
proof -
  assume "time \<noteq> 0"
  show ?thesis
  proof (cases "time < 50")
    case True
    then have "(time + 49) div 50 = 1" using \<open>time \<noteq> 0\<close> by (intro div_nat_eqI) auto
    then show ?thesis using True by (simp add: rounds_def poll_delay_def)
  next
    case False
    then have "time + 49 = (time - 50 + 49) + 50" by simp
    then show ?thesis using False by (simp add: rounds_def poll_delay_def)
  qed
qed

lemma poll_delay_split: "time = poll_delay time + (time - poll_delay time)"
  by (simp add: poll_delay_def)

text \<open>
  Waiting polls at most once more than it stalls, and gives up exactly when the time is spent.
\<close>

definition waited :: "nat \<Rightarrow> tcp4 \<Rightarrow> EFI_STATUS \<times> tcp4 \<Rightarrow> bool" where
  "waited time s = (\<lambda>(status, s'). wf_buffer s' \<and> (\<exists>h. Log s' = Log s @ h \<and> level h \<and> transmitted h = [] \<and> stalled h \<le> time \<and>
     length h \<le> 2 * rounds time + 1 \<and> (status = EFI_TIMEOUT \<longrightarrow> stalled h = time)))"

lemma Wait_time:
  assumes "conforming fw" and "wf_buffer s"
  shows "ok (WaitForCompletion fw tok time s) (waited time s)"
  using assms(2)
proof (induction time arbitrary: s rule: less_induct)
  case (less time)
  show ?case
  proof (cases "DoneFlag tok s")
    case True
    then show ?thesis using less.prems by (simp add: WaitForCompletion.simps [of fw tok time s] waited_def)
  next
    case open_s: False
    obtain s1 where s1: "invoke fw Poll s = Some s1" "wf_buffer s1" "\<exists>r. Log s1 = Log s @ [(Poll, r)]"
      using call_safe [OF assms(1) less.prems, of Poll] by (auto simp: ok_def called_def invoke_def)
    have eq: "WaitForCompletion fw tok time s =
        (if DoneFlag tok s1 then Some (EFI_SUCCESS, s1)
         else if time = 0 then Some (EFI_TIMEOUT, s1)
         else do {
           s \<leftarrow> invoke fw (Stall (poll_delay time)) s1;
           WaitForCompletion fw tok (time - poll_delay time) s })"
      using open_s s1(1) by (simp add: WaitForCompletion.simps [of fw tok time s])
    show ?thesis
    proof (cases "DoneFlag tok s1 \<or> time = 0")
      case True
      then show ?thesis using s1 by (auto simp: eq waited_def)
    next
      case False
      obtain s2 where s2: "invoke fw (Stall (poll_delay time)) s1 = Some s2" "wf_buffer s2"
        "\<exists>r. Log s2 = Log s1 @ [(Stall (poll_delay time), r)]"
        using call_safe [OF assms(1) s1(2), of "Stall (poll_delay time)"]
        by (auto simp: ok_def called_def invoke_def)
      have "ok (WaitForCompletion fw tok (time - poll_delay time) s2) (waited (time - poll_delay time) s2)"
        by (rule less.IH) (use False s2(2) in \<open>auto simp: poll_delay_def\<close>)
      then show ?thesis using False s1(3) s2 rounds_step [of time] poll_delay_split [of time]
        by (auto simp: eq waited_def ok_def)
    qed
  qed
qed

lemma Cancel_time:
  assumes "conforming fw" and "wf_buffer s"
  shows "ok (CancelToken fw tok s) (within 1000000 40001 s)"
proof -
  have loop: "ok (CancelLoop fw tok time s) (within time (2 * rounds time) s)" if "wf_buffer s" for time s
    using that
  proof (induction time arbitrary: s rule: less_induct)
    case (less time)
    show ?case
    proof (cases "\<not> DoneFlag tok s \<and> time > 0")
      case False
      then show ?thesis using less.prems by (auto simp: CancelLoop.simps [of fw tok time s] within_def)
    next
      case True
      obtain s1 where s1: "invoke fw Poll s = Some s1" "wf_buffer s1" "\<exists>r. Log s1 = Log s @ [(Poll, r)]"
        using call_safe [OF assms(1) less.prems, of Poll] by (auto simp: ok_def called_def invoke_def)
      obtain s2 where s2: "invoke fw (Stall (poll_delay time)) s1 = Some s2" "wf_buffer s2"
        "\<exists>r. Log s2 = Log s1 @ [(Stall (poll_delay time), r)]"
        using call_safe [OF assms(1) s1(2), of "Stall (poll_delay time)"]
        by (auto simp: ok_def called_def invoke_def)
      have "ok (CancelLoop fw tok (time - poll_delay time) s2)
          (within (time - poll_delay time) (2 * rounds (time - poll_delay time)) s2)"
        by (rule less.IH) (use True s2(2) in \<open>auto simp: poll_delay_def\<close>)
      then show ?thesis using True s1 s2 rounds_step [of time] poll_delay_split [of time]
        by (auto simp: CancelLoop.simps [of fw tok time s] within_def ok_def)
    qed
  qed
  obtain s1 where s1: "invoke fw (Cancel tok) s = Some s1" "wf_buffer s1" "\<exists>r. Log s1 = Log s @ [(Cancel tok, r)]"
    using call_safe [OF assms, of "Cancel tok"] by (auto simp: ok_def called_def invoke_def)
  have "rounds 1000000 = 20000" by (simp add: rounds_def)
  then show ?thesis using s1 loop [OF s1(2), of 1000000]
    by (auto simp: CancelToken_def within_def ok_def)
qed

lemma Send_time:
  assumes "conforming fw" and "wf_buffer s"
  shows "ok (WolfSshTcp4SendCallback fw bytes s) (\<lambda>(res, s'). \<exists>h. Log s' = Log s @ h \<and> level h \<and>
    stalled h \<le> 31000000 \<and> (res = WS_CBIO_ERR_TIMEOUT \<longrightarrow> 30000000 \<le> stalled h) \<and>
    (transmitted h = bytes \<or> transmitted h = [] \<and> (\<forall>k. res \<noteq> Transferred k)))"
proof (cases "Protocol s = 0 \<or> bytes = []")
  case True
  then show ?thesis by (simp add: WolfSshTcp4SendCallback_def)
next
  case False
  let ?s = "s\<lparr>TxDone := False, TxTokenStatus := EFI_NOT_READY\<rparr>"
  let ?c = "Transmit (TxEvent s) bytes"
  obtain r s1 where s1: "call fw ?c ?s = Some (r, s1)" "wf_buffer s1" "Log s1 = Log s @ [(?c, r)]"
    using call_safe [OF assms(1), of ?s ?c] assms(2) by (auto simp: ok_def called_def wf_buffer_def)
  obtain status s2 where s2: "WaitForCompletion fw TxToken 30000000 s1 = Some (status, s2)"
    "waited 30000000 s1 (status, s2)"
    using Wait_time [OF assms(1) s1(2), of TxToken 30000000] by (auto simp: ok_def)
  then obtain s3 where s3: "CancelToken fw TxToken s2 = Some s3" "within 1000000 40001 s2 s3"
    using Cancel_time [OF assms(1), of s2 TxToken] by (auto simp: ok_def waited_def)
  show ?thesis
  proof (cases "EFI_ERROR (Status r)")
    case True
    then show ?thesis using False s1 by (simp add: WolfSshTcp4SendCallback_def)
  next
    case good: False
    show ?thesis
    proof (cases "status = EFI_TIMEOUT")
      case True
      then show ?thesis using False good s1 s2 s3
        by (auto simp: WolfSshTcp4SendCallback_def waited_def within_def)
    next
      case False
      then show ?thesis using \<open>\<not> (Protocol s = 0 \<or> bytes = [])\<close> good s1 s2
        by (auto simp: WolfSshTcp4SendCallback_def waited_def)
    qed
  qed
qed

text \<open>Receiving never waits: one poll and at most one new request.\<close>

lemma PostReceive_time:
  assumes "conforming fw" and "wf_buffer s"
  shows "ok (PostReceive fw s) (\<lambda>(status, s'). within 0 1 s s')"
proof (cases "RxActive s \<or> EndOfStream s")
  case True
  then show ?thesis using assms(2) by (simp add: PostReceive_def within_def)
next
  case False
  let ?s = "s\<lparr>RxDone := False, RxOffset := 0, RxLength := 0, RxDataLength := RX_CAPACITY,
     RxTokenStatus := EFI_NOT_READY\<rparr>"
  have "ok (call fw (Receive (RxEvent s) RX_CAPACITY) ?s)
      (\<lambda>(r, s'). called fw (Receive (RxEvent s) RX_CAPACITY) ?s r s')"
    by (rule call_safe) (use assms in \<open>simp_all add: wf_buffer_def\<close>)
  then show ?thesis using False
    by (auto simp: PostReceive_def within_def called_def ok_def wf_buffer_def)
qed

lemma FinishReceive_keeps [simp]:
  "wf_buffer (FinishReceive s) = wf_buffer s" "Log (FinishReceive s) = Log s"
  by (simp_all add: FinishReceive_def wf_buffer_def Let_def)

lemma Poll_time:
  assumes "conforming fw" and "wf_buffer s"
  shows "ok (WolfSshTcp4Poll fw s) (within 0 1 s)"
  using call_safe [OF assms, of Poll] assms(2)
  by (auto simp: WolfSshTcp4Poll_def invoke_def ok_def called_def within_def)

lemma Recv_time:
  assumes "conforming fw" and "streaming d s"
  shows "ok (WolfSshTcp4RecvCallback fw n s) (\<lambda>(res, bytes, s'). within 0 2 s s')"
proof (cases "n = 0")
  case True
  then show ?thesis using streaming_buffer [OF assms(2)] by (simp add: WolfSshTcp4RecvCallback_def within_def)
next
  case False
  obtain s1 where s1: "WolfSshTcp4Poll fw s = Some s1" "within 0 1 s s1" "streaming d s1"
    using Poll_time [OF assms(1) streaming_buffer [OF assms(2)]] Poll_ok [OF assms] by (auto simp: ok_def)
  have trans: "within 0 2 s s'" if "within 0 1 s1 s'" for s'
    using that s1(2) by (fastforce simp: within_def)
  have here: "within 0 1 s1 s1" using streaming_buffer [OF s1(3)] by (simp add: within_def)
  note eq = RecvCallback_eq [OF False s1(1)]
  show ?thesis
  proof (cases "RxLength s1 > RxOffset s1")
    case True
    let ?k = "min n (RxLength s1 - RxOffset s1)"
    let ?s = "s1\<lparr>RxOffset := RxOffset s1 + ?k\<rparr>"
    have read: "aread (RxBuffer s1) (RxOffset s1) ?k = Some (take ?k (unread s1))"
      by (rule read_ok(1) [OF s1(3) True]) simp
    have post: "ok (PostReceive fw (?s\<lparr>RxOffset := 0, RxLength := 0\<rparr>))
        (\<lambda>(status, s'). within 0 1 (?s\<lparr>RxOffset := 0, RxLength := 0\<rparr>) s')"
      by (rule PostReceive_time [OF assms(1)]) (use here in \<open>simp add: within_def wf_buffer_def\<close>)
    have "ok (RecvData fw ?k s1) (\<lambda>(res, bytes, s'). within 0 1 s1 s')"
      using read post here by (auto simp: RecvData_def Let_def ok_def within_def wf_buffer_def)
    then show ?thesis using True trans by (auto simp: eq ok_def)
  next
    case empty: False
    have "wf_buffer s1" using here by (simp add: within_def)
    then obtain status s2 where "PostReceive fw s1 = Some (status, s2)" "within 0 1 s1 s2"
      using PostReceive_time [OF assms(1), of s1] by (auto simp: ok_def)
    then show ?thesis using empty trans [OF here] trans [of s2] by (simp add: eq)
  qed
qed

section \<open>Traffic\<close>

text \<open>
  What the operations on an open connection have in common: the stream goes on, and neither the
  handles nor the ledger change.
\<close>

definition kept_open :: "tcp4 \<Rightarrow> tcp4 \<Rightarrow> bool" where
  "kept_open s s' \<longleftrightarrow> handles s' = handles s \<and> (\<exists>h. Log s' = Log s @ h \<and> level h)"

lemma kept_open_refl [simp]: "kept_open s s"
  by (simp add: kept_open_def)

lemma kept_open_trans: "kept_open s s' \<Longrightarrow> kept_open s' s'' \<Longrightarrow> kept_open s s''"
  by (fastforce simp: kept_open_def)

lemma kept_open_balanced: "kept_open s s' \<Longrightarrow> balanced other s' = balanced other s"
  using balanced_level [of s' s] by (auto simp: kept_open_def)

lemma kept_open_connected: "kept_open s s' \<Longrightarrow> connected s' = connected s"
  by (simp add: kept_open_def handles_def connected_def)

lemma within_kept: "within t n s s' \<Longrightarrow> handles s' = handles s \<Longrightarrow> kept_open s s'"
  by (auto simp: within_def kept_open_def)

lemma Poll_kept:
  assumes "conforming fw" and "streaming d s"
  shows "ok (WolfSshTcp4Poll fw s) (\<lambda>s'. streaming d s' \<and> kept_open s s')"
  using Poll_ok [OF assms] Poll_time [OF assms(1) streaming_buffer [OF assms(2)]]
  by (auto simp: ok_def intro: within_kept)

lemma Recv_kept:
  assumes "conforming fw" and "streaming d s"
  shows "ok (WolfSshTcp4RecvCallback fw n s) (\<lambda>(res, bytes, s'). streaming (d @ bytes) s' \<and> kept_open s s')"
  using RecvCallback_ok [OF assms, of n] Recv_time [OF assms, of n] by (auto simp: ok_def intro: within_kept)

lemma Send_kept:
  assumes "conforming fw" and "streaming d s"
  shows "ok (WolfSshTcp4SendCallback fw bytes s) (\<lambda>(res, s'). streaming d s' \<and> kept_open s s')"
  using SendCallback_ok [OF assms, of bytes] Send_time [OF assms(1) streaming_buffer [OF assms(2)], of bytes]
  by (auto simp: ok_def kept_open_def)

lemma call_kept:
  assumes "conforming fw" and "streaming d s" and "rx_neutral c" and "plain_call c"
  shows "ok (call fw c s) (\<lambda>(r, s'). r = fw (Log s) c \<and> streaming d s' \<and> kept_open s s')"
  using call_ok [OF assms(1-3)] assms(4) frame_handles
  by (auto simp: ok_def called_def kept_open_def plain_call_def)

end
