(* ===== verification/Auth.thy ===== *)
theory Auth
  imports Args Tcp4_Open
begin

text \<open>
  Auth.c: the prompts on the console (\<open>ReadConfirmation\<close>, \<open>ReadPassword\<close>) and the two callbacks that
  wolfSSH calls while it authenticates, one to judge the host key of the server and one to obtain the
  password. The text they print is not modelled. The prompts wait for the user, so their loops get
  a number of turns.
\<close>

section \<open>State\<close>

text \<open>
  The structure points to the options and the socket of \<open>UefiMain\<close>, which nothing else aliases; here
  it holds them.
\<close>

record WOLFSSH_UEFI_AUTH =
  Options :: WOLFSSH_UEFI_OPTIONS
  Socket :: tcp4
  HostKeyChecked :: bool
  HostKeyAccepted :: bool
  PasswordPrompted :: bool

type_synonym auth = WOLFSSH_UEFI_AUTH

section \<open>Prompts\<close>

text \<open>
  One turn of a prompt reads a key. While there is none the network is polled; \<open>handle\<close> is what the
  prompt does with a key or with an error of the console.
\<close>

definition ReadTurn ::
  "firmware \<Rightarrow> (FIRMWARE_REPLY \<Rightarrow> tcp4 \<Rightarrow> ('s + 'r) option) \<Rightarrow> (tcp4 \<Rightarrow> 's) \<Rightarrow> tcp4 \<Rightarrow> ('s + 'r) option" where
  "ReadTurn fw handle again s = do {
     (r, s) \<leftarrow> call fw ReadKeyStroke s;
     if Status r = EFI_NOT_READY then do {
       s \<leftarrow> WolfSshTcp4Poll fw s;
       s \<leftarrow> invoke fw (Stall 5000) s;
       Some (Inl (again s)) }
     else handle r s }"

definition ConfirmKey :: "FIRMWARE_REPLY \<Rightarrow> tcp4 \<Rightarrow> (tcp4 + bool \<times> tcp4) option" where
  "ConfirmKey r s =
     (let ch = snd (KeyStroke r)
      in if EFI_ERROR (Status r) then Some (Inr (False, s))
         else if ch = of_char (CHR ''y'') \<or> ch = of_char (CHR ''Y'') then Some (Inr (True, s))
         else if ch = 0x0d \<or> ch = of_char (CHR ''n'') \<or> ch = of_char (CHR ''N'') \<or> ch = 0x1b then
           Some (Inr (False, s))
         else Some (Inl s))"

definition ReadConfirmation :: "firmware \<Rightarrow> nat \<Rightarrow> tcp4 \<Rightarrow> (bool \<times> tcp4) outcome" where
  "ReadConfirmation fw turns s = repeat turns (\<lambda>s. lift (ReadTurn fw ConfirmKey (\<lambda>s. s) s)) s"

text \<open>The password, its length and the socket are the state of the second prompt.\<close>

definition PasswordKey ::
  "UINT8 list \<Rightarrow> UINTN \<Rightarrow> FIRMWARE_REPLY \<Rightarrow> tcp4 \<Rightarrow>
   ((UINT8 list \<times> UINTN \<times> tcp4) + (EFI_STATUS \<times> UINT8 list \<times> tcp4)) option" where
  "PasswordKey password len r s =
     (let ch = snd (KeyStroke r)
      in if EFI_ERROR (Status r) then Some (Inr (Status r, password, s))
         else if ch = 0x0d then do {
           password \<leftarrow> aset password len 0;
           Some (Inr (EFI_SUCCESS, password, s)) }
         else if ch = 0x08 \<and> len \<noteq> 0 then do {
           password \<leftarrow> aset password (usub len 1) 0;
           Some (Inl (password, usub len 1, s)) }
         else if ch \<ge> 0x20 \<and> ch \<le> 0x7e \<and> uadd len 1 < 256 then do {
           password \<leftarrow> aset password len (ucast ch);
           Some (Inl (password, uadd len 1, s)) }
         else Some (Inl (password, len, s)))"

definition ReadPassword :: "firmware \<Rightarrow> nat \<Rightarrow> auth \<Rightarrow> (EFI_STATUS \<times> auth) outcome" where
  "ReadPassword fw turns a =
     andthen (repeat turns (\<lambda>(password, len, s).
         lift (ReadTurn fw (PasswordKey password len) (\<lambda>s. (password, len, s)) s))
       (replicate 256 0, 0, Socket a))
     (\<lambda>(status, password, s).
        let opts = (Options a)\<lparr>Password := password\<rparr>;
            opts = (if EFI_ERROR status then opts else opts\<lparr>HavePassword := True\<rparr>)
        in Returned (status, a\<lparr>Options := opts, Socket := s\<rparr>))"

section \<open>The host key\<close>

text \<open>
  wolfCrypt's SHA-256 is a parameter: the digest, or \<open>None\<close> when one of its three functions fails.
  The digest is written in lower-case hexadecimal, digit by digit, into a buffer of which every
  element is written before it is read.
\<close>

type_synonym hash = "UINT8 list \<Rightarrow> UINT8 list option"

definition HexStep :: "UINT8 list \<Rightarrow> nat \<Rightarrow> UINT8 list \<Rightarrow> UINT8 list option" where
  "HexStep digest index hex = do {
     byte \<leftarrow> aget digest index;
     high \<leftarrow> aget HexDigits (unat (drop_bit 4 byte));
     hex \<leftarrow> aset hex (index * 2) high;
     low \<leftarrow> aget HexDigits (unat (byte AND 0x0f));
     aset hex (index * 2 + 1) low }"

definition HexDigest :: "UINT8 list \<Rightarrow> UINT8 list option" where
  "HexDigest digest = do {
     hex \<leftarrow> for_below 0 32 (HexStep digest) (replicate 65 0);
     aset hex 64 0 }"

definition WolfSshHostKeyCallback :: "hash \<Rightarrow> firmware \<Rightarrow> nat \<Rightarrow> UINT8 list \<Rightarrow> auth \<Rightarrow> (int \<times> auth) outcome" where
  "WolfSshHostKeyCallback sha256 fw turns publicKey a =
     (let verdict = (\<lambda>a. (if HostKeyAccepted a then 0 else -1, a))
      in if publicKey = [] then Returned (-1, a)
         else if HostKeyChecked a then Returned (verdict a)
         else case sha256 publicKey of
           None \<Rightarrow> Returned (-1, a)
         | Some digest \<Rightarrow>
             andthen (lift (HexDigest digest)) (\<lambda>hex.
             let a = a\<lparr>HostKeyChecked := True\<rparr>
             in if HaveFingerprint (Options a) then
                  Returned (verdict (a\<lparr>HostKeyAccepted := cstr hex = cstr (Fingerprint (Options a))\<rparr>))
                else if AcceptAnyHostKey (Options a) then
                  Returned (verdict (a\<lparr>HostKeyAccepted := True\<rparr>))
                else
                  andthen (ReadConfirmation fw turns (Socket a)) (\<lambda>(yes, s).
                    Returned (verdict (a\<lparr>HostKeyAccepted := yes, Socket := s\<rparr>)))))"

section \<open>The user\<close>

datatype AUTH_TYPE = WOLFSSH_USERAUTH_PASSWORD | WOLFSSH_USERAUTH_OTHER nat

text \<open>On success the password is handed over: the text of the buffer, without the terminator.\<close>

datatype USERAUTH_RESULT = WOLFSSH_USERAUTH_SUCCESS "UINT8 list" | WOLFSSH_USERAUTH_FAILURE

definition GivePassword :: "auth \<Rightarrow> (USERAUTH_RESULT \<times> auth) outcome" where
  "GivePassword a =
     (if \<not> HavePassword (Options a) then Returned (WOLFSSH_USERAUTH_FAILURE, a)
      else if 0 \<notin> set (Password (Options a)) then Fault
      else Returned (WOLFSSH_USERAUTH_SUCCESS (cstr (Password (Options a))), a))"

definition WolfSshUserAuthCallback ::
  "firmware \<Rightarrow> nat \<Rightarrow> AUTH_TYPE \<Rightarrow> auth \<Rightarrow> (USERAUTH_RESULT \<times> auth) outcome" where
  "WolfSshUserAuthCallback fw turns authType a =
     (if authType \<noteq> WOLFSSH_USERAUTH_PASSWORD then Returned (WOLFSSH_USERAUTH_FAILURE, a)
      else if \<not> HavePassword (Options a) \<and> \<not> PasswordPrompted a then
        andthen (ReadPassword fw turns (a\<lparr>PasswordPrompted := True\<rparr>)) (\<lambda>(status, a).
          if EFI_ERROR status then Returned (WOLFSSH_USERAUTH_FAILURE, a) else GivePassword a)
      else GivePassword a)"

section \<open>The fingerprint of a digest\<close>

definition hex_of :: "UINT8 list \<Rightarrow> UINT8 list" where
  "hex_of digest = concat (map (\<lambda>b. [HexDigits ! unat (drop_bit 4 b), HexDigits ! unat (b AND 0x0f)]) digest)"

lemma nibbles:
  fixes b :: UINT8
  shows "unat (drop_bit 4 b) < 16" and "unat (b AND 0x0f) < 16"
proof -
  have "unat b < 256" using unsigned_less [of b] by simp
  then show "unat (drop_bit 4 b) < 16"
    by (simp add: unat_drop_bit_eq) (simp add: drop_bit_eq_div)
  have "b AND 0x0f = take_bit 4 b" by (simp add: take_bit_eq_mask mask_eq_decr_exp)
  then have "unat (b AND 0x0f) = take_bit 4 (unat b)" by (simp only: unsigned_take_bit_eq)
  then show "unat (b AND 0x0f) < 16" by (simp add: take_bit_eq_mod)
qed

lemma HexDigits_inj: "i < 16 \<Longrightarrow> j < 16 \<Longrightarrow> HexDigits ! i = HexDigits ! j \<Longrightarrow> i = j"
proof -
  have "distinct HexDigits" by (simp add: HexDigits_def)
  then show "i < 16 \<Longrightarrow> j < 16 \<Longrightarrow> HexDigits ! i = HexDigits ! j \<Longrightarrow> i = j"
    using nth_eq_iff_index_eq [of HexDigits i j] by simp
qed

lemma byte_eq:
  fixes a b :: UINT8
  assumes "drop_bit 4 a = drop_bit 4 b" and "a AND 0x0f = b AND 0x0f"
  shows "a = b"
proof -
  have split: "x = push_bit 4 (drop_bit 4 x) OR (x AND 0x0f)" for x :: UINT8
  proof -
    have "x AND 0x0f = take_bit 4 x" by (simp add: take_bit_eq_mask mask_eq_decr_exp)
    then show ?thesis by (auto simp: bit_eq_iff bit_simps)
  qed
  show ?thesis using split [of a] split [of b] assms by simp
qed

lemma hex_of_length [simp]: "length (hex_of digest) = 2 * length digest"
  by (induction digest) (simp_all add: hex_of_def)

lemma hex_of_append: "hex_of (xs @ ys) = hex_of xs @ hex_of ys"
  by (simp add: hex_of_def)

lemma hex_of_inj: "hex_of xs = hex_of ys \<longleftrightarrow> xs = ys"
proof (induction xs arbitrary: ys)
  case Nil
  then show ?case by (cases ys) (simp_all add: hex_of_def)
next
  case (Cons x xs)
  show ?case
  proof (cases ys)
    case Nil
    then show ?thesis by (simp add: hex_of_def)
  next
    case ys: (Cons y ys')
    have "hex_of (x # xs) = hex_of (y # ys') \<longleftrightarrow>
        HexDigits ! unat (drop_bit 4 x) = HexDigits ! unat (drop_bit 4 y) \<and>
        HexDigits ! unat (x AND 0x0f) = HexDigits ! unat (y AND 0x0f) \<and> hex_of xs = hex_of ys'"
      by (simp add: hex_of_def)
    also have "\<dots> \<longleftrightarrow> drop_bit 4 x = drop_bit 4 y \<and> x AND 0x0f = y AND 0x0f \<and> hex_of xs = hex_of ys'"
      using HexDigits_inj nibbles by (metis word_unat_eq_iff)
    finally show ?thesis using Cons.IH [of ys'] byte_eq [of x y] ys by auto
  qed
qed

lemma hex_of_digits: "set (hex_of digest) \<subseteq> set HexDigits"
  using nibbles by (induction digest) (auto simp: hex_of_def)

lemma cstr_hex_of: "cstr (hex_of digest @ 0 # rest) = hex_of digest"
proof -
  have "\<forall>c \<in> set (hex_of digest). c \<noteq> 0" using hex_of_digits HexDigits_nonzero by blast
  then show ?thesis by (simp add: cstr_def takeWhile_append)
qed

lemma HexStep_ok:
  assumes "length digest = 32" and "j < 32" and "length hex = 65" and "take (2 * j) hex = hex_of (take j digest)"
  shows "ok (HexStep digest j hex) (\<lambda>hex'. length hex' = 65 \<and> take (2 * Suc j) hex' = hex_of (take (Suc j) digest))"
proof -
  let ?b = "digest ! j"
  have t: "hex_of (take (Suc j) digest) =
      take (2 * j) hex @ [HexDigits ! unat (drop_bit 4 ?b), HexDigits ! unat (?b AND 0x0f)]"
    using assms by (simp add: take_Suc_conv_app_nth hex_of_append) (simp add: hex_of_def)
  have "take (2 * Suc j) (hex[2 * j := x, 2 * j + 1 := y]) = take (2 * j) hex @ [x, y]" for x y
    using assms(2,3) by (simp add: take_Suc_conv_app_nth nth_list_update)
  then show ?thesis using assms nibbles [of ?b] t
    by (simp add: HexStep_def mult.commute)
qed

lemma HexDigest_ok: "length digest = 32 \<Longrightarrow> HexDigest digest = Some (hex_of digest @ [0])"
proof -
  assume len: "length digest = 32"
  have "ok (for_below 0 32 (HexStep digest) (replicate 65 0))
      ((\<lambda>j hex. length hex = 65 \<and> take (2 * j) hex = hex_of (take j digest)) (max 0 32))"
    by (rule for_below_ok) (use HexStep_ok [OF len] in \<open>auto simp: hex_of_def\<close>)
  then obtain hex where hex: "for_below 0 32 (HexStep digest) (replicate 65 0) = Some hex" "length hex = 65"
    "take 64 hex = hex_of digest"
    using len by (auto simp: ok_def)
  have "hex[64 := 0] = take 64 hex @ [0]"
    using hex(2) by (simp add: upd_conv_take_nth_drop)
  then show ?thesis using hex by (simp add: HexDigest_def)
qed

section \<open>The prompts\<close>

text \<open>The characters a history read from the console, and those since an earlier point.\<close>

fun keys_of :: "FIRMWARE_CALL \<times> FIRMWARE_REPLY \<Rightarrow> CHAR16 list" where
  "keys_of (ReadKeyStroke, r) = (if EFI_ERROR (Status r) then [] else [snd (KeyStroke r)])"
| "keys_of _ = []"

definition keys_read :: "history \<Rightarrow> CHAR16 list" where
  "keys_read h = concat (map keys_of h)"

lemma keys_read_simps [simp]: "keys_read (h @ h') = keys_read h @ keys_read h'" "keys_read [] = []"
  "keys_read [e] = keys_of e"
  by (simp_all add: keys_read_def)

text \<open>
  What a prompt maintains of the socket: the stream, the handles and the ledger, and the keys \<open>ks\<close>
  read since the history was \<open>start\<close>.
\<close>

definition prompting where
  "prompting d hs start ks s \<longleftrightarrow> (streaming d s \<and> handles s = hs) \<and>
     (\<exists>h. Log s = start @ h \<and> level h \<and> keys_read h = ks)"

lemma prompting_start: "streaming d s \<Longrightarrow> prompting d (handles s) (Log s) [] s"
  by (simp add: prompting_def)

lemma prompting_call:
  assumes "conforming fw" and "prompting d hs start ks s" and "rx_neutral c" and "plain_call c"
  shows "ok (call fw c s) (\<lambda>(r, s'). r = fw (Log s) c \<and> prompting d hs start (ks @ keys_of (c, r)) s')"
proof -
  have "ok (call fw c s) (\<lambda>(r, s'). called fw c s r s' \<and> streaming d s')"
    by (rule call_ok) (use assms in \<open>simp_all add: prompting_def\<close>)
  then show ?thesis using assms(2,4)
    by (auto simp: ok_def called_def prompting_def plain_call_def dest: frame_handles)
qed

lemma prompting_Finish: "prompting d hs start ks s \<Longrightarrow> prompting d hs start ks (FinishReceive s)"
  using FinishReceive_ok [of d s] by (auto simp: prompting_def)

lemma prompting_Poll:
  assumes "conforming fw" and "prompting d hs start ks s"
  shows "ok (WolfSshTcp4Poll fw s) (prompting d hs start ks)"
  using prompting_call [OF assms, of Poll] assms(2) prompting_Finish [of d hs start ks]
  by (auto simp: WolfSshTcp4Poll_def invoke_def ok_def rx_neutral_def)

lemma prompting_kept: "prompting d (handles s) (Log s) ks s' \<Longrightarrow> streaming d s' \<and> kept_open s s'"
  by (auto simp: prompting_def kept_open_def)

lemma ReadTurn_rule:
  assumes "conforming fw" and "prompting d hs start ks s"
    and "\<And>s'. prompting d hs start ks s' \<Longrightarrow> P (Inl (again s'))"
    and "\<And>r s'. prompting d hs start (ks @ keys_of (ReadKeyStroke, r)) s' \<Longrightarrow> ok (handle r s') P"
  shows "ok (ReadTurn fw handle again s) P"
proof -
  obtain r s1 where s1: "call fw ReadKeyStroke s = Some (r, s1)"
    "prompting d hs start (ks @ keys_of (ReadKeyStroke, r)) s1"
    using prompting_call [OF assms(1,2), of ReadKeyStroke]
    by (auto simp: ok_def rx_neutral_def plain_call_def)
  show ?thesis
  proof (cases "Status r = EFI_NOT_READY")
    case False
    then show ?thesis using s1 assms(4) by (simp add: ReadTurn_def)
  next
    case True
    then have "prompting d hs start ks s1" using s1(2) by simp
    then obtain s2 where s2: "WolfSshTcp4Poll fw s1 = Some s2" "prompting d hs start ks s2"
      using prompting_Poll [OF assms(1), of d hs start ks s1] by (auto simp: ok_def)
    obtain s3 where "invoke fw (Stall 5000) s2 = Some s3" "prompting d hs start ks s3"
      using prompting_call [OF assms(1) s2(2), of "Stall 5000"]
      by (auto simp: ok_def rx_neutral_def invoke_def)
    then show ?thesis using True s1(1) s2(1) assms(3) by (simp add: ReadTurn_def)
  qed
qed

text \<open>The answer given by a sequence of keys: that of the first key that decides, and no without one.\<close>

definition says_yes :: "CHAR16 \<Rightarrow> bool" where
  "says_yes k \<longleftrightarrow> k = of_char (CHR ''y'') \<or> k = of_char (CHR ''Y'')"

definition says_no :: "CHAR16 \<Rightarrow> bool" where
  "says_no k \<longleftrightarrow> k = 0x0d \<or> k = of_char (CHR ''n'') \<or> k = of_char (CHR ''N'') \<or> k = 0x1b"

fun answer :: "CHAR16 list \<Rightarrow> bool" where
  "answer [] = False"
| "answer (k # ks) = (if says_yes k then True else if says_no k then False else answer ks)"

definition undecided :: "CHAR16 list \<Rightarrow> bool" where
  "undecided ks \<longleftrightarrow> (\<forall>k \<in> set ks. \<not> says_yes k \<and> \<not> says_no k)"

lemma answer_append: "undecided ks \<Longrightarrow> answer (ks @ ks') = answer ks'"
  by (induction ks) (auto simp: undecided_def)

lemma ConfirmKey_eq:
  "ConfirmKey r s = Some (if EFI_ERROR (Status r) then Inr (False, s)
     else if says_yes (snd (KeyStroke r)) then Inr (True, s)
     else if says_no (snd (KeyStroke r)) then Inr (False, s) else Inl s)"
  by (simp add: ConfirmKey_def says_yes_def says_no_def Let_def)

lemma ReadConfirmation_ok:
  assumes "conforming fw" and "streaming d s"
  shows "safe (ReadConfirmation fw turns s) (\<lambda>(yes, s'). \<exists>ks. prompting d (handles s) (Log s) ks s' \<and> yes = answer ks)"
  unfolding ReadConfirmation_def
proof (rule safe_repeat [where I = "\<lambda>s'. \<exists>ks. undecided ks \<and> prompting d (handles s) (Log s) ks s'"])
  show "\<exists>ks. undecided ks \<and> prompting d (handles s) (Log s) ks s"
    using prompting_start [OF assms(2)] by (intro exI [of _ "[]"]) (simp add: undecided_def)
  fix s1 assume "\<exists>ks. undecided ks \<and> prompting d (handles s) (Log s) ks s1"
  then obtain ks where ks: "undecided ks" "prompting d (handles s) (Log s) ks s1" by blast
  show "safe (lift (ReadTurn fw ConfirmKey (\<lambda>s. s) s1)) (\<lambda>r. case r of
      Inl s' \<Rightarrow> \<exists>ks. undecided ks \<and> prompting d (handles s) (Log s) ks s'
    | Inr (yes, s') \<Rightarrow> \<exists>ks. prompting d (handles s) (Log s) ks s' \<and> yes = answer ks)"
    unfolding safe_lift
  proof (rule ReadTurn_rule [OF assms(1) ks(2)])
    fix r s2 assume p: "prompting d (handles s) (Log s) (ks @ keys_of (ReadKeyStroke, r)) s2"
    show "ok (ConfirmKey r s2) (\<lambda>r. case r of
        Inl s' \<Rightarrow> \<exists>ks. undecided ks \<and> prompting d (handles s) (Log s) ks s'
      | Inr (yes, s') \<Rightarrow> \<exists>ks. prompting d (handles s) (Log s) ks s' \<and> yes = answer ks)"
    proof (cases "EFI_ERROR (Status r)")
      case True
      then show ?thesis using p answer_append [OF ks(1), of "[]"]
        by (simp add: ConfirmKey_eq) (rule exI [of _ ks], simp)
    next
      case False
      let ?ks = "ks @ [snd (KeyStroke r)]"
      have p: "prompting d (handles s) (Log s) ?ks s2" using p False by simp
      have "answer ?ks = says_yes (snd (KeyStroke r))" using answer_append [OF ks(1)] by simp
      moreover have "\<not> says_yes (snd (KeyStroke r)) \<Longrightarrow> \<not> says_no (snd (KeyStroke r)) \<Longrightarrow> undecided ?ks"
        using ks(1) by (simp add: undecided_def)
      ultimately show ?thesis using p False by (simp add: ConfirmKey_eq) (metis (full_types))
    qed
  qed (use ks(1) in auto)
qed

text \<open>
  The line editor behind the password prompt: a printable character is appended while there is room
  for it and the terminator, backspace removes the last one, other keys do nothing.
\<close>

definition edit :: "UINT8 list \<Rightarrow> CHAR16 \<Rightarrow> UINT8 list" where
  "edit l k = (if k = 0x08 then butlast l
     else if 0x20 \<le> k \<and> k \<le> 0x7e \<and> length l < 255 then l @ [ucast k] else l)"

definition edited :: "CHAR16 list \<Rightarrow> UINT8 list" where
  "edited ks = foldl edit [] ks"

definition padded :: "UINT8 list \<Rightarrow> UINT8 list" where
  "padded l = l @ replicate (256 - length l) 0"

lemma edited_Nil [simp]: "edited [] = []"
  by (simp add: edited_def)

lemma edited_append [simp]: "edited (ks @ [k]) = edit (edited ks) k"
  by (simp add: edited_def)

lemma edited_text: "length (edited ks) \<le> 255 \<and> 0 \<notin> set (edited ks)"
proof (induction ks rule: rev_induct)
  case (snoc k ks)
  have "(ucast k :: UINT8) \<noteq> 0" if "0x20 \<le> k" "k \<le> 0x7e"
  proof -
    have "k \<le> 0x7f" by (rule order.trans [OF that(2)]) simp
    moreover have "k \<noteq> 0" using that by auto
    ultimately show ?thesis by (simp add: narrow_nonzero)
  qed
  then show ?case using snoc by (auto simp: edit_def dest: in_set_butlastD)
qed simp

lemma padded_text: "length l \<le> 255 \<Longrightarrow> 0 \<notin> set l \<Longrightarrow> terminated 256 (padded l) \<and> cstr (padded l) = l"
proof -
  assume l: "length l \<le> 255" "0 \<notin> set l"
  then have "padded l = l @ 0 # replicate (255 - length l) 0"
    by (simp add: padded_def flip: replicate_Suc)
  moreover have "\<forall>c \<in> set l. c \<noteq> 0" using l(2) by auto
  ultimately show ?thesis using l by (simp add: terminated_def cstr_def takeWhile_append)
qed

lemma padded_update:
  "length l < 255 \<Longrightarrow> (padded l)[length l := c] = padded (l @ [c])"
  "length l \<le> 255 \<Longrightarrow> (padded l)[length l := 0] = padded l"
  "l \<noteq> [] \<Longrightarrow> length l \<le> 255 \<Longrightarrow> (padded l)[length l - Suc 0 := 0] = padded (butlast l)"
proof -
  show "length l < 255 \<Longrightarrow> (padded l)[length l := c] = padded (l @ [c])"
    by (cases "256 - length l") (auto simp: padded_def list_update_append Suc_diff_le)
  show "length l \<le> 255 \<Longrightarrow> (padded l)[length l := 0] = padded l"
    by (cases "256 - length l") (auto simp: padded_def list_update_append)
  assume l: "l \<noteq> []" "length l \<le> 255"
  then have "l = butlast l @ [last l]" by simp
  then obtain m x where m: "l = m @ [x]" by blast
  have "256 - length m = Suc (255 - length m)" using l(2) m by simp
  then show "(padded l)[length l - Suc 0 := 0] = padded (butlast l)"
    using m by (simp add: padded_def list_update_append)
qed

lemma PasswordKey_eq:
  assumes "length l \<le> 255" and "k = snd (KeyStroke r)"
  shows "PasswordKey (padded l) (length l) r s = Some
    (if EFI_ERROR (Status r) then Inr (Status r, padded l, s)
     else if k = 0x0d then Inr (EFI_SUCCESS, padded l, s)
     else Inl (padded (edit l k), length (edit l k), s))"
proof -
  have len: "length (padded l) = 256" using assms(1) by (simp add: padded_def)
  have "usub (length l) (Suc 0) = length l - Suc 0" if "l \<noteq> []"
    by (rule usub_eq) (use that assms(1) in \<open>auto simp: Suc_le_eq\<close>)
  then show ?thesis
    using assms padded_update [of l] len by (auto simp: PasswordKey_def edit_def Let_def)
qed

text \<open>What the password prompt does to the options.\<close>

definition password_set :: "CHAR16 list \<Rightarrow> WOLFSSH_UEFI_OPTIONS \<Rightarrow> WOLFSSH_UEFI_OPTIONS" where
  "password_set ks opts = opts\<lparr>Password := padded (edited ks), HavePassword := True\<rparr>"

lemma ReadPassword_ok:
  assumes "conforming fw" and "streaming d (Socket a)"
  shows "safe (ReadPassword fw turns a) (\<lambda>(status, a'). \<exists>ks s'.
    prompting d (handles (Socket a)) (Log (Socket a)) (ks @ (if EFI_ERROR status then [] else [0x0d])) s' \<and>
    a' = a\<lparr>Options := if EFI_ERROR status then (Options a)\<lparr>Password := padded (edited ks)\<rparr>
      else password_set ks (Options a), Socket := s'\<rparr>)"
proof -
  let ?p = "prompting d (handles (Socket a)) (Log (Socket a))"
  let ?I = "\<lambda>(password, len, s'). \<exists>ks. ?p ks s' \<and> password = padded (edited ks) \<and> len = length (edited ks)"
  let ?Q = "\<lambda>(status, password, s'). \<exists>ks. ?p (ks @ (if EFI_ERROR status then [] else [0x0d])) s' \<and>
    password = padded (edited ks)"
  have "safe (repeat turns (\<lambda>(password, len, s).
      lift (ReadTurn fw (PasswordKey password len) (\<lambda>s. (password, len, s)) s))
      (replicate 256 0, 0, Socket a)) ?Q"
  proof (rule safe_repeat [where I = ?I])
    show "?I (replicate 256 0, 0, Socket a)"
      using prompting_start [OF assms(2)] by (auto simp: padded_def intro!: exI [of _ "[]"])
    fix st assume "?I st"
    then obtain s1 ks where st: "st = (padded (edited ks), length (edited ks), s1)" and p: "?p ks s1"
      by (cases st) auto
    let ?l = "edited ks"
    have len: "length ?l \<le> 255" using edited_text by simp
    have "ok (ReadTurn fw (PasswordKey (padded ?l) (length ?l)) (\<lambda>s. (padded ?l, length ?l, s)) s1)
        (\<lambda>r. case r of Inl st \<Rightarrow> ?I st | Inr x \<Rightarrow> ?Q x)"
    proof (rule ReadTurn_rule [OF assms(1) p])
      fix s2 assume "?p ks s2"
      then show "case Inl (padded ?l, length ?l, s2) of Inl st \<Rightarrow> ?I st | Inr x \<Rightarrow> ?Q x" by auto
    next
      fix r s2 assume p2: "?p (ks @ keys_of (ReadKeyStroke, r)) s2"
      let ?k = "snd (KeyStroke r)"
      show "ok (PasswordKey (padded ?l) (length ?l) r s2) (\<lambda>r. case r of Inl st \<Rightarrow> ?I st | Inr x \<Rightarrow> ?Q x)"
      proof (cases "EFI_ERROR (Status r) \<or> ?k = 0x0d")
        case True
        then show ?thesis unfolding PasswordKey_eq [OF len refl] ok_Some
          using p2 by (auto intro!: exI [of _ ks] split: if_splits)
      next
        case False
        then show ?thesis unfolding PasswordKey_eq [OF len refl] ok_Some
          using p2 by (auto intro!: exI [of _ "ks @ [?k]"])
      qed
    qed
    then show "safe ((\<lambda>(password, len, s).
        lift (ReadTurn fw (PasswordKey password len) (\<lambda>s. (password, len, s)) s)) st)
        (\<lambda>r. case r of Inl st \<Rightarrow> ?I st | Inr x \<Rightarrow> ?Q x)"
      by (simp add: st)
  qed
  then show ?thesis unfolding ReadPassword_def safe_andthen
    by (rule safe_mono) (fastforce simp: Let_def password_set_def split: if_splits)
qed

section \<open>The callbacks\<close>

text \<open>
  The digest of a key, as far as wolfCrypt computes one of the right length. \<open>hash_spec\<close> is its
  documented size.
\<close>

definition hash_spec :: "hash \<Rightarrow> bool" where
  "hash_spec sha256 \<longleftrightarrow> (\<forall>key digest. sha256 key = Some digest \<longrightarrow> length digest = 32)"

lemma hash_length: "hash_spec sha256 \<Longrightarrow> sha256 key = Some digest \<Longrightarrow> length digest = 32"
  by (simp add: hash_spec_def)

lemma HostKey_pinned:
  assumes "hash_spec sha256" and "sha256 key = Some digest" and "key \<noteq> []" and "\<not> HostKeyChecked a"
    and "HaveFingerprint (Options a)"
  shows "WolfSshHostKeyCallback sha256 fw turns key a =
    (let good = (cstr (Fingerprint (Options a)) = hex_of digest)
     in Returned (if good then 0 else -1, a\<lparr>HostKeyChecked := True, HostKeyAccepted := good\<rparr>))"
proof -
  have "cstr (hex_of digest @ [0]) = hex_of digest" using cstr_hex_of [of digest "[]"] by simp
  then show ?thesis using assms HexDigest_ok [OF hash_length [OF assms(1,2)]]
    by (auto simp: WolfSshHostKeyCallback_def Let_def)
qed

text \<open>The verdict on the first key is the verdict on every later one, also when another key is pinned.\<close>

lemma HostKey_cached:
  assumes "HostKeyChecked a" and "HostKeyAccepted a" and "key \<noteq> []"
  shows "WolfSshHostKeyCallback sha256 fw turns key a = Returned (0, a)"
  using assms by (simp add: WolfSshHostKeyCallback_def)

text \<open>What the callbacks keep: the stream, the handles and well-formed options.\<close>

definition auth_inv :: "UINT8 list \<Rightarrow> auth \<Rightarrow> bool" where
  "auth_inv d a \<longleftrightarrow> streaming d (Socket a) \<and> wf_options (Options a)"

lemma wf_password_set: "wf_options opts \<Longrightarrow> wf_options (password_set ks opts)"
  "wf_options opts \<Longrightarrow> wf_options (opts\<lparr>Password := padded (edited ks)\<rparr>)"
  using edited_text [of ks] padded_text [of "edited ks"] by (simp_all add: wf_options_def password_set_def)

text \<open>
  The host key is accepted only for one of four reasons: the verdict on an earlier key, the pinned
  fingerprint, the option that accepts every key, or the user's answer.
\<close>

lemma HostKey_ok:
  assumes "conforming fw" and "hash_spec sha256" and "auth_inv d a"
  shows "safe (WolfSshHostKeyCallback sha256 fw turns key a) (\<lambda>(res, a'). auth_inv d a' \<and>
    Options a' = Options a \<and> kept_open (Socket a) (Socket a') \<and> (res = 0 \<or> res = -1) \<and>
    (res = 0 \<longrightarrow> HostKeyChecked a' \<and> HostKeyAccepted a' \<and>
      (HostKeyChecked a \<and> HostKeyAccepted a \<and> a' = a \<or>
       (\<exists>digest. sha256 key = Some digest \<and>
         (if HaveFingerprint (Options a) then cstr (Fingerprint (Options a)) = hex_of digest
          else AcceptAnyHostKey (Options a) \<or>
            (\<exists>ks. prompting d (handles (Socket a)) (Log (Socket a)) ks (Socket a') \<and> answer ks))))))"
proof (cases "key = [] \<or> HostKeyChecked a \<or> sha256 key = None")
  case True
  then show ?thesis using assms(3) by (auto simp: WolfSshHostKeyCallback_def Let_def)
next
  case False
  then obtain digest where digest: "sha256 key = Some digest" by auto
  note hex = HexDigest_ok [OF hash_length [OF assms(2) digest]]
  have str: "streaming d (Socket a)" using assms(3) by (simp add: auth_inv_def)
  show ?thesis
  proof (cases "HaveFingerprint (Options a)")
    case True
    then show ?thesis using False digest assms(3) HostKey_pinned [OF assms(2) digest, of a fw turns]
      by (auto simp: Let_def auth_inv_def)
  next
    case no_pin: False
    show ?thesis
    proof (cases "AcceptAnyHostKey (Options a)")
      case True
      then show ?thesis using False no_pin digest hex assms(3)
        by (auto simp: WolfSshHostKeyCallback_def Let_def auth_inv_def)
    next
      case False
      have "WolfSshHostKeyCallback sha256 fw turns key a =
          andthen (ReadConfirmation fw turns (Socket a)) (\<lambda>(yes, s). Returned (if yes then 0 else -1,
            a\<lparr>HostKeyChecked := True, HostKeyAccepted := yes, Socket := s\<rparr>))"
        using \<open>\<not> (key = [] \<or> HostKeyChecked a \<or> sha256 key = None)\<close> no_pin False digest hex
        by (simp add: WolfSshHostKeyCallback_def Let_def)
      then show ?thesis
        using safe_mono [OF ReadConfirmation_ok [OF assms(1) str, of turns]] False no_pin digest assms(3)
        by (fastforce simp: auth_inv_def dest: prompting_kept intro!: safe_mono [OF ReadConfirmation_ok [OF assms(1) str, of turns]])
    qed
  qed
qed

text \<open>
  A password is handed over only for password authentication; without one from the command line it
  is the text typed at the prompt, and there is one prompt at most.
\<close>

lemma GivePassword_ok:
  assumes "wf_options (Options a)"
  shows "GivePassword a = Returned
    (if HavePassword (Options a) then WOLFSSH_USERAUTH_SUCCESS (cstr (Password (Options a)))
     else WOLFSSH_USERAUTH_FAILURE, a)"
  using assms by (simp add: GivePassword_def wf_options_def terminated_def)

lemma UserAuth_ok:
  assumes "conforming fw" and "auth_inv d a"
  shows "safe (WolfSshUserAuthCallback fw turns authType a) (\<lambda>(res, a'). auth_inv d a' \<and>
    kept_open (Socket a) (Socket a') \<and>
    (\<forall>pw. res = WOLFSSH_USERAUTH_SUCCESS pw \<longrightarrow> authType = WOLFSSH_USERAUTH_PASSWORD \<and>
      length pw \<le> 255 \<and> pw = cstr (Password (Options a')) \<and>
      (if HavePassword (Options a) then a' = a
       else \<not> PasswordPrompted a \<and> (\<exists>ks. pw = edited ks \<and>
         prompting d (handles (Socket a)) (Log (Socket a)) (ks @ [0x0d]) (Socket a')))))"
proof -
  have wf: "wf_options (Options a)" and str: "streaming d (Socket a)" using assms(2) by (simp_all add: auth_inv_def)
  have short: "length (cstr pw) \<le> 255" if "terminated 256 pw" for pw
    using cstr_end [of pw] that by (simp add: terminated_def)
  show ?thesis
  proof (cases "authType \<noteq> WOLFSSH_USERAUTH_PASSWORD \<or> HavePassword (Options a) \<or> PasswordPrompted a")
    case True
    then show ?thesis using assms(2) GivePassword_ok [OF wf] short [of "Password (Options a)"] wf
      by (auto simp: WolfSshUserAuthCallback_def wf_options_def)
  next
    case False
    let ?a = "a\<lparr>PasswordPrompted := True\<rparr>"
    have "safe (ReadPassword fw turns ?a) (\<lambda>(status, a'). safe
        (if EFI_ERROR status then Returned (WOLFSSH_USERAUTH_FAILURE, a') else GivePassword a')
        (\<lambda>(res, a'). auth_inv d a' \<and> kept_open (Socket a) (Socket a') \<and>
          (\<forall>pw. res = WOLFSSH_USERAUTH_SUCCESS pw \<longrightarrow> length pw \<le> 255 \<and> pw = cstr (Password (Options a')) \<and>
             (\<exists>ks. pw = edited ks \<and>
               prompting d (handles (Socket a)) (Log (Socket a)) (ks @ [0x0d]) (Socket a')))))"
    proof (rule safe_mono)
      let ?P = "\<lambda>(status, a'). \<exists>ks s'.
        prompting d (handles (Socket a)) (Log (Socket a)) (ks @ (if EFI_ERROR status then [] else [0x0d])) s' \<and>
        a' = ?a\<lparr>Options := if EFI_ERROR status then (Options a)\<lparr>Password := padded (edited ks)\<rparr>
          else password_set ks (Options a), Socket := s'\<rparr>"
      show "safe (ReadPassword fw turns ?a) ?P"
        using ReadPassword_ok [OF assms(1), of d ?a turns] str by (simp cong: if_cong)
      fix x assume "?P x"
      then obtain status a' ks s' where x: "x = (status, a')"
        and p: "prompting d (handles (Socket a)) (Log (Socket a)) (ks @ (if EFI_ERROR status then [] else [0x0d])) s'"
        and a': "a' = ?a\<lparr>Options := if EFI_ERROR status then (Options a)\<lparr>Password := padded (edited ks)\<rparr>
          else password_set ks (Options a), Socket := s'\<rparr>"
        by (cases x) auto
      have t: "length (edited ks) \<le> 255" "cstr (padded (edited ks)) = edited ks"
        using edited_text [of ks] padded_text [of "edited ks"] by simp_all
      have wf': "wf_options (Options a')" using a' wf wf_password_set by simp
      have s': "streaming d s'" "kept_open (Socket a) s'" using prompting_kept [OF p] by simp_all
      show "case x of (status, a') \<Rightarrow> safe
        (if EFI_ERROR status then Returned (WOLFSSH_USERAUTH_FAILURE, a') else GivePassword a')
        (\<lambda>(res, a'). auth_inv d a' \<and> kept_open (Socket a) (Socket a') \<and>
          (\<forall>pw. res = WOLFSSH_USERAUTH_SUCCESS pw \<longrightarrow> length pw \<le> 255 \<and> pw = cstr (Password (Options a')) \<and>
             (\<exists>ks. pw = edited ks \<and>
               prompting d (handles (Socket a)) (Log (Socket a)) (ks @ [0x0d]) (Socket a'))))"
      proof (cases "EFI_ERROR status")
        case True
        then show ?thesis using x a' s' wf' by (simp add: auth_inv_def)
      next
        case False
        then show ?thesis using x a' s' wf' t p GivePassword_ok [OF wf']
          by (auto simp: auth_inv_def password_set_def)
      qed
    qed
    then show ?thesis using False
      by (auto simp: WolfSshUserAuthCallback_def case_prod_unfold elim!: safe_mono)
  qed
qed

section \<open>The prompts end\<close>

text \<open>The number of keys a history asked for, and the answers that end the first prompt.\<close>

definition reads :: "history \<Rightarrow> nat" where
  "reads h = length (filter (\<lambda>(c, r). c = ReadKeyStroke) h)"

definition decides :: "FIRMWARE_REPLY \<Rightarrow> bool" where
  "decides r \<longleftrightarrow> Status r \<noteq> EFI_NOT_READY \<and>
     (EFI_ERROR (Status r) \<or> says_yes (snd (KeyStroke r)) \<or> says_no (snd (KeyStroke r)))"

lemma reads_append [simp]: "reads (h @ h') = reads h + reads h'"
  by (simp add: reads_def)

lemma ReadTurn_reads:
  assumes "conforming fw" and "wf_buffer s"
  shows "ok (ReadTurn fw ConfirmKey (\<lambda>s. s) s) (\<lambda>r. case r of
      Inl s' \<Rightarrow> wf_buffer s' \<and> reads (Log s') = Suc (reads (Log s)) \<and> \<not> decides (fw (Log s) ReadKeyStroke)
    | Inr _ \<Rightarrow> True)"
proof -
  have other: "ok (invoke fw c s') (\<lambda>s''. wf_buffer s'' \<and> reads (Log s'') = reads (Log s'))"
    if "wf_buffer s'" "c \<noteq> ReadKeyStroke" for s' c
    using call_safe [OF assms(1) that(1), of c] that(2)
    by (auto simp: invoke_def ok_def called_def reads_def)
  have finish: "wf_buffer (FinishReceive s') = wf_buffer s'" "Log (FinishReceive s') = Log s'" for s'
    by (simp_all add: FinishReceive_def wf_buffer_def Let_def)
  obtain r s1 where s1: "call fw ReadKeyStroke s = Some (r, s1)" "r = fw (Log s) ReadKeyStroke"
    "wf_buffer s1" "reads (Log s1) = Suc (reads (Log s))"
    using call_safe [OF assms, of ReadKeyStroke] by (auto simp: ok_def called_def reads_def)
  have "ok (WolfSshTcp4Poll fw s1) (\<lambda>s2. wf_buffer s2 \<and> reads (Log s2) = reads (Log s1))"
    using other [OF s1(3), of Poll] s1(3) by (auto simp: WolfSshTcp4Poll_def ok_def finish)
  then obtain s2 where s2: "WolfSshTcp4Poll fw s1 = Some s2" "wf_buffer s2" "reads (Log s2) = reads (Log s1)"
    by (auto simp: ok_def)
  obtain s3 where s3: "invoke fw (Stall 5000) s2 = Some s3" "wf_buffer s3" "reads (Log s3) = reads (Log s2)"
    using other [OF s2(2), of "Stall 5000"] by (auto simp: ok_def)
  show ?thesis using s1 s2 s3 by (auto simp: ReadTurn_def ConfirmKey_eq decides_def)
qed

lemma ReadConfirmation_returns:
  assumes "conforming fw" and "wf_buffer s" and "\<And>h. n \<le> reads h \<Longrightarrow> decides (fw h ReadKeyStroke)"
  shows "\<exists>x. ReadConfirmation fw (Suc (n - reads (Log s))) s = Returned x"
  using assms(2)
proof (induction "n - reads (Log s)" arbitrary: s)
  case 0
  then have "decides (fw (Log s) ReadKeyStroke)" using assms(3) by simp
  moreover obtain q where q: "ReadTurn fw ConfirmKey (\<lambda>s. s) s = Some q"
    and "case q of Inl s' \<Rightarrow> wf_buffer s' \<and> reads (Log s') = Suc (reads (Log s)) \<and>
      \<not> decides (fw (Log s) ReadKeyStroke) | Inr _ \<Rightarrow> True"
    using ReadTurn_reads [OF assms(1) 0(2)] unfolding ok_def by blast
  ultimately obtain x where "q = Inr x" by (cases q) auto
  then show ?case using 0(1) q by (simp add: ReadConfirmation_def)
next
  case (Suc m)
  obtain r where r: "ReadTurn fw ConfirmKey (\<lambda>s. s) s = Some r"
    "case r of Inl s' \<Rightarrow> wf_buffer s' \<and> reads (Log s') = Suc (reads (Log s)) \<and>
      \<not> decides (fw (Log s) ReadKeyStroke) | Inr _ \<Rightarrow> True"
    using ReadTurn_reads [OF assms(1) Suc.prems] unfolding ok_def by blast
  show ?case
  proof (cases r)
    case (Inr x)
    then show ?thesis using r(1) by (simp add: ReadConfirmation_def)
  next
    case (Inl s')
    then have s': "wf_buffer s'" "reads (Log s') = Suc (reads (Log s))" using r(2) by simp_all
    then have "m = n - reads (Log s')" using Suc.hyps(2) by simp
    then show ?thesis using Suc.hyps(1) [of s'] s'(1) r(1) Inl Suc.hyps(2) [symmetric]
      by (simp add: ReadConfirmation_def)
  qed
qed

end
