(* ===== verification/Term_State.thy ===== *)
theory Term_State
  imports Prelude
begin

text \<open>
  The state of the terminal emulator (\<open>struct WOLFSSH_UEFI_TERMINAL\<close> of Terminal.c), the
  well-formedness invariant all its operations keep, and the two views the specifications use:
  \<open>grid\<close>, the cell shown at a position of the active screen, and \<open>dirty\<close>, the positions the
  next flush will redraw.
\<close>

unbundle bit_operations_syntax

section \<open>Data\<close>

record TERMINAL_CELL =
  Character :: CHAR16
  Attribute :: UINTN

datatype TERMINAL_PARSER_STATE =
  ParserGround | ParserEscape | ParserCsi | ParserOsc | ParserOscEscape

text \<open>
  The field \<open>Cells\<close> of the C structure is a pointer that is always one of the pointers \<open>Primary\<close>
  and \<open>Alternate\<close>: here it says which of the two buffers is meant.
\<close>

datatype SCREEN = PrimaryScreen | AlternateScreen

text \<open>
  The calls the terminal makes on \<open>gST->ConOut\<close>, the firmware's text console. Their results are
  ignored by the code, so a call is an entry in the trace \<open>ConOut\<close>.
\<close>

datatype CONSOLE_CALL =
    ClearScreen
  | EnableCursor bool
  | SetAttribute UINTN
  | SetCursorPosition UINTN UINTN
  | OutputString "CHAR16 list"

abbreviation (input) TERMINAL_MAX_PARAMS :: nat where "TERMINAL_MAX_PARAMS \<equiv> 16"
abbreviation (input) TERMINAL_REPLY_SIZE :: nat where "TERMINAL_REPLY_SIZE \<equiv> 128"

record WOLFSSH_UEFI_TERMINAL =
  Columns :: UINTN
  Rows :: UINTN
  Primary :: "TERMINAL_CELL list"
  Alternate :: "TERMINAL_CELL list"
  Cells :: SCREEN
  DirtyStart :: "nat list"
  DirtyEnd :: "nat list"
  RenderBuffer :: "CHAR16 list"
  Row :: UINTN
  Column :: UINTN
  SavedRow :: UINTN
  SavedColumn :: UINTN
  PrimaryRow :: UINTN
  PrimaryColumn :: UINTN
  ScrollTop :: UINTN
  ScrollBottom :: UINTN
  DefaultForeground :: UINTN
  DefaultBackground :: UINTN
  Foreground :: UINTN
  Background :: UINTN
  Bold :: bool
  Reverse :: bool
  CursorVisible :: bool
  ApplicationCursor :: bool
  InsertMode :: bool
  WrapPending :: bool
  AlternateActive :: bool
  ParserState :: TERMINAL_PARSER_STATE
  Parameters :: "INT32 list"
  ParameterCount :: UINTN
  PrivateCsi :: bool
  Utf8Remaining :: nat
  Utf8CodePoint :: UINT32
  Replies :: "UINT8 list"
  ReplyLength :: UINTN
  ConOut :: "CONSOLE_CALL list"

type_synonym term_state = WOLFSSH_UEFI_TERMINAL

definition console :: "CONSOLE_CALL \<Rightarrow> term_state \<Rightarrow> term_state" where
  "console c t = t\<lparr>ConOut := ConOut t @ [c]\<rparr>"

section \<open>Buffers\<close>

definition buffer :: "term_state \<Rightarrow> SCREEN \<Rightarrow> TERMINAL_CELL list" where
  "buffer t b = (case b of PrimaryScreen \<Rightarrow> Primary t | AlternateScreen \<Rightarrow> Alternate t)"

definition set_buffer :: "SCREEN \<Rightarrow> TERMINAL_CELL list \<Rightarrow> term_state \<Rightarrow> term_state" where
  "set_buffer b cs t =
     (case b of PrimaryScreen \<Rightarrow> t\<lparr>Primary := cs\<rparr> | AlternateScreen \<Rightarrow> t\<lparr>Alternate := cs\<rparr>)"

definition CellAt :: "term_state \<Rightarrow> UINTN \<Rightarrow> UINTN \<Rightarrow> UINTN" where
  "CellAt t row column = uadd (umul row (Columns t)) column"

definition ReadCell :: "term_state \<Rightarrow> UINTN \<Rightarrow> TERMINAL_CELL option" where
  "ReadCell t i = aget (buffer t (Cells t)) i"

definition WriteBuffer :: "term_state \<Rightarrow> SCREEN \<Rightarrow> UINTN \<Rightarrow> TERMINAL_CELL \<Rightarrow> term_state option" where
  "WriteBuffer t b i c = do { cs \<leftarrow> aset (buffer t b) i c; Some (set_buffer b cs t) }"

definition WriteCell :: "term_state \<Rightarrow> UINTN \<Rightarrow> TERMINAL_CELL \<Rightarrow> term_state option" where
  "WriteCell t i c = WriteBuffer t (Cells t) i c"

text \<open>\<open>CopyMem\<close> of \<open>n\<close> cells inside the active buffer.\<close>

definition CopyCells :: "term_state \<Rightarrow> UINTN \<Rightarrow> UINTN \<Rightarrow> UINTN \<Rightarrow> term_state option" where
  "CopyCells t d s n = do {
     let cs = buffer t (Cells t);
     cs' \<leftarrow> CopyMem cs d cs s n;
     Some (set_buffer (Cells t) cs' t) }"

section \<open>The invariant\<close>

definition wf_params :: "term_state \<Rightarrow> bool" where
  "wf_params t \<longleftrightarrow> length (Parameters t) = TERMINAL_MAX_PARAMS \<and>
     1 \<le> ParameterCount t \<and> ParameterCount t \<le> TERMINAL_MAX_PARAMS \<and>
     (\<forall>p \<in> set (Parameters t). -1 \<le> p \<and> p \<le> 9999999)"

definition wf_utf8 :: "term_state \<Rightarrow> bool" where
  "wf_utf8 t \<longleftrightarrow> Utf8Remaining t \<le> 3 \<and>
     (Utf8Remaining t \<noteq> 0 \<longrightarrow> ParserState t = ParserGround \<and>
        unat (Utf8CodePoint t) < 2 ^ (21 - 6 * Utf8Remaining t))"

definition wf_dirty :: "term_state \<Rightarrow> bool" where
  "wf_dirty t \<longleftrightarrow> length (DirtyStart t) = Rows t \<and> length (DirtyEnd t) = Rows t \<and>
     (\<forall>r < Rows t. DirtyStart t ! r \<le> Columns t \<and> DirtyEnd t ! r < Columns t)"

definition wf_size :: "term_state \<Rightarrow> bool" where
  "wf_size t \<longleftrightarrow> 0 < Columns t \<and> Columns t \<le> 65535 \<and> 0 < Rows t \<and> Rows t \<le> 65535 \<and>
     length (Primary t) = Rows t * Columns t \<and> length (Alternate t) = Rows t * Columns t \<and>
     length (RenderBuffer t) = Columns t + 1"

definition wf_cursor :: "term_state \<Rightarrow> bool" where
  "wf_cursor t \<longleftrightarrow> Row t < Rows t \<and> Column t < Columns t \<and>
     ScrollTop t \<le> ScrollBottom t \<and> ScrollBottom t < Rows t"

definition wf_colors :: "term_state \<Rightarrow> bool" where
  "wf_colors t \<longleftrightarrow> DefaultForeground t < 16 \<and> DefaultBackground t < 16 \<and>
     Foreground t < 16 \<and> Background t < 16"

definition textual :: "TERMINAL_CELL list \<Rightarrow> bool" where
  "textual cs \<longleftrightarrow> (\<forall>x \<in> set cs. Character x \<noteq> 0)"

text \<open>No cell holds the character 0, which would cut short the strings sent to the console.\<close>

definition wf_text :: "term_state \<Rightarrow> bool" where
  "wf_text t \<longleftrightarrow> textual (Primary t) \<and> textual (Alternate t)"

definition wf_replies :: "term_state \<Rightarrow> bool" where
  "wf_replies t \<longleftrightarrow> length (Replies t) = TERMINAL_REPLY_SIZE \<and> ReplyLength t \<le> TERMINAL_REPLY_SIZE"

definition wf_screen :: "term_state \<Rightarrow> bool" where
  "wf_screen t \<longleftrightarrow> (AlternateActive t \<longleftrightarrow> Cells t = AlternateScreen)"

definition wf_term :: "term_state \<Rightarrow> bool" where
  "wf_term t \<longleftrightarrow> wf_size t \<and> wf_cursor t \<and> wf_dirty t \<and> wf_colors t \<and> wf_params t \<and> wf_utf8 t \<and>
     wf_replies t \<and> wf_screen t \<and> wf_text t"

lemmas wf_parts = wf_term_def wf_size_def wf_cursor_def wf_dirty_def wf_colors_def wf_params_def
  wf_utf8_def wf_replies_def wf_screen_def wf_text_def

lemma wfD:
  assumes "wf_term t"
  shows "wf_size t" "wf_cursor t" "wf_dirty t" "wf_colors t" "wf_params t" "wf_utf8 t"
    "wf_replies t" "wf_screen t" "wf_text t"
  using assms by (simp_all add: wf_term_def)

lemma wfI:
  "wf_size t \<Longrightarrow> wf_cursor t \<Longrightarrow> wf_dirty t \<Longrightarrow> wf_colors t \<Longrightarrow> wf_params t \<Longrightarrow> wf_utf8 t \<Longrightarrow>
   wf_replies t \<Longrightarrow> wf_screen t \<Longrightarrow> wf_text t \<Longrightarrow> wf_term t"
  by (simp add: wf_term_def)

text \<open>The numeric part of the invariant, as facts for linear arithmetic and for \<open>simp\<close>.\<close>

lemma wf_bounds:
  assumes "wf_term t"
  shows "0 < Columns t" "Columns t \<le> 65535" "0 < Rows t" "Rows t \<le> 65535"
    "Row t < Rows t" "Column t < Columns t" "ScrollTop t \<le> ScrollBottom t"
    "ScrollBottom t < Rows t"
  using wfD(1,2) [OF assms] by (simp_all add: wf_size_def wf_cursor_def)

lemma wf_lengths [simp]:
  assumes "wf_term t"
  shows "length (buffer t b) = Rows t * Columns t"
    "length (DirtyStart t) = Rows t" "length (DirtyEnd t) = Rows t"
    "length (RenderBuffer t) = Columns t + 1"
    "length (Parameters t) = 16" "length (Replies t) = 128"
proof -
  note parts = wfD(1,3,5,7) [OF assms]
  show "length (buffer t b) = Rows t * Columns t"
    using parts(1) by (cases b) (simp_all add: wf_size_def buffer_def)
  show "length (DirtyStart t) = Rows t" "length (DirtyEnd t) = Rows t"
    using parts(2) by (simp_all add: wf_dirty_def)
  show "length (RenderBuffer t) = Columns t + 1" using parts(1) by (simp add: wf_size_def)
  show "length (Parameters t) = 16" using parts(3) by (simp add: wf_params_def)
  show "length (Replies t) = 128" using parts(4) by (simp add: wf_replies_def)
qed

lemma wf_dirtyD:
  assumes "wf_term t" and "r < Rows t"
  shows "DirtyStart t ! r \<le> Columns t" and "DirtyEnd t ! r < Columns t"
  using wfD(3) [OF assms(1)] assms(2) by (simp_all add: wf_dirty_def)

section \<open>Views\<close>

definition on_screen :: "term_state \<Rightarrow> nat \<Rightarrow> nat \<Rightarrow> bool" where
  "on_screen t r c \<longleftrightarrow> r < Rows t \<and> c < Columns t"

definition blank :: "UINTN \<Rightarrow> TERMINAL_CELL" where
  "blank a = \<lparr>Character = 32, Attribute = a\<rparr>"

definition grid_of :: "nat \<Rightarrow> nat \<Rightarrow> TERMINAL_CELL list \<Rightarrow> nat \<Rightarrow> nat \<Rightarrow> TERMINAL_CELL" where
  "grid_of rows cols cs r c = (if r < rows \<and> c < cols then cs ! (r * cols + c) else blank 0)"

definition grid :: "term_state \<Rightarrow> nat \<Rightarrow> nat \<Rightarrow> TERMINAL_CELL" where
  "grid t = grid_of (Rows t) (Columns t) (buffer t (Cells t))"

definition dirty :: "term_state \<Rightarrow> nat \<Rightarrow> nat \<Rightarrow> bool" where
  "dirty t r c \<longleftrightarrow> r < Rows t \<and> DirtyStart t ! r \<le> c \<and> c \<le> DirtyEnd t ! r"

text \<open>The grid \<open>g\<close> with the cells of the screen that satisfy \<open>P\<close> replaced.\<close>

definition overlay ::
  "term_state \<Rightarrow> (nat \<Rightarrow> nat \<Rightarrow> bool) \<Rightarrow> (nat \<Rightarrow> nat \<Rightarrow> TERMINAL_CELL) \<Rightarrow> nat \<Rightarrow> nat \<Rightarrow> TERMINAL_CELL" where
  "overlay t P f r c = (if on_screen t r c \<and> P r c then f r c else grid t r c)"

text \<open>Row-major indexing: distinct positions have distinct indices, all inside the buffer.\<close>

lemma cell_index_lt:
  assumes "r < (R::nat)" and "c < (C::nat)"
  shows "r * C + c < R * C"
proof -
  have "r * C + c < Suc r * C" using assms(2) by simp
  also have "\<dots> \<le> R * C" using assms(1) by (intro mult_le_mono1) simp
  finally show ?thesis .
qed

lemma cell_index_eq:
  assumes "c < (C::nat)" and "c' < C"
  shows "r * C + c = r' * C + c' \<longleftrightarrow> r = r' \<and> c = c'"
proof
  assume e: "r * C + c = r' * C + c'"
  have "(r * C + c) div C = r" "(r' * C + c') div C = r'" using assms by simp_all
  with e show "r = r' \<and> c = c'" by auto
qed simp

lemma cell_index_row:
  assumes "c < (C::nat)" and "c' < C"
  shows "r * C \<le> r' * C + c' \<and> r' * C + c' < r * C + C \<longleftrightarrow> r = r'"
proof
  assume e: "r * C \<le> r' * C + c' \<and> r' * C + c' < r * C + C"
  then have "r * C < Suc r' * C" and "r' * C < Suc r * C" using assms(2) by auto
  then have "r < Suc r'" and "r' < Suc r" by (simp_all only: mult_less_cancel2)
  then show "r = r'" by simp
next
  assume "r = r'"
  then show "r * C \<le> r' * C + c' \<and> r' * C + c' < r * C + C" using assms by simp
qed

lemma wf_area_lt:
  assumes "wf_term t"
  shows "Rows t * Columns t < 2 ^ 64"
proof -
  have "Rows t * Columns t \<le> 65535 * 65535"
    using wf_bounds [OF assms] by (intro mult_le_mono) simp_all
  then show ?thesis by simp
qed

text \<open>A buffer whose cells all hold a character, seen through the grid.\<close>

lemma wf_textual [simp]: "wf_term t \<Longrightarrow> textual (buffer t b)"
  using wfD(9) by (simp add: wf_text_def buffer_def split: SCREEN.splits)

lemma grid_of_text: "textual cs \<Longrightarrow> length cs = R * C \<Longrightarrow> Character (grid_of R C cs r c) \<noteq> 0"
  using cell_index_lt [of r R c C] by (auto simp: grid_of_def textual_def blank_def)

lemma grid_text [simp]: "wf_term t \<Longrightarrow> Character (grid t r c) \<noteq> 0"
  by (simp add: grid_def grid_of_text)

lemma textual_grid:
  assumes "length cs = R * C" and "\<And>r c. Character (grid_of R C cs r c) \<noteq> 0"
  shows "textual cs"
proof -
  have "Character (cs ! i) \<noteq> 0" if "i < R * C" for i
  proof -
    have "i div C < R" using that by (simp add: less_mult_imp_div_less)
    moreover have "0 < C" using that by (cases C) simp_all
    ultimately show ?thesis using assms(2) [of "i div C" "i mod C"] by (simp add: grid_of_def)
  qed
  then show ?thesis using assms(1) by (auto simp: textual_def in_set_conv_nth)
qed

lemma textual_replicate [simp]: "Character x \<noteq> 0 \<Longrightarrow> textual (replicate n x)"
  by (simp add: textual_def)

lemma blank_text [simp]: "Character (blank a) \<noteq> 0"
  by (simp add: blank_def)

lemma CellAt_eq:
  assumes "wf_term t" and "r < Rows t" and "c < Columns t"
  shows "CellAt t r c = r * Columns t + c" and "CellAt t r c < Rows t * Columns t"
proof -
  have l: "r * Columns t + c < Rows t * Columns t" by (rule cell_index_lt) fact+
  moreover have "r * Columns t < 2 ^ 64" "r * Columns t + c < 2 ^ 64"
    using l wf_area_lt [OF assms(1)] by linarith+
  ultimately show "CellAt t r c = r * Columns t + c" by (simp add: CellAt_def)
  with l show "CellAt t r c < Rows t * Columns t" by simp
qed

section \<open>Painting: what the cell operations may change\<close>

text \<open>
  \<open>painted cs ds de t\<close> is \<open>t\<close> with a new active buffer and new dirty ranges. An operation that
  only paints has a result of this form, so every other field is unchanged by construction.
\<close>

definition painted ::
  "TERMINAL_CELL list \<Rightarrow> nat list \<Rightarrow> nat list \<Rightarrow> term_state \<Rightarrow> term_state" where
  "painted cs ds de t = (set_buffer (Cells t) cs t)\<lparr>DirtyStart := ds, DirtyEnd := de\<rparr>"

lemma set_buffer_simps [simp]:
  "Columns (set_buffer b cs t) = Columns t" "Rows (set_buffer b cs t) = Rows t"
  "Cells (set_buffer b cs t) = Cells t" "DirtyStart (set_buffer b cs t) = DirtyStart t"
  "DirtyEnd (set_buffer b cs t) = DirtyEnd t" "RenderBuffer (set_buffer b cs t) = RenderBuffer t"
  "Row (set_buffer b cs t) = Row t" "Column (set_buffer b cs t) = Column t"
  "SavedRow (set_buffer b cs t) = SavedRow t" "SavedColumn (set_buffer b cs t) = SavedColumn t"
  "PrimaryRow (set_buffer b cs t) = PrimaryRow t"
  "PrimaryColumn (set_buffer b cs t) = PrimaryColumn t"
  "ScrollTop (set_buffer b cs t) = ScrollTop t" "ScrollBottom (set_buffer b cs t) = ScrollBottom t"
  "DefaultForeground (set_buffer b cs t) = DefaultForeground t"
  "DefaultBackground (set_buffer b cs t) = DefaultBackground t"
  "Foreground (set_buffer b cs t) = Foreground t" "Background (set_buffer b cs t) = Background t"
  "Bold (set_buffer b cs t) = Bold t" "Reverse (set_buffer b cs t) = Reverse t"
  "CursorVisible (set_buffer b cs t) = CursorVisible t"
  "ApplicationCursor (set_buffer b cs t) = ApplicationCursor t"
  "InsertMode (set_buffer b cs t) = InsertMode t" "WrapPending (set_buffer b cs t) = WrapPending t"
  "AlternateActive (set_buffer b cs t) = AlternateActive t"
  "ParserState (set_buffer b cs t) = ParserState t" "Parameters (set_buffer b cs t) = Parameters t"
  "ParameterCount (set_buffer b cs t) = ParameterCount t"
  "PrivateCsi (set_buffer b cs t) = PrivateCsi t"
  "Utf8Remaining (set_buffer b cs t) = Utf8Remaining t"
  "Utf8CodePoint (set_buffer b cs t) = Utf8CodePoint t"
  "Replies (set_buffer b cs t) = Replies t" "ReplyLength (set_buffer b cs t) = ReplyLength t"
  "ConOut (set_buffer b cs t) = ConOut t"
  by (simp_all add: set_buffer_def split: SCREEN.splits)

lemma buffer_set_buffer [simp]:
  "buffer (set_buffer b cs t) b' = (if b' = b then cs else buffer t b')"
  by (simp add: buffer_def set_buffer_def split: SCREEN.splits)

lemma set_buffer_twice [simp]: "set_buffer b cs (set_buffer b cs' t) = set_buffer b cs t"
  by (simp add: set_buffer_def split: SCREEN.splits)

lemma set_buffer_same [simp]: "set_buffer b (buffer t b) t = t"
  by (simp add: buffer_def set_buffer_def split: SCREEN.splits)

lemma buffer_dirty_update [simp]:
  "buffer (t\<lparr>DirtyStart := ds\<rparr>) b = buffer t b" "buffer (t\<lparr>DirtyEnd := de\<rparr>) b = buffer t b"
  by (simp_all add: buffer_def split: SCREEN.splits)

lemma set_buffer_dirty [simp]:
  "set_buffer b cs (t\<lparr>DirtyStart := ds\<rparr>) = (set_buffer b cs t)\<lparr>DirtyStart := ds\<rparr>"
  "set_buffer b cs (t\<lparr>DirtyEnd := de\<rparr>) = (set_buffer b cs t)\<lparr>DirtyEnd := de\<rparr>"
  by (simp_all add: set_buffer_def split: SCREEN.splits)

lemma painted_simps [simp]:
  "Columns (painted cs ds de t) = Columns t" "Rows (painted cs ds de t) = Rows t"
  "Cells (painted cs ds de t) = Cells t" "DirtyStart (painted cs ds de t) = ds"
  "DirtyEnd (painted cs ds de t) = de" "RenderBuffer (painted cs ds de t) = RenderBuffer t"
  "Row (painted cs ds de t) = Row t" "Column (painted cs ds de t) = Column t"
  "SavedRow (painted cs ds de t) = SavedRow t" "SavedColumn (painted cs ds de t) = SavedColumn t"
  "PrimaryRow (painted cs ds de t) = PrimaryRow t"
  "PrimaryColumn (painted cs ds de t) = PrimaryColumn t"
  "ScrollTop (painted cs ds de t) = ScrollTop t"
  "ScrollBottom (painted cs ds de t) = ScrollBottom t"
  "DefaultForeground (painted cs ds de t) = DefaultForeground t"
  "DefaultBackground (painted cs ds de t) = DefaultBackground t"
  "Foreground (painted cs ds de t) = Foreground t" "Background (painted cs ds de t) = Background t"
  "Bold (painted cs ds de t) = Bold t" "Reverse (painted cs ds de t) = Reverse t"
  "CursorVisible (painted cs ds de t) = CursorVisible t"
  "ApplicationCursor (painted cs ds de t) = ApplicationCursor t"
  "InsertMode (painted cs ds de t) = InsertMode t"
  "WrapPending (painted cs ds de t) = WrapPending t"
  "AlternateActive (painted cs ds de t) = AlternateActive t"
  "ParserState (painted cs ds de t) = ParserState t"
  "Parameters (painted cs ds de t) = Parameters t"
  "ParameterCount (painted cs ds de t) = ParameterCount t"
  "PrivateCsi (painted cs ds de t) = PrivateCsi t"
  "Utf8Remaining (painted cs ds de t) = Utf8Remaining t"
  "Utf8CodePoint (painted cs ds de t) = Utf8CodePoint t"
  "Replies (painted cs ds de t) = Replies t" "ReplyLength (painted cs ds de t) = ReplyLength t"
  "ConOut (painted cs ds de t) = ConOut t"
  by (simp_all add: painted_def)

lemma buffer_painted [simp]:
  "buffer (painted cs ds de t) b = (if b = Cells t then cs else buffer t b)"
  by (simp add: painted_def)

lemma painted_twice [simp]: "painted cs ds de (painted cs' ds' de' t) = painted cs ds de t"
  by (simp add: painted_def)

lemma painted_same: "painted (buffer t (Cells t)) (DirtyStart t) (DirtyEnd t) t = t"
  by (simp add: painted_def)

text \<open>The relation between a state and a state that differs from it by painting only.\<close>

definition frame :: "term_state \<Rightarrow> term_state \<Rightarrow> bool" where
  "frame t t' \<longleftrightarrow> (\<exists>cs ds de. t' = painted cs ds de t \<and> length cs = length (buffer t (Cells t)) \<and>
     textual cs \<and> wf_dirty t' \<and> (\<forall>r c. dirty t r c \<longrightarrow> dirty t' r c))"

lemma frame_refl: "wf_term t \<Longrightarrow> frame t t"
  unfolding frame_def by (metis painted_same wfD(3) wf_textual)

lemma frame_trans: "frame t t' \<Longrightarrow> frame t' t'' \<Longrightarrow> frame t t''"
  unfolding frame_def by (elim exE conjE) (simp, blast)

lemma frame_wf: "wf_term t \<Longrightarrow> frame t t' \<Longrightarrow> wf_term t'"
  unfolding frame_def
proof (elim exE conjE)
  fix cs ds de
  assume "wf_term t" and t': "t' = painted cs ds de t" and len: "length cs = length (buffer t (Cells t))"
    and d: "wf_dirty t'" and x: "textual cs"
  have "length (Primary t') = Rows t * Columns t \<and> length (Alternate t') = Rows t * Columns t"
    using wf_lengths(1) [OF \<open>wf_term t\<close>, of PrimaryScreen] wf_lengths(1) [OF \<open>wf_term t\<close>, of AlternateScreen]
      len \<open>wf_term t\<close>
    by (auto simp: t' painted_def set_buffer_def buffer_def split: SCREEN.splits)
  then have "wf_size t'" using wfD(1) [OF \<open>wf_term t\<close>] by (simp add: t' wf_size_def)
  moreover have "wf_cursor t'" "wf_colors t'" "wf_params t'" "wf_utf8 t'" "wf_replies t'"
    "wf_screen t'"
    using wfD [OF \<open>wf_term t\<close>] unfolding wf_cursor_def wf_colors_def wf_params_def wf_utf8_def
      wf_replies_def wf_screen_def t' painted_simps by simp_all
  moreover have "wf_text t'"
    using wfD(9) [OF \<open>wf_term t\<close>] x
    by (auto simp: t' wf_text_def painted_def set_buffer_def split: SCREEN.splits)
  ultimately show "wf_term t'" using d by (intro wfI)
qed

lemma frame_sel:
  assumes "frame t t'"
  shows "Columns t' = Columns t" "Rows t' = Rows t" "Cells t' = Cells t" "Row t' = Row t"
    "Column t' = Column t" "ScrollTop t' = ScrollTop t" "ScrollBottom t' = ScrollBottom t"
    "Foreground t' = Foreground t" "Background t' = Background t" "Bold t' = Bold t"
    "Reverse t' = Reverse t" "InsertMode t' = InsertMode t" "WrapPending t' = WrapPending t"
    "Utf8Remaining t' = Utf8Remaining t" "ParserState t' = ParserState t"
    "Utf8CodePoint t' = Utf8CodePoint t" "ConOut t' = ConOut t"
    "AlternateActive t' = AlternateActive t" "PrimaryRow t' = PrimaryRow t"
    "PrimaryColumn t' = PrimaryColumn t" "SavedRow t' = SavedRow t"
    "SavedColumn t' = SavedColumn t" "RenderBuffer t' = RenderBuffer t"
    "Parameters t' = Parameters t" "ParameterCount t' = ParameterCount t"
    "PrivateCsi t' = PrivateCsi t" "Replies t' = Replies t" "ReplyLength t' = ReplyLength t"
    "DefaultForeground t' = DefaultForeground t" "DefaultBackground t' = DefaultBackground t"
    "CursorVisible t' = CursorVisible t" "ApplicationCursor t' = ApplicationCursor t"
    "on_screen t' = on_screen t"
  using assms by (auto simp: frame_def on_screen_def fun_eq_iff)

lemma frame_dirty: "frame t t' \<Longrightarrow> dirty t r c \<Longrightarrow> dirty t' r c"
  by (auto simp: frame_def)

end
