(* ===== verification/Term_Cells.thy ===== *)
theory Term_Cells
  imports Term_State
begin

text \<open>
  The operations on the cells of the active screen: attribute computation, dirty tracking, filling,
  clearing and moving whole rows. Every operation has a specification of the same form: it performs
  no access outside an array, it changes nothing but cells and dirty ranges (\<open>frame\<close>), every cell
  it changes is dirty afterwards (\<open>drawn\<close>), and the new grid is stated position by position.
\<close>

unbundle bit_operations_syntax

section \<open>Attributes\<close>

definition EFI_TEXT_ATTR :: "UINTN \<Rightarrow> UINTN \<Rightarrow> UINTN" where
  "EFI_TEXT_ATTR foreground background = foreground OR push_bit 4 background"

definition TerminalAttribute :: "term_state \<Rightarrow> UINTN" where
  "TerminalAttribute t =
     (let foreground = (if Bold t \<and> Foreground t < 8 then uadd (Foreground t) 8 else Foreground t);
          background = Background t;
          (foreground', background') =
            (if Reverse t then (background, foreground) else (foreground, background))
      in EFI_TEXT_ATTR (foreground' AND 0x0f) (background' AND 0x07))"

lemma and_15: "(n::nat) AND 15 = n mod 16"
  using take_bit_eq_mask [of 4 n] by (simp add: take_bit_eq_mod mask_eq_exp_minus_1)

lemma and_7: "(n::nat) AND 7 = n mod 8"
  using take_bit_eq_mask [of 3 n] by (simp add: take_bit_eq_mod mask_eq_exp_minus_1)

lemma EFI_TEXT_ATTR_add: "f < 16 \<Longrightarrow> EFI_TEXT_ATTR f b = f + 16 * b"
proof -
  assume "f < 16"
  then have "take_bit 4 f = f" by (simp add: take_bit_nat_eq_self_iff)
  moreover have "take_bit 4 f + push_bit 4 b = (take_bit 4 f OR push_bit 4 b)"
    by (rule disjunctive_add_eq_or) (simp add: bit_eq_iff bit_simps not_le)
  ultimately show ?thesis by (simp add: EFI_TEXT_ATTR_def push_bit_eq_mult)
qed

lemma TerminalAttribute_eq:
  "TerminalAttribute t =
     (let foreground = (if Bold t \<and> Foreground t < 8 then Foreground t + 8 else Foreground t)
      in if Reverse t then Background t mod 16 + 16 * (foreground mod 8)
         else foreground mod 16 + 16 * (Background t mod 8))"
  by (simp add: TerminalAttribute_def and_15 and_7 EFI_TEXT_ATTR_add Let_def)

lemma TerminalAttribute_painted [simp]:
  "TerminalAttribute (painted cs ds de t) = TerminalAttribute t"
  by (simp add: TerminalAttribute_eq Let_def)

lemma TerminalAttribute_frame: "frame t t' \<Longrightarrow> TerminalAttribute t' = TerminalAttribute t"
  by (simp add: TerminalAttribute_eq frame_sel Let_def)

section \<open>Single cells\<close>

lemma CellAt_painted [simp]: "CellAt (painted cs ds de t) r c = CellAt t r c"
  by (simp add: CellAt_def)

lemma set_buffer_painted [simp]:
  "set_buffer (Cells t) cs (painted cs' ds de t) = painted cs ds de t"
  by (simp add: painted_def)

lemma WriteCell_painted [simp]:
  "i < length cs \<Longrightarrow> WriteCell (painted cs ds de t) i x = Some (painted (cs[i := x]) ds de t)"
  by (simp add: WriteCell_def WriteBuffer_def)

lemma ReadCell_painted [simp]:
  "i < length cs \<Longrightarrow> ReadCell (painted cs ds de t) i = Some (cs ! i)"
  by (simp add: ReadCell_def)

lemma grid_painted [simp]:
  "grid (painted cs ds de t) = grid_of (Rows t) (Columns t) cs"
  by (simp add: grid_def)

lemma grid_of_update:
  assumes "r < R" and "c < C" and "length cs = R * C"
  shows "grid_of R C (cs[r * C + c := x]) =
    (\<lambda>r' c'. if r' = r \<and> c' = c then x else grid_of R C cs r' c')"
proof (intro ext)
  fix r' c'
  have "r * C + c < length cs" using cell_index_lt [OF assms(1,2)] assms(3) by simp
  then show "grid_of R C (cs[r * C + c := x]) r' c' =
      (if r' = r \<and> c' = c then x else grid_of R C cs r' c')"
    using assms cell_index_eq [of c C c' r r'] by (auto simp: grid_of_def nth_list_update)
qed

lemma grid_of_copy_row:
  assumes "d < R" and "s < R" and "0 < C" and "length cs = R * C"
  shows "ok (CopyMem cs (d * C) cs (s * C) C) (\<lambda>cs'. length cs' = R * C \<and>
     grid_of R C cs' = (\<lambda>r c. grid_of R C cs (if r = d then s else r) c))"
proof -
  have room: "x * C + C \<le> length cs" if "x < R" for x
    using cell_index_lt [OF that, of "C - 1" C] assms(3,4) by simp
  have "grid_of R C cs' r c = grid_of R C cs (if r = d then s else r) c"
    if len: "length cs' = length cs"
      and nth: "\<forall>i < length cs. cs' ! i = (if d * C \<le> i \<and> i < d * C + C
        then cs ! (s * C + (i - d * C)) else cs ! i)" for cs' r c
  proof (cases "r < R \<and> c < C")
    case True
    then have "r * C + c < length cs" using cell_index_lt [of r R c C] assms(4) by simp
    with nth have "cs' ! (r * C + c) = (if d * C \<le> r * C + c \<and> r * C + c < d * C + C
        then cs ! (s * C + (r * C + c - d * C)) else cs ! (r * C + c))" by blast
    also have "d * C \<le> r * C + c \<and> r * C + c < d * C + C \<longleftrightarrow> d = r"
      using cell_index_row [of 0 C c d r] True by simp
    finally show ?thesis using True assms(2) by (auto simp: grid_of_def)
  next
    case False
    then show ?thesis using assms(1,2) by (auto simp: grid_of_def)
  qed
  then have "grid_of R C cs' = (\<lambda>r c. grid_of R C cs (if r = d then s else r) c)"
    if "length cs' = length cs \<and> (\<forall>i < length cs. cs' ! i = (if d * C \<le> i \<and> i < d * C + C
        then cs ! (s * C + (i - d * C)) else cs ! i))" for cs'
    using that by (intro ext) blast
  moreover have "ok (CopyMem cs (d * C) cs (s * C) C) (\<lambda>cs'. length cs' = length cs \<and>
      (\<forall>i < length cs. cs' ! i = (if d * C \<le> i \<and> i < d * C + C
        then cs ! (s * C + (i - d * C)) else cs ! i)))"
    by (rule CopyMem_nth) (use room assms in auto)
  ultimately show ?thesis using assms(4) by (elim ok_mono) simp
qed

section \<open>Dirty ranges\<close>

definition MarkDirty :: "term_state \<Rightarrow> UINTN \<Rightarrow> UINTN \<Rightarrow> UINTN \<Rightarrow> term_state option" where
  "MarkDirty t row start end =
     (if row \<ge> Rows t \<or> start \<ge> Columns t then Some t
      else do {
        let end = min end (usub (Columns t) 1);
        ds \<leftarrow> aget (DirtyStart t) row;
        starts \<leftarrow> aset (DirtyStart t) row (UINT16_cast (min ds start));
        de \<leftarrow> aget (DirtyEnd t) row;
        ends \<leftarrow> aset (DirtyEnd t) row (UINT16_cast (max de end));
        Some (t\<lparr>DirtyStart := starts, DirtyEnd := ends\<rparr>) })"

definition MarkDirtyRows :: "term_state \<Rightarrow> UINTN \<Rightarrow> UINTN \<Rightarrow> term_state option" where
  "MarkDirtyRows t first final =
     (let final = min final (usub (Rows t) 1)
      in for_below first (Suc final) (\<lambda>row t. MarkDirty t row 0 (usub (Columns t) 1)) t)"

text \<open>\<open>drawn t t'\<close>: \<open>t'\<close> comes from \<open>t\<close> by painting, and everything that looks different is dirty.\<close>

definition drawn :: "term_state \<Rightarrow> term_state \<Rightarrow> bool" where
  "drawn t t' \<longleftrightarrow> frame t t' \<and> (\<forall>r c. grid t' r c \<noteq> grid t r c \<longrightarrow> dirty t' r c)"

lemma drawn_frame: "drawn t t' \<Longrightarrow> frame t t'"
  by (simp add: drawn_def)

lemma drawn_refl: "wf_term t \<Longrightarrow> drawn t t"
  by (simp add: drawn_def frame_refl)

lemma drawn_trans: "drawn t t' \<Longrightarrow> drawn t' t'' \<Longrightarrow> drawn t t''"
  unfolding drawn_def by (metis frame_dirty frame_trans)

lemma drawn_wf: "wf_term t \<Longrightarrow> drawn t t' \<Longrightarrow> wf_term t'"
  by (blast intro: frame_wf drawn_frame)

lemma wf_painted_dirty:
  assumes "wf_term t" and "length cs = Rows t * Columns t" and "length ds = Rows t" and "length de = Rows t"
    and "textual cs"
    and "\<And>r. r < Rows t \<Longrightarrow> ds ! r \<le> DirtyStart t ! r"
    and "\<And>r. r < Rows t \<Longrightarrow> DirtyEnd t ! r \<le> de ! r \<and> de ! r < Columns t"
  shows "frame t (painted cs ds de t)"
  unfolding frame_def
proof (intro exI conjI allI impI)
  show "wf_dirty (painted cs ds de t)"
    using assms wf_dirtyD(1) [OF assms(1)] by (auto simp: wf_dirty_def intro: order_trans)
  show "dirty (painted cs ds de t) r c" if "dirty t r c" for r c
    using that assms(6,7) by (auto simp: dirty_def intro: order_trans)
qed (use assms in simp_all)

lemma MarkDirty_ok:
  assumes "wf_term t"
  shows "ok (MarkDirty t row start end) (\<lambda>t'. drawn t t' \<and> grid t' = grid t \<and>
    (row < Rows t \<longrightarrow> (\<forall>c. start \<le> c \<and> c \<le> end \<and> c < Columns t \<longrightarrow> dirty t' row c)))"
proof (cases "row \<ge> Rows t \<or> start \<ge> Columns t")
  case True
  then show ?thesis using drawn_refl [OF assms] by (auto simp: MarkDirty_def)
next
  case False
  note b = wf_bounds [OF assms] and d = wf_dirtyD [OF assms, of row]
  let ?s = "min (DirtyStart t ! row) start"
  let ?e = "max (DirtyEnd t ! row) (min end (Columns t - 1))"
  let ?ds = "(DirtyStart t)[row := ?s]" and ?de = "(DirtyEnd t)[row := ?e]"
  let ?t = "painted (buffer t (Cells t)) ?ds ?de t"
  have eq: "MarkDirty t row start end = Some ?t"
    using False b d assms by (simp add: MarkDirty_def painted_def)
  have "frame t ?t"
    by (rule wf_painted_dirty [OF assms])
      (use False b d assms wf_dirtyD [OF assms] in \<open>auto simp: nth_list_update\<close>)
  moreover have "grid ?t = grid t" by (simp add: grid_def)
  moreover have "dirty ?t row c" if "start \<le> c" "c \<le> end" "c < Columns t" for c
    using False that assms by (auto simp: dirty_def)
  ultimately show ?thesis by (simp add: eq drawn_def)
qed

lemma MarkDirtyRows_ok:
  assumes "wf_term t"
  shows "ok (MarkDirtyRows t first final) (\<lambda>t'. drawn t t' \<and> grid t' = grid t \<and>
    (\<forall>r c. first \<le> r \<and> r \<le> final \<and> on_screen t r c \<longrightarrow> dirty t' r c))"
proof -
  let ?n = "Suc (min final (Rows t - 1))"
  let ?I = "\<lambda>j t'. drawn t t' \<and> grid t' = grid t \<and>
    (\<forall>r c. first \<le> r \<and> r < j \<and> r \<le> final \<and> on_screen t r c \<longrightarrow> dirty t' r c)"
  have "ok (for_below first ?n (\<lambda>row t. MarkDirty t row 0 (usub (Columns t) 1)) t) (?I (max first ?n))"
  proof (rule for_below_ok)
    show "?I first t" using drawn_refl [OF assms] by auto
  next
    fix j s
    assume I: "?I j s" and j: "first \<le> j" "j < ?n"
    have wf_term: "wf_term s" using I assms drawn_wf by blast
    have sel: "Rows s = Rows t" "Columns s = Columns t" using I by (simp_all add: drawn_def frame_sel)
    show "ok (MarkDirty s j 0 (usub (Columns s) 1)) (?I (Suc j))"
      by (rule ok_mono [OF MarkDirty_ok [OF wf_term]])
        (use I wf_bounds [OF assms] j in \<open>auto simp: sel on_screen_def less_Suc_eq
           intro: drawn_trans frame_dirty dest: drawn_frame\<close>)
  qed
  moreover have "usub (Rows t) 1 = Rows t - 1" using wf_bounds [OF assms] by simp
  ultimately show ?thesis
    unfolding MarkDirtyRows_def Let_def by (simp, elim ok_mono) (auto simp: on_screen_def)
qed

section \<open>Filling\<close>

definition FillCells ::
  "term_state \<Rightarrow> UINTN \<Rightarrow> UINTN \<Rightarrow> UINTN \<Rightarrow> UINTN \<Rightarrow> term_state option" where
  "FillCells t row start end attribute =
     (if row \<ge> Rows t \<or> start \<ge> Columns t then Some t
      else do {
        let end = min end (usub (Columns t) 1);
        t \<leftarrow> for_below start (Suc end)
               (\<lambda>column t. WriteCell t (CellAt t row column) (blank attribute)) t;
        MarkDirty t row start end })"

text \<open>The loop \<open>for (Row = first; Row < n; Row++) FillCells (Row, 0, Columns - 1)\<close>.\<close>

definition FillRows :: "term_state \<Rightarrow> UINTN \<Rightarrow> UINTN \<Rightarrow> UINTN \<Rightarrow> term_state option" where
  "FillRows t first n attribute =
     for_below first n (\<lambda>row t. FillCells t row 0 (usub (Columns t) 1) attribute) t"

definition ClearBuffer :: "term_state \<Rightarrow> SCREEN \<Rightarrow> term_state option" where
  "ClearBuffer t b =
     (let attribute = EFI_TEXT_ATTR (DefaultForeground t) (DefaultBackground t)
      in for_below 0 (umul (Rows t) (Columns t)) (\<lambda>i t. WriteBuffer t b i (blank attribute)) t)"

lemma FillCells_ok:
  assumes "wf_term t"
  shows "ok (FillCells t row start end a) (\<lambda>t'. drawn t t' \<and>
    grid t' = overlay t (\<lambda>r c. r = row \<and> start \<le> c \<and> c \<le> end) (\<lambda>_ _. blank a) \<and>
    (\<forall>c. start \<le> c \<and> c \<le> end \<and> on_screen t row c \<longrightarrow> dirty t' row c))"
proof (cases "row \<ge> Rows t \<or> start \<ge> Columns t")
  case True
  then show ?thesis using drawn_refl [OF assms]
    by (auto simp: FillCells_def overlay_def on_screen_def fun_eq_iff)
next
  case False
  let ?n = "Suc (min end (Columns t - 1))"
  let ?p = "\<lambda>cs. painted cs (DirtyStart t) (DirtyEnd t) t"
  let ?body = "\<lambda>column t. WriteCell t (CellAt t row column) (blank a)"
  let ?I = "\<lambda>j t'. \<exists>cs. t' = ?p cs \<and> length cs = Rows t * Columns t \<and>
    grid_of (Rows t) (Columns t) cs =
      (\<lambda>r c. if r = row \<and> start \<le> c \<and> c < j then blank a else grid t r c)"
  have "ok (for_below start ?n ?body t) (?I (max start ?n))"
  proof (rule for_below_ok)
    show "?I start t"
      by (intro exI [of _ "buffer t (Cells t)"]) (use assms in \<open>auto simp: painted_same grid_def fun_eq_iff\<close>)
  next
    fix j s
    assume j: "start \<le> j" "j < ?n" and "?I j s"
    then obtain cs where s: "s = ?p cs" and len: "length cs = Rows t * Columns t"
      and g: "grid_of (Rows t) (Columns t) cs =
        (\<lambda>r c. if r = row \<and> start \<le> c \<and> c < j then blank a else grid t r c)" by blast
    have "row < Rows t" "j < Columns t" using False j wf_bounds [OF assms] by auto
    note i = CellAt_eq [OF assms this] and u = grid_of_update [OF this len, of "blank a"]
    have "?body j s = Some (?p (cs[row * Columns t + j := blank a]))"
      using i len by (simp add: s)
    moreover have "?I (Suc j) (?p (cs[row * Columns t + j := blank a]))"
      by (intro exI [of _ "cs[row * Columns t + j := blank a]"])
        (use len u g j in \<open>auto simp: fun_eq_iff less_Suc_eq\<close>)
    ultimately show "ok (?body j s) (?I (Suc j))" by simp
  qed
  then obtain t1 cs where t1: "for_below start ?n ?body t = Some t1" "t1 = ?p cs"
    and len: "length cs = Rows t * Columns t"
    and g: "grid_of (Rows t) (Columns t) cs =
      (\<lambda>r c. if r = row \<and> start \<le> c \<and> c < max start ?n then blank a else grid t r c)"
    by (auto elim: okE)
  have "textual cs" by (rule textual_grid [OF len]) (simp add: g assms)
  then have fr: "frame t t1" unfolding t1(2)
    by (intro wf_painted_dirty [OF assms]) (use assms len wf_dirtyD [OF assms] in auto)
  have wf1: "wf_term t1" using frame_wf [OF assms fr] .
  have gt: "grid t1 = overlay t (\<lambda>r c. r = row \<and> start \<le> c \<and> c \<le> end) (\<lambda>_ _. blank a)"
    using False wf_bounds [OF assms]
    by (auto simp: t1(2) g fun_eq_iff overlay_def on_screen_def grid_def grid_of_def)
  have eq: "FillCells t row start end a = MarkDirty t1 row start (min end (Columns t - 1))"
    using False wf_bounds [OF assms] t1(1) by (simp add: FillCells_def)
  show ?thesis unfolding eq
    by (rule ok_mono [OF MarkDirty_ok [OF wf1]])
      (use fr gt False in \<open>auto simp: drawn_def overlay_def on_screen_def frame_sel [OF fr]
         intro: frame_trans split: if_splits\<close>)
qed

lemma FillRows_ok:
  assumes "wf_term t"
  shows "ok (FillRows t first n a) (\<lambda>t'. drawn t t' \<and>
    grid t' = overlay t (\<lambda>r c. first \<le> r \<and> r < n) (\<lambda>_ _. blank a) \<and>
    (\<forall>r c. first \<le> r \<and> r < n \<and> on_screen t r c \<longrightarrow> dirty t' r c))"
proof -
  let ?I = "\<lambda>j t'. drawn t t' \<and>
    grid t' = overlay t (\<lambda>r c. first \<le> r \<and> r < j) (\<lambda>_ _. blank a) \<and>
    (\<forall>r c. first \<le> r \<and> r < j \<and> on_screen t r c \<longrightarrow> dirty t' r c)"
  have "ok (FillRows t first n a) (?I (max first n))"
    unfolding FillRows_def
  proof (rule for_below_ok)
    show "?I first t" using drawn_refl [OF assms] by (auto simp: overlay_def fun_eq_iff)
  next
    fix j s
    assume I: "?I j s" and j: "first \<le> j" "j < n"
    have wf_term: "wf_term s" using I assms drawn_wf by blast
    have fr: "frame t s" using I by (simp add: drawn_frame)
    show "ok (FillCells s j 0 (usub (Columns s) 1) a) (?I (Suc j))"
      by (rule ok_mono [OF FillCells_ok [OF wf_term]])
        (use I wf_bounds [OF assms] j in \<open>auto simp: frame_sel [OF fr] on_screen_def overlay_def
           fun_eq_iff less_Suc_eq intro: drawn_trans frame_dirty dest: drawn_frame\<close>)
  qed
  then show ?thesis by (elim ok_mono) (auto simp: overlay_def fun_eq_iff)
qed

text \<open>\<open>ClearBuffer\<close> does not touch the dirty ranges; it blanks the whole buffer it is given.\<close>

lemma ClearBuffer_eq:
  assumes len: "length (buffer t b) = Rows t * Columns t" and area: "Rows t * Columns t < 2 ^ 64"
  shows "ClearBuffer t b = Some (set_buffer b (replicate (Rows t * Columns t)
    (blank (EFI_TEXT_ATTR (DefaultForeground t) (DefaultBackground t)))) t)"
proof -
  let ?x = "blank (EFI_TEXT_ATTR (DefaultForeground t) (DefaultBackground t))"
  let ?n = "Rows t * Columns t"
  let ?I = "\<lambda>j t'. t' = set_buffer b (replicate j ?x @ drop j (buffer t b)) t \<and> j \<le> ?n"
  have "ok (for_below 0 ?n (\<lambda>i t. WriteBuffer t b i ?x) t) (?I (max 0 ?n))"
  proof (rule for_below_ok)
    show "?I 0 t" by simp
  next
    fix j s
    assume j: "j < ?n" and I: "?I j s"
    have "(replicate j ?x @ drop j (buffer t b))[j := ?x] =
        replicate (Suc j) ?x @ drop (Suc j) (buffer t b)"
      by (rule replicate_fill) (use j len in simp)
    then show "ok (WriteBuffer s b j ?x) (?I (Suc j))"
      using I j len by (simp add: WriteBuffer_def)
  qed
  then show ?thesis using area len by (auto simp: ClearBuffer_def elim!: okE)
qed

lemma ClearBuffer_ok:
  "wf_term t \<Longrightarrow> ClearBuffer t b = Some (set_buffer b (replicate (Rows t * Columns t)
     (blank (EFI_TEXT_ATTR (DefaultForeground t) (DefaultBackground t)))) t)"
  using wf_area_lt by (intro ClearBuffer_eq) simp_all

end
