(* ===== verification/Term_Scroll.thy ===== *)
theory Term_Scroll
  imports Term_Cells
begin

text \<open>
  Moving rows and characters: scrolling the region, index and reverse index, writing one character
  with deferred wrap and insert mode, and inserting and deleting lines and characters.
\<close>

section \<open>Updates that keep the invariant\<close>

lemma wf_inert [simp]:
  "wf_term (t\<lparr>WrapPending := w\<rparr>) = wf_term t" "wf_term (t\<lparr>InsertMode := w\<rparr>) = wf_term t"
  "wf_term (t\<lparr>Bold := w\<rparr>) = wf_term t" "wf_term (t\<lparr>Reverse := w\<rparr>) = wf_term t"
  "wf_term (t\<lparr>CursorVisible := w\<rparr>) = wf_term t" "wf_term (t\<lparr>ApplicationCursor := w\<rparr>) = wf_term t"
  "wf_term (t\<lparr>PrivateCsi := w\<rparr>) = wf_term t" "wf_term (t\<lparr>SavedRow := n\<rparr>) = wf_term t"
  "wf_term (t\<lparr>SavedColumn := n\<rparr>) = wf_term t" "wf_term (t\<lparr>PrimaryRow := n\<rparr>) = wf_term t"
  "wf_term (t\<lparr>PrimaryColumn := n\<rparr>) = wf_term t" "wf_term (console x t) = wf_term t"
  unfolding wf_parts console_def by simp_all

lemma wf_cursor_update:
  assumes "wf_term t"
  shows "r < Rows t \<Longrightarrow> wf_term (t\<lparr>Row := r\<rparr>)"
    and "c < Columns t \<Longrightarrow> wf_term (t\<lparr>Column := c\<rparr>)"
    and "f < 16 \<Longrightarrow> wf_term (t\<lparr>Foreground := f\<rparr>)"
    and "g < 16 \<Longrightarrow> wf_term (t\<lparr>Background := g\<rparr>)"
    and "a \<le> b \<Longrightarrow> b < Rows t \<Longrightarrow> wf_term (t\<lparr>ScrollTop := a, ScrollBottom := b\<rparr>)"
  using assms unfolding wf_parts by simp_all

lemma buffer_update [simp]:
  "buffer (t\<lparr>Row := r\<rparr>) b = buffer t b" "buffer (t\<lparr>Column := c\<rparr>) b = buffer t b"
  "buffer (t\<lparr>WrapPending := w\<rparr>) b = buffer t b" "buffer (console x t) b = buffer t b"
  by (simp_all add: buffer_def console_def split: SCREEN.splits)

lemma grid_update [simp]:
  "grid (t\<lparr>Row := r\<rparr>) = grid t" "grid (t\<lparr>Column := c\<rparr>) = grid t"
  "grid (t\<lparr>WrapPending := w\<rparr>) = grid t" "grid (console x t) = grid t"
  by (simp_all add: grid_def, simp add: console_def)

lemma dirty_update [simp]:
  "dirty (t\<lparr>Row := r\<rparr>) = dirty t" "dirty (t\<lparr>Column := c\<rparr>) = dirty t"
  "dirty (t\<lparr>WrapPending := w\<rparr>) = dirty t" "dirty (console x t) = dirty t"
  by (simp_all add: dirty_def fun_eq_iff console_def)

lemma on_screen_update [simp]:
  "on_screen (t\<lparr>Row := r\<rparr>) = on_screen t" "on_screen (t\<lparr>Column := c\<rparr>) = on_screen t"
  "on_screen (t\<lparr>WrapPending := w\<rparr>) = on_screen t" "on_screen (console x t) = on_screen t"
  by (simp_all add: on_screen_def fun_eq_iff console_def)

lemma TerminalAttribute_update [simp]:
  "TerminalAttribute (t\<lparr>Row := r\<rparr>) = TerminalAttribute t"
  "TerminalAttribute (t\<lparr>Column := c\<rparr>) = TerminalAttribute t"
  "TerminalAttribute (t\<lparr>WrapPending := w\<rparr>) = TerminalAttribute t"
  by (simp_all add: TerminalAttribute_eq Let_def)

section \<open>Moving rows\<close>

text \<open>
  \<open>RowsUp t first count bottom\<close> is the body that \<open>ScrollUp\<close> (with \<open>first = ScrollTop\<close>) and
  \<open>DeleteLines\<close> (with \<open>first = Row\<close>) share: copy row \<open>row + count\<close> to \<open>row\<close> while
  \<open>row + count \<le> bottom\<close>, blank the remaining rows, mark the rows dirty. \<open>RowsDown\<close> is the mirror
  image that \<open>ScrollDown\<close> and \<open>InsertLines\<close> share.
\<close>

definition CopyRow :: "term_state \<Rightarrow> UINTN \<Rightarrow> UINTN \<Rightarrow> term_state option" where
  "CopyRow t dst src = CopyCells t (CellAt t dst 0) (CellAt t src 0) (Columns t)"

definition RowsUp :: "term_state \<Rightarrow> UINTN \<Rightarrow> UINTN \<Rightarrow> UINTN \<Rightarrow> term_state option" where
  "RowsUp t first count bottom = do {
     (row, t) \<leftarrow> for_plus first count (Suc bottom) (\<lambda>row t. CopyRow t row (uadd row count)) t;
     t \<leftarrow> FillRows t row (Suc bottom) (TerminalAttribute t);
     MarkDirtyRows t first bottom }"

definition RowsDown :: "term_state \<Rightarrow> UINTN \<Rightarrow> UINTN \<Rightarrow> UINTN \<Rightarrow> term_state option" where
  "RowsDown t first count bottom = do {
     t \<leftarrow> for_downto (uadd bottom 1) (uadd first count) (\<lambda>row t. CopyRow t row (usub row count)) t;
     t \<leftarrow> FillRows t first (uadd first count) (TerminalAttribute t);
     MarkDirtyRows t first bottom }"

text \<open>What the two do to the grid.\<close>

definition rows_up :: "term_state \<Rightarrow> nat \<Rightarrow> nat \<Rightarrow> nat \<Rightarrow> nat \<Rightarrow> nat \<Rightarrow> TERMINAL_CELL" where
  "rows_up t first count bottom = overlay t (\<lambda>r c. first \<le> r \<and> r \<le> bottom)
     (\<lambda>r c. if r + count \<le> bottom then grid t (r + count) c else blank (TerminalAttribute t))"

definition rows_down :: "term_state \<Rightarrow> nat \<Rightarrow> nat \<Rightarrow> nat \<Rightarrow> nat \<Rightarrow> nat \<Rightarrow> TERMINAL_CELL" where
  "rows_down t first count bottom = overlay t (\<lambda>r c. first \<le> r \<and> r \<le> bottom)
     (\<lambda>r c. if first + count \<le> r then grid t (r - count) c else blank (TerminalAttribute t))"

lemma grid_off: "\<not> on_screen t r c \<Longrightarrow> grid t r c = blank 0"
  by (auto simp: grid_def grid_of_def on_screen_def)

abbreviation recell :: "term_state \<Rightarrow> TERMINAL_CELL list \<Rightarrow> term_state" where
  "recell t cs \<equiv> painted cs (DirtyStart t) (DirtyEnd t) t"

lemma recell_frame:
  assumes "wf_term t" and "length cs = Rows t * Columns t"
    and "\<And>r c. Character (grid_of (Rows t) (Columns t) cs r c) \<noteq> 0"
  shows "frame t (recell t cs)"
  by (rule wf_painted_dirty [OF assms(1)])
    (use assms wf_dirtyD [OF assms(1)] textual_grid [OF assms(2,3)] in auto)

lemma recell_start:
  assumes "wf_term t"
  shows "t = recell t (buffer t (Cells t))" and "length (buffer t (Cells t)) = Rows t * Columns t"
    and "grid_of (Rows t) (Columns t) (buffer t (Cells t)) = grid t"
  using assms by (simp_all add: painted_same grid_def)

lemma CopyRow_ok:
  assumes "wf_term t" and "length cs = Rows t * Columns t" and "dst < Rows t" and "src < Rows t"
  shows "ok (CopyRow (recell t cs) dst src) (\<lambda>t'. \<exists>cs'. t' = recell t cs' \<and>
    length cs' = Rows t * Columns t \<and>
    grid_of (Rows t) (Columns t) cs' =
      (\<lambda>r c. grid_of (Rows t) (Columns t) cs (if r = dst then src else r) c))"
proof -
  have C: "0 < Columns t" using wf_bounds [OF assms(1)] by simp
  have i: "CellAt t dst 0 = dst * Columns t" "CellAt t src 0 = src * Columns t"
    using CellAt_eq(1) [OF assms(1,3) C] CellAt_eq(1) [OF assms(1,4) C] by simp_all
  show ?thesis
    unfolding CopyRow_def CopyCells_def CellAt_painted painted_simps buffer_painted i Let_def
      ok_bind ok_Some if_True simp_thms
    by (rule ok_mono [OF grid_of_copy_row [OF assms(3,4) C assms(2)]]) (auto simp: assms(2))
qed

lemma RowsUp_ok:
  assumes wf: "wf_term t" and "first \<le> bottom" and "bottom < Rows t"
    and "0 < count" and "first + count \<le> Suc bottom"
  shows "ok (RowsUp t first count bottom)
    (\<lambda>t'. drawn t t' \<and> grid t' = rows_up t first count bottom)"
proof -
  let ?n = "Suc bottom - count"
  let ?I = "\<lambda>j t'. \<exists>cs. t' = recell t cs \<and> length cs = Rows t * Columns t \<and>
    grid_of (Rows t) (Columns t) cs =
      (\<lambda>r c. if first \<le> r \<and> r < j then grid t (r + count) c else grid t r c)"
  have "ok (for_plus first count (Suc bottom) (\<lambda>row t. CopyRow t row (uadd row count)) t)
      (\<lambda>(j, t'). ?I j t' \<and> j = max first (Suc bottom - count))"
  proof (rule for_plus_ok)
    show "?I first t"
      by (intro exI [of _ "buffer t (Cells t)"]) (use recell_start [OF wf] in \<open>auto simp: fun_eq_iff\<close>)
  next
    fix j s
    assume j: "first \<le> j" "j + count < Suc bottom" and "?I j s"
    then obtain cs where s: "s = recell t cs" and len: "length cs = Rows t * Columns t"
      and g: "grid_of (Rows t) (Columns t) cs =
        (\<lambda>r c. if first \<le> r \<and> r < j then grid t (r + count) c else grid t r c)" by blast
    have u: "uadd j count = j + count" and r: "j < Rows t" "j + count < Rows t"
      using j assms wf_bounds [OF wf] by simp_all
    have "(\<lambda>r c. grid_of (Rows t) (Columns t) cs (if r = j then j + count else r) c) =
        (\<lambda>r c. if first \<le> r \<and> r < Suc j then grid t (r + count) c else grid t r c)"
      using j assms(4) by (auto simp: g fun_eq_iff less_Suc_eq)
    then show "ok (CopyRow s j (uadd j count)) (?I (Suc j))"
      unfolding s u using CopyRow_ok [OF wf len r] by simp
  qed
  then obtain t1 cs where loop: "for_plus first count (Suc bottom)
        (\<lambda>row t. CopyRow t row (uadd row count)) t = Some (?n, t1)"
    and t1: "t1 = recell t cs" and len: "length cs = Rows t * Columns t"
    and g: "grid_of (Rows t) (Columns t) cs =
        (\<lambda>r c. if first \<le> r \<and> r < ?n then grid t (r + count) c else grid t r c)"
    using assms(5) by (auto elim!: okE simp: max_def split: if_splits)
  have fr: "frame t t1" unfolding t1 by (rule recell_frame [OF wf len]) (simp add: g wf)
  note wf1 = frame_wf [OF wf fr] and sel = frame_sel [OF fr]
  have gt1: "grid t1 = (\<lambda>r c. if first \<le> r \<and> r < ?n then grid t (r + count) c else grid t r c)" by (simp add: t1 g)
  obtain t2 where t2: "FillRows t1 ?n (Suc bottom) (TerminalAttribute t1) = Some t2" "drawn t1 t2"
    and g2: "grid t2 = overlay t1 (\<lambda>r c. ?n \<le> r \<and> r < Suc bottom) (\<lambda>_ _. blank (TerminalAttribute t1))"
    using FillRows_ok [OF wf1, of ?n "Suc bottom" "TerminalAttribute t1"] by (auto elim: okE)
  have wf2: "wf_term t2" and fr2: "frame t t2"
    using wf1 t2(2) fr by (auto intro: drawn_wf frame_trans drawn_frame)
  have g2': "grid t2 = rows_up t first count bottom"
    using assms by (auto simp: g2 gt1 sel TerminalAttribute_frame [OF fr] rows_up_def overlay_def fun_eq_iff on_screen_def grid_off)
  show ?thesis
    unfolding RowsUp_def loop
    by (simp add: t2, rule ok_mono [OF MarkDirtyRows_ok [OF wf2, of first bottom]])
      (use fr2 g2' in \<open>auto simp: drawn_def rows_up_def overlay_def frame_sel [OF fr2]
         intro: frame_trans split: if_splits\<close>)
qed

lemma RowsDown_ok:
  assumes wf: "wf_term t" and "first \<le> bottom" and "bottom < Rows t"
    and "0 < count" and "first + count \<le> Suc bottom"
  shows "ok (RowsDown t first count bottom)
    (\<lambda>t'. drawn t t' \<and> grid t' = rows_down t first count bottom)"
proof -
  let ?I = "\<lambda>j t'. \<exists>cs. t' = recell t cs \<and> length cs = Rows t * Columns t \<and>
    grid_of (Rows t) (Columns t) cs =
      (\<lambda>r c. if j \<le> r \<and> r \<le> bottom then grid t (r - count) c else grid t r c)"
  have u: "uadd bottom 1 = Suc bottom" "uadd first count = first + count"
    using assms wf_bounds [OF wf] by simp_all
  have "ok (for_downto (Suc bottom) (first + count) (\<lambda>row t. CopyRow t row (usub row count)) t)
      (?I (first + count))"
  proof (rule for_downto_ok)
    show "?I (Suc bottom) t"
      by (intro exI [of _ "buffer t (Cells t)"]) (use recell_start [OF wf] in \<open>auto simp: fun_eq_iff\<close>)
  next
    fix j s
    assume j: "first + count \<le> j" "j < Suc bottom" and "?I (Suc j) s"
    then obtain cs where s: "s = recell t cs" and len: "length cs = Rows t * Columns t"
      and g: "grid_of (Rows t) (Columns t) cs =
        (\<lambda>r c. if Suc j \<le> r \<and> r \<le> bottom then grid t (r - count) c else grid t r c)" by blast
    have u: "usub j count = j - count" and r: "j < Rows t" "j - count < Rows t"
      using j assms wf_bounds [OF wf] by simp_all
    have "(\<lambda>r c. grid_of (Rows t) (Columns t) cs (if r = j then j - count else r) c) =
        (\<lambda>r c. if j \<le> r \<and> r \<le> bottom then grid t (r - count) c else grid t r c)"
      using j assms(4) by (auto simp: g fun_eq_iff Suc_le_eq)
    then show "ok (CopyRow s j (usub j count)) (?I j)"
      unfolding s u using CopyRow_ok [OF wf len r] by simp
  qed (use assms in simp)
  then obtain t1 cs where loop: "for_downto (Suc bottom) (first + count)
        (\<lambda>row t. CopyRow t row (usub row count)) t = Some t1"
    and t1: "t1 = recell t cs" and len: "length cs = Rows t * Columns t"
    and g: "grid_of (Rows t) (Columns t) cs =
        (\<lambda>r c. if first + count \<le> r \<and> r \<le> bottom then grid t (r - count) c else grid t r c)"
    by (auto elim!: okE)
  have fr: "frame t t1" unfolding t1 by (rule recell_frame [OF wf len]) (simp add: g wf)
  note wf1 = frame_wf [OF wf fr] and sel = frame_sel [OF fr]
  have gt1: "grid t1 = (\<lambda>r c. if first + count \<le> r \<and> r \<le> bottom then grid t (r - count) c else grid t r c)" by (simp add: t1 g)
  obtain t2 where t2: "FillRows t1 first (first + count) (TerminalAttribute t1) = Some t2" "drawn t1 t2"
    and g2: "grid t2 = overlay t1 (\<lambda>r c. first \<le> r \<and> r < first + count)
      (\<lambda>_ _. blank (TerminalAttribute t1))"
    using FillRows_ok [OF wf1, of first "first + count" "TerminalAttribute t1"] by (auto elim: okE)
  have wf2: "wf_term t2" and fr2: "frame t t2"
    using wf1 t2(2) fr by (auto intro: drawn_wf frame_trans drawn_frame)
  have g2': "grid t2 = rows_down t first count bottom"
    using assms by (auto simp: g2 gt1 sel TerminalAttribute_frame [OF fr] rows_down_def overlay_def fun_eq_iff on_screen_def grid_off)
  show ?thesis
    unfolding RowsDown_def u
    by (simp add: loop t2, rule ok_mono [OF MarkDirtyRows_ok [OF wf2, of first bottom]])
      (use fr2 g2' in \<open>auto simp: drawn_def rows_down_def overlay_def frame_sel [OF fr2]
         intro: frame_trans split: if_splits\<close>)
qed

section \<open>Scrolling\<close>

definition ScrollUp :: "term_state \<Rightarrow> UINTN \<Rightarrow> term_state option" where
  "ScrollUp t count =
     (let regionRows = uadd (usub (ScrollBottom t) (ScrollTop t)) 1;
          count = min count regionRows
      in if count = 0 then Some t else RowsUp t (ScrollTop t) count (ScrollBottom t))"

definition ScrollDown :: "term_state \<Rightarrow> UINTN \<Rightarrow> term_state option" where
  "ScrollDown t count =
     (let regionRows = uadd (usub (ScrollBottom t) (ScrollTop t)) 1;
          count = min count regionRows
      in if count = 0 then Some t else RowsDown t (ScrollTop t) count (ScrollBottom t))"

definition region_rows :: "term_state \<Rightarrow> nat" where
  "region_rows t = ScrollBottom t - ScrollTop t + 1"

lemma region_rows_eq:
  assumes "wf_term t"
  shows "uadd (usub (ScrollBottom t) (ScrollTop t)) 1 = region_rows t"
  using wf_bounds [OF assms] by (simp add: region_rows_def)

lemma rows_0: "rows_up t first 0 bottom = grid t" "rows_down t first 0 bottom = grid t"
  by (auto simp: rows_up_def rows_down_def overlay_def fun_eq_iff)

lemma ScrollUp_ok:
  assumes "wf_term t"
  shows "ok (ScrollUp t count) (\<lambda>t'. drawn t t' \<and>
    grid t' = rows_up t (ScrollTop t) (min count (region_rows t)) (ScrollBottom t))"
proof (cases "min count (region_rows t) = 0")
  case True
  then show ?thesis using drawn_refl [OF assms] rows_0
    by (simp add: ScrollUp_def region_rows_eq [OF assms, simplified] Let_def)
next
  case False
  have "ok (RowsUp t (ScrollTop t) (min count (region_rows t)) (ScrollBottom t))
     (\<lambda>t'. drawn t t' \<and>
       grid t' = rows_up t (ScrollTop t) (min count (region_rows t)) (ScrollBottom t))"
    by (rule RowsUp_ok [OF assms])
      (use wf_bounds [OF assms] False in \<open>auto simp: region_rows_def\<close>)
  then show ?thesis using False
    by (simp only: ScrollUp_def region_rows_eq [OF assms] Let_def if_False)
qed

lemma ScrollDown_ok:
  assumes "wf_term t"
  shows "ok (ScrollDown t count) (\<lambda>t'. drawn t t' \<and>
    grid t' = rows_down t (ScrollTop t) (min count (region_rows t)) (ScrollBottom t))"
proof (cases "min count (region_rows t) = 0")
  case True
  then show ?thesis using drawn_refl [OF assms] rows_0
    by (simp add: ScrollDown_def region_rows_eq [OF assms, simplified] Let_def)
next
  case False
  have "ok (RowsDown t (ScrollTop t) (min count (region_rows t)) (ScrollBottom t))
     (\<lambda>t'. drawn t t' \<and>
       grid t' = rows_down t (ScrollTop t) (min count (region_rows t)) (ScrollBottom t))"
    by (rule RowsDown_ok [OF assms])
      (use wf_bounds [OF assms] False in \<open>auto simp: region_rows_def\<close>)
  then show ?thesis using False
    by (simp only: ScrollDown_def region_rows_eq [OF assms] Let_def if_False)
qed

section \<open>Index and reverse index\<close>

definition IndexDown :: "term_state \<Rightarrow> term_state option" where
  "IndexDown t =
     (let t = t\<lparr>WrapPending := False\<rparr>
      in if Row t = ScrollBottom t then ScrollUp t 1
         else if uadd (Row t) 1 < Rows t then Some (t\<lparr>Row := uadd (Row t) 1\<rparr>)
         else Some t)"

definition IndexUp :: "term_state \<Rightarrow> term_state option" where
  "IndexUp t =
     (let t = t\<lparr>WrapPending := False\<rparr>
      in if Row t = ScrollTop t then ScrollDown t 1
         else if Row t \<noteq> 0 then Some (t\<lparr>Row := usub (Row t) 1\<rparr>)
         else Some t)"

section \<open>Inserting and deleting lines\<close>

definition InsertLines :: "term_state \<Rightarrow> UINTN \<Rightarrow> term_state option" where
  "InsertLines t count =
     (if Row t < ScrollTop t \<or> Row t > ScrollBottom t then Some t
      else
        let available = uadd (usub (ScrollBottom t) (Row t)) 1;
            count = min count available
        in RowsDown t (Row t) count (ScrollBottom t))"

definition DeleteLines :: "term_state \<Rightarrow> UINTN \<Rightarrow> term_state option" where
  "DeleteLines t count =
     (if Row t < ScrollTop t \<or> Row t > ScrollBottom t then Some t
      else
        let available = uadd (usub (ScrollBottom t) (Row t)) 1;
            count = min count available
        in RowsUp t (Row t) count (ScrollBottom t))"

text \<open>Both leave the screen alone when the cursor is outside the scrolling region.\<close>

definition in_region :: "term_state \<Rightarrow> bool" where
  "in_region t \<longleftrightarrow> ScrollTop t \<le> Row t \<and> Row t \<le> ScrollBottom t"

lemma InsertLines_ok:
  assumes "wf_term t" and "0 < count"
  shows "ok (InsertLines t count) (\<lambda>t'. drawn t t' \<and> grid t' =
    (if in_region t then rows_down t (Row t) (min count (ScrollBottom t - Row t + 1)) (ScrollBottom t)
     else grid t))"
proof (cases "in_region t")
  case True
  let ?n = "min count (ScrollBottom t - Row t + 1)"
  have "uadd (usub (ScrollBottom t) (Row t)) 1 = ScrollBottom t - Row t + 1"
    using wf_bounds [OF assms(1)] True by (simp add: in_region_def)
  then have "InsertLines t count = RowsDown t (Row t) ?n (ScrollBottom t)"
    using True by (simp add: InsertLines_def in_region_def Let_def)
  moreover have "ok (RowsDown t (Row t) ?n (ScrollBottom t))
      (\<lambda>t'. drawn t t' \<and> grid t' = rows_down t (Row t) ?n (ScrollBottom t))"
    by (rule RowsDown_ok [OF assms(1)])
      (use wf_bounds [OF assms(1)] True assms(2) in \<open>auto simp: in_region_def\<close>)
  ultimately show ?thesis using True by simp
next
  case False
  then show ?thesis using drawn_refl [OF assms(1)] by (auto simp: InsertLines_def in_region_def)
qed

lemma DeleteLines_ok:
  assumes "wf_term t" and "0 < count"
  shows "ok (DeleteLines t count) (\<lambda>t'. drawn t t' \<and> grid t' =
    (if in_region t then rows_up t (Row t) (min count (ScrollBottom t - Row t + 1)) (ScrollBottom t)
     else grid t))"
proof (cases "in_region t")
  case True
  let ?n = "min count (ScrollBottom t - Row t + 1)"
  have "uadd (usub (ScrollBottom t) (Row t)) 1 = ScrollBottom t - Row t + 1"
    using wf_bounds [OF assms(1)] True by (simp add: in_region_def)
  then have "DeleteLines t count = RowsUp t (Row t) ?n (ScrollBottom t)"
    using True by (simp add: DeleteLines_def in_region_def Let_def)
  moreover have "ok (RowsUp t (Row t) ?n (ScrollBottom t))
      (\<lambda>t'. drawn t t' \<and> grid t' = rows_up t (Row t) ?n (ScrollBottom t))"
    by (rule RowsUp_ok [OF assms(1)])
      (use wf_bounds [OF assms(1)] True assms(2) in \<open>auto simp: in_region_def\<close>)
  ultimately show ?thesis using True by simp
next
  case False
  then show ?thesis using drawn_refl [OF assms(1)] by (auto simp: DeleteLines_def in_region_def)
qed

end
