(* ===== verification/Term_Chars.thy ===== *)
theory Term_Chars
  imports Term_Scroll
begin

text \<open>
  Writing one character (deferred wrap, insert mode) and inserting and deleting characters; and the
  relation \<open>good\<close> that every operation of the terminal establishes between the state it gets and
  the state it returns.
\<close>

section \<open>Good steps\<close>

text \<open>
  \<open>shown\<close> stands for the firmware's console: the characters on the glass after a trace of console
  calls. \<open>mirror shown t\<close> says that the glass agrees with the cells wherever nothing is waiting to
  be redrawn. Of the console, only the effect of \<open>ClearScreen\<close> matters to the operations that run
  between two flushes.
\<close>

definition mirror :: "(CONSOLE_CALL list \<Rightarrow> nat \<Rightarrow> nat \<Rightarrow> CHAR16) \<Rightarrow> term_state \<Rightarrow> bool" where
  "mirror shown t \<longleftrightarrow> (\<forall>r c. on_screen t r c \<and> \<not> dirty t r c \<longrightarrow>
     shown (ConOut t) r c = Character (grid t r c))"

definition clears :: "(CONSOLE_CALL list \<Rightarrow> nat \<Rightarrow> nat \<Rightarrow> CHAR16) \<Rightarrow> bool" where
  "clears shown \<longleftrightarrow> (\<forall>tr r c. shown (tr @ [ClearScreen]) r c = 32)"

definition quiet :: "term_state \<Rightarrow> term_state \<Rightarrow> bool" where
  "quiet t t' \<longleftrightarrow> Rows t' = Rows t \<and> Columns t' = Columns t \<and> ParserState t' = ParserState t \<and>
     Utf8Remaining t' = Utf8Remaining t \<and> Utf8CodePoint t' = Utf8CodePoint t \<and>
     Parameters t' = Parameters t \<and> ParameterCount t' = ParameterCount t \<and>
     PrivateCsi t' = PrivateCsi t \<and> RenderBuffer t' = RenderBuffer t \<and>
     DefaultForeground t' = DefaultForeground t \<and> DefaultBackground t' = DefaultBackground t"

definition good :: "term_state \<Rightarrow> term_state \<Rightarrow> bool" where
  "good t t' \<longleftrightarrow> wf_term t' \<and> quiet t t' \<and>
     (\<forall>shown. clears shown \<longrightarrow> mirror shown t \<longrightarrow> mirror shown t')"

lemma goodD:
  assumes "good t t'"
  shows "wf_term t'" "quiet t t'" "Rows t' = Rows t" "Columns t' = Columns t"
    "ParserState t' = ParserState t" "Utf8Remaining t' = Utf8Remaining t"
    "Utf8CodePoint t' = Utf8CodePoint t" "Parameters t' = Parameters t"
    "ParameterCount t' = ParameterCount t" "PrivateCsi t' = PrivateCsi t"
    "DefaultForeground t' = DefaultForeground t" "DefaultBackground t' = DefaultBackground t"
  using assms by (simp_all add: good_def quiet_def)

lemma good_refl [simp]: "wf_term t \<Longrightarrow> good t t"
  by (simp add: good_def quiet_def)

lemma good_trans: "good t t' \<Longrightarrow> good t' t'' \<Longrightarrow> good t t''"
  by (simp add: good_def quiet_def)

lemma mirror_cong:
  "on_screen t' = on_screen t \<Longrightarrow> dirty t' = dirty t \<Longrightarrow> ConOut t' = ConOut t \<Longrightarrow> grid t' = grid t \<Longrightarrow>
   mirror shown t' = mirror shown t"
  by (simp add: mirror_def)

lemma drawn_good:
  assumes "wf_term t" and "drawn t t'"
  shows "good t t'"
proof -
  note fr = drawn_frame [OF assms(2)]
  have "mirror shown t \<Longrightarrow> mirror shown t'" for shown
    using assms(2) by (simp add: mirror_def drawn_def frame_sel [OF fr]) (metis frame_dirty)
  then show ?thesis using drawn_wf [OF assms] by (simp add: good_def quiet_def frame_sel [OF fr])
qed

lemma ok_good_seq:
  assumes "ok m (good t)" and "\<And>t'. m = Some t' \<Longrightarrow> good t t' \<Longrightarrow> ok (f t') (good t')"
  shows "ok (Option.bind m f) (good t)"
  using assms good_trans unfolding ok_def by fastforce

lemma drawn_ok_good:
  assumes "wf_term t" and "ok m (\<lambda>t'. drawn t t' \<and> Q t')"
  shows "ok m (good t)"
  using assms(2) by (elim ok_mono) (auto intro: drawn_good [OF assms(1)])

lemma good_moved:
  assumes "wf_term t"
  shows "r < Rows t \<Longrightarrow> good t (t\<lparr>Row := r\<rparr>)"
    and "c < Columns t \<Longrightarrow> good t (t\<lparr>Column := c\<rparr>)"
    and "good t (t\<lparr>WrapPending := w\<rparr>)"
  using assms by (simp_all add: good_def quiet_def wf_cursor_update mirror_def)

section \<open>Index and reverse index\<close>

lemma IndexDown_good:
  assumes "wf_term t"
  shows "ok (IndexDown t) (good t)"
proof -
  let ?t = "t\<lparr>WrapPending := False\<rparr>"
  have wf: "wf_term ?t" using assms by simp
  have g: "good t ?t" by (rule good_moved [OF assms])
  have scroll: "ok (ScrollUp ?t 1) (good ?t)"
    by (rule drawn_ok_good [OF wf ScrollUp_ok [OF wf]])
  have move: "good ?t (?t\<lparr>Row := r\<rparr>)" if "r < Rows t" for r
    by (rule good_moved [OF wf]) (use that in simp)
  show ?thesis
    using scroll move g wf good_trans [OF g] wf_bounds [OF assms]
    by (auto simp: IndexDown_def Let_def elim!: ok_mono)
qed

lemma IndexUp_good:
  assumes "wf_term t"
  shows "ok (IndexUp t) (good t)"
proof -
  let ?t = "t\<lparr>WrapPending := False\<rparr>"
  have wf: "wf_term ?t" using assms by simp
  have g: "good t ?t" by (rule good_moved [OF assms])
  have scroll: "ok (ScrollDown ?t 1) (good ?t)"
    by (rule drawn_ok_good [OF wf ScrollDown_ok [OF wf]])
  have move: "good ?t (?t\<lparr>Row := r\<rparr>)" if "r < Rows t" for r
    by (rule good_moved [OF wf]) (use that in simp)
  show ?thesis
    using scroll move g wf good_trans [OF g] wf_bounds [OF assms]
    by (auto simp: IndexUp_def Let_def elim!: ok_mono)
qed

lemma IndexDown_sel:
  assumes "wf_term t" and "IndexDown t = Some t'"
  shows "\<not> WrapPending t'" "Column t' = Column t" "InsertMode t' = InsertMode t"
    "TerminalAttribute t' = TerminalAttribute t"
proof -
  let ?t = "t\<lparr>WrapPending := False\<rparr>"
  have wf: "wf_term ?t" using assms by simp
  have "IndexDown t = (if Row t = ScrollBottom t then ScrollUp ?t 1
      else if uadd (Row t) 1 < Rows t then Some (?t\<lparr>Row := uadd (Row t) 1\<rparr>) else Some ?t)"
    by (simp add: IndexDown_def)
  then consider "t' = ?t" | r where "t' = ?t\<lparr>Row := r\<rparr>" | "ScrollUp ?t 1 = Some t'"
    using assms(2) by (metis option.inject)
  then have "\<not> WrapPending t' \<and> Column t' = Column t \<and> InsertMode t' = InsertMode t \<and>
    TerminalAttribute t' = TerminalAttribute t"
  proof cases
    case 3
    then have fr: "frame ?t t'" using ScrollUp_ok [OF wf, of 1] by (auto simp: ok_def drawn_frame)
    show ?thesis by (simp add: frame_sel [OF fr] TerminalAttribute_frame [OF fr])
  qed simp_all
  then show "\<not> WrapPending t'" "Column t' = Column t" "InsertMode t' = InsertMode t"
    "TerminalAttribute t' = TerminalAttribute t" by simp_all
qed

section \<open>Shifting characters inside the cursor's row\<close>

definition CopyCell :: "term_state \<Rightarrow> UINTN \<Rightarrow> UINTN \<Rightarrow> term_state option" where
  "CopyCell t dst src = do {
     c \<leftarrow> ReadCell t (CellAt t (Row t) src);
     WriteCell t (CellAt t (Row t) dst) c }"

text \<open>
  \<open>ShiftRight t count\<close> is the loop that moves the cells from the cursor on \<open>count\<close> places to the
  right, from the last column down (the insert loop of \<open>PutCharacter\<close> with \<open>count = 1\<close>, and that of
  \<open>InsertCharacters\<close>); \<open>ShiftLeft\<close> is the loop of \<open>DeleteCharacters\<close>.
\<close>

definition ShiftRight :: "term_state \<Rightarrow> UINTN \<Rightarrow> term_state option" where
  "ShiftRight t count =
     for_downto (Columns t) (uadd (Column t) count) (\<lambda>column t. CopyCell t column (usub column count)) t"

definition ShiftLeft :: "term_state \<Rightarrow> UINTN \<Rightarrow> term_state option" where
  "ShiftLeft t count = map_option snd
     (for_plus (Column t) count (Columns t) (\<lambda>column t. CopyCell t column (uadd column count)) t)"

lemma CopyCell_ok:
  assumes "wf_term t" and "length cs = Rows t * Columns t" and "dst < Columns t" and "src < Columns t"
  shows "ok (CopyCell (recell t cs) dst src) (\<lambda>t'. \<exists>cs'. t' = recell t cs' \<and>
    length cs' = Rows t * Columns t \<and>
    grid_of (Rows t) (Columns t) cs' = (\<lambda>r c. grid_of (Rows t) (Columns t) cs r
       (if r = Row t \<and> c = dst then src else c)))"
proof -
  have row: "Row t < Rows t" using wf_bounds [OF assms(1)] by simp
  note i = CellAt_eq [OF assms(1) row assms(3)] and j = CellAt_eq [OF assms(1) row assms(4)]
  let ?cs = "cs[Row t * Columns t + dst := cs ! (Row t * Columns t + src)]"
  have "CopyCell (recell t cs) dst src = Some (recell t ?cs)"
    using i j assms(2) by (simp add: CopyCell_def)
  moreover have "grid_of (Rows t) (Columns t) ?cs = (\<lambda>r c. grid_of (Rows t) (Columns t) cs r
       (if r = Row t \<and> c = dst then src else c))"
    using grid_of_update [OF row assms(3,2)] row assms(4) by (auto simp: fun_eq_iff grid_of_def)
  ultimately show ?thesis using assms(2) by auto
qed

lemma ShiftRight_ok:
  assumes wf: "wf_term t" and "0 < count" and "Column t + count \<le> Columns t"
  shows "ok (ShiftRight t count) (\<lambda>t'. \<exists>cs. t' = recell t cs \<and> length cs = Rows t * Columns t \<and>
    grid_of (Rows t) (Columns t) cs = (\<lambda>r c. grid t r
      (if r = Row t \<and> Column t + count \<le> c \<and> c < Columns t then c - count else c)))"
proof -
  let ?I = "\<lambda>j t'. \<exists>cs. t' = recell t cs \<and> length cs = Rows t * Columns t \<and>
    grid_of (Rows t) (Columns t) cs = (\<lambda>r c. grid t r
      (if r = Row t \<and> j \<le> c \<and> c < Columns t then c - count else c))"
  have u: "uadd (Column t) count = Column t + count" using assms wf_bounds [OF wf] by simp
  show ?thesis unfolding ShiftRight_def u
  proof (rule for_downto_ok [where I = ?I])
    show "?I (Columns t) t"
      by (intro exI [of _ "buffer t (Cells t)"]) (use recell_start [OF wf] in \<open>auto simp: fun_eq_iff\<close>)
  next
    fix j s
    assume j: "Column t + count \<le> j" "j < Columns t" and "?I (Suc j) s"
    then obtain cs where s: "s = recell t cs" and len: "length cs = Rows t * Columns t"
      and g: "grid_of (Rows t) (Columns t) cs = (\<lambda>r c. grid t r
        (if r = Row t \<and> Suc j \<le> c \<and> c < Columns t then c - count else c))" by blast
    have v: "usub j count = j - count" and c: "j < Columns t" "j - count < Columns t"
      using j wf_bounds [OF wf] by simp_all
    have "(\<lambda>r c. grid_of (Rows t) (Columns t) cs r (if r = Row t \<and> c = j then j - count else c)) =
        (\<lambda>r c. grid t r (if r = Row t \<and> j \<le> c \<and> c < Columns t then c - count else c))"
      using j assms(2) by (auto simp: g fun_eq_iff Suc_le_eq intro!: arg_cong [where f = "grid t _"])
    then show "ok (CopyCell s j (usub j count)) (?I j)"
      unfolding s v using CopyCell_ok [OF wf len c] by simp
  qed (use assms in simp)
qed

lemma ShiftLeft_ok:
  assumes wf: "wf_term t" and "0 < count" and "Column t + count \<le> Columns t"
  shows "ok (ShiftLeft t count) (\<lambda>t'. \<exists>cs. t' = recell t cs \<and> length cs = Rows t * Columns t \<and>
    grid_of (Rows t) (Columns t) cs = (\<lambda>r c. grid t r
      (if r = Row t \<and> Column t \<le> c \<and> c + count < Columns t then c + count else c)))"
proof -
  let ?I = "\<lambda>j t'. \<exists>cs. t' = recell t cs \<and> length cs = Rows t * Columns t \<and>
    grid_of (Rows t) (Columns t) cs = (\<lambda>r c. grid t r
      (if r = Row t \<and> Column t \<le> c \<and> c < j then c + count else c))"
  have "ok (for_plus (Column t) count (Columns t) (\<lambda>column t. CopyCell t column (uadd column count)) t)
      (\<lambda>(j, t'). ?I j t' \<and> j = max (Column t) (Columns t - count))"
  proof (rule for_plus_ok)
    show "?I (Column t) t"
      by (intro exI [of _ "buffer t (Cells t)"]) (use recell_start [OF wf] in \<open>auto simp: fun_eq_iff\<close>)
  next
    fix j s
    assume j: "Column t \<le> j" "j + count < Columns t" and "?I j s"
    then obtain cs where s: "s = recell t cs" and len: "length cs = Rows t * Columns t"
      and g: "grid_of (Rows t) (Columns t) cs = (\<lambda>r c. grid t r
        (if r = Row t \<and> Column t \<le> c \<and> c < j then c + count else c))" by blast
    have v: "uadd j count = j + count" and c: "j < Columns t" "j + count < Columns t"
      using j wf_bounds [OF wf] by simp_all
    have "(\<lambda>r c. grid_of (Rows t) (Columns t) cs r (if r = Row t \<and> c = j then j + count else c)) =
        (\<lambda>r c. grid t r (if r = Row t \<and> Column t \<le> c \<and> c < Suc j then c + count else c))"
      using j assms(2) by (auto simp: g fun_eq_iff less_Suc_eq intro!: arg_cong [where f = "grid t _"])
    then show "ok (CopyCell s j (uadd j count)) (?I (Suc j))"
      unfolding s v using CopyCell_ok [OF wf len c] by simp
  qed
  moreover have "max (Column t) (Columns t - count) = Columns t - count" using assms(3) by simp
  moreover have "c < Columns t - count \<longleftrightarrow> c + count < Columns t" for c using assms(3) by auto
  ultimately show ?thesis unfolding ShiftLeft_def ok_map_option
    by (elim ok_mono) (auto simp: fun_eq_iff)
qed

section \<open>Writing a character\<close>

definition PutCharacter :: "term_state \<Rightarrow> CHAR16 \<Rightarrow> term_state option" where
  "PutCharacter t character = do {
     t \<leftarrow> (if WrapPending t then IndexDown (t\<lparr>Column := 0\<rparr>) else Some t);
     t \<leftarrow> (if InsertMode t \<and> uadd (Column t) 1 < Columns t
           then do { t \<leftarrow> ShiftRight t 1;
                     MarkDirty t (Row t) (Column t) (usub (Columns t) 1) }
           else Some t);
     t \<leftarrow> WriteCell t (CellAt t (Row t) (Column t))
           \<lparr>Character = character, Attribute = TerminalAttribute t\<rparr>;
     t \<leftarrow> MarkDirty t (Row t) (Column t) (Column t);
     if uadd (Column t) 1 = Columns t then Some (t\<lparr>WrapPending := True\<rparr>)
     else Some (t\<lparr>Column := uadd (Column t) 1\<rparr>) }"

text \<open>A pending wrap is an index to the next line's first column before the character is written.\<close>

lemma PutCharacter_wrap:
  assumes "wf_term t" and "WrapPending t"
  shows "PutCharacter t ch = Option.bind (IndexDown (t\<lparr>Column := 0\<rparr>)) (\<lambda>t. PutCharacter t ch)"
proof (cases "IndexDown (t\<lparr>Column := 0\<rparr>)")
  case (Some t')
  have "wf_term (t\<lparr>Column := 0\<rparr>)"
    using assms wf_bounds [OF assms(1)] by (simp add: wf_cursor_update)
  then have "\<not> WrapPending t'" using IndexDown_sel(1) Some by blast
  then show ?thesis using assms(2) Some by (simp add: PutCharacter_def)
qed (simp add: PutCharacter_def assms)

text \<open>Where the cursor goes after the character: right, or into the pending-wrap state.\<close>

definition advance :: "term_state \<Rightarrow> term_state" where
  "advance t = (if Column t + 1 = Columns t then t\<lparr>WrapPending := True\<rparr>
     else t\<lparr>Column := Column t + 1\<rparr>)"

text \<open>The grid after a character at the cursor, with the rest of the line moved in insert mode.\<close>

definition put_grid :: "term_state \<Rightarrow> CHAR16 \<Rightarrow> nat \<Rightarrow> nat \<Rightarrow> TERMINAL_CELL" where
  "put_grid t ch r c =
     (if r = Row t \<and> c = Column t then \<lparr>Character = ch, Attribute = TerminalAttribute t\<rparr>
      else if r = Row t \<and> InsertMode t \<and> Column t < c \<and> c < Columns t then grid t r (c - 1)
      else grid t r c)"

lemma PutCharacter_ok:
  assumes wf: "wf_term t" and "\<not> WrapPending t" and "ch \<noteq> 0"
  shows "ok (PutCharacter t ch) (\<lambda>t'. \<exists>t1. drawn t t1 \<and> grid t1 = put_grid t ch \<and> t' = advance t1)"
proof -
  note b = wf_bounds [OF wf]
  define ins where "ins \<longleftrightarrow> InsertMode t \<and> Column t + 1 < Columns t"
  define g1 where "g1 = (\<lambda>r c. grid t r
    (if ins \<and> r = Row t \<and> Column t < c \<and> c < Columns t then c - 1 else c))"
  have "ok (if ins then do { t \<leftarrow> ShiftRight t 1; MarkDirty t (Row t) (Column t) (usub (Columns t) 1) }
      else Some t) (\<lambda>t1. drawn t t1 \<and> grid t1 = g1)"
  proof (cases ins)
    case True
    then obtain cs where s1: "ShiftRight t 1 = Some (recell t cs)"
      and len: "length cs = Rows t * Columns t" and g: "grid_of (Rows t) (Columns t) cs = g1"
      using ShiftRight_ok [OF wf, of 1] by (auto simp: ins_def g1_def Suc_le_eq elim!: okE)
    have fr: "frame t (recell t cs)"
      by (rule recell_frame [OF wf len]) (simp add: g g1_def wf)
    have gr: "grid (recell t cs) = g1" by (simp add: g)
    show ?thesis
      unfolding if_P [OF True] s1 bind.bind_lunit
      by (rule ok_mono [OF MarkDirty_ok [OF frame_wf [OF wf fr]]])
        (use fr gr b in \<open>auto simp: drawn_def g1_def intro: frame_trans split: if_splits\<close>)
  qed (simp add: drawn_refl [OF wf] g1_def fun_eq_iff)
  then obtain t1 where t1: "(if ins then do { t \<leftarrow> ShiftRight t 1;
      MarkDirty t (Row t) (Column t) (usub (Columns t) 1) } else Some t) = Some t1"
    and d1: "drawn t t1" and g1: "grid t1 = g1" by (elim okE conjE)
  note wf1 = drawn_wf [OF wf d1] and sel = frame_sel [OF drawn_frame [OF d1]]
  let ?x = "\<lparr>Character = ch, Attribute = TerminalAttribute t\<rparr>"
  let ?cs = "(buffer t1 (Cells t1))[Row t * Columns t + Column t := ?x]"
  have len: "length ?cs = Rows t1 * Columns t1" using wf1 by simp
  have "textual ?cs"
    using wf_textual [OF wf1, of "Cells t1"] assms(3) set_update_subset_insert
    by (fastforce simp: textual_def)
  then have fr2: "frame t1 (recell t1 ?cs)"
    by (intro recell_frame [OF wf1 len] grid_of_text len)
  note wf2 = frame_wf [OF wf1 fr2]
  have i: "CellAt t1 (Row t) (Column t) = Row t * Columns t + Column t"
    "Row t * Columns t + Column t < Rows t * Columns t"
    using CellAt_eq [OF wf1, of "Row t" "Column t"] b by (simp_all add: sel cell_index_lt)
  have w: "WriteCell t1 (CellAt t1 (Row t) (Column t)) ?x = Some (recell t1 ?cs)"
    using i wf1 by (simp add: WriteCell_def WriteBuffer_def painted_def sel set_buffer_def
        split: SCREEN.splits)
  have g2: "grid (recell t1 ?cs) = put_grid t ch"
    using grid_of_update [OF b(5,6), of "buffer t1 (Cells t1)" ?x] b wf1 g1
    by (auto simp: sel grid_def [of t1, symmetric, unfolded sel] put_grid_def fun_eq_iff g1_def ins_def)
  obtain t3 where t3: "MarkDirty (recell t1 ?cs) (Row t) (Column t) (Column t) = Some t3"
    and d3: "drawn (recell t1 ?cs) t3" and g3: "grid t3 = put_grid t ch"
    and x3: "dirty t3 (Row t) (Column t)"
    using MarkDirty_ok [OF wf2, of "Row t" "Column t" "Column t"] b g2
    by (auto simp: sel elim!: okE)
  have "drawn t t3"
    unfolding drawn_def
  proof (intro conjI allI impI)
    show fr: "frame t t3" using d1 fr2 d3 by (blast intro: frame_trans drawn_frame)
    show "dirty t3 r c" if "grid t3 r c \<noteq> grid t r c" for r c
    proof (cases "r = Row t \<and> c = Column t")
      case False
      then have "grid t1 r c \<noteq> grid t r c"
        using that b by (auto simp: g3 g1 g1_def put_grid_def ins_def split: if_splits)
      then have "dirty t1 r c" using d1 by (simp add: drawn_def)
      then show ?thesis by (rule frame_dirty [OF drawn_frame [OF d3] frame_dirty [OF fr2]])
    qed (use x3 in simp)
  qed
  moreover have "PutCharacter t ch = Some (advance t3)"
    using assms(2) t1 w t3 b
    by (simp add: PutCharacter_def ins_def sel TerminalAttribute_frame [OF drawn_frame [OF d1]]
        frame_sel [OF drawn_frame [OF d3]] advance_def)
  ultimately show ?thesis using g3 by auto
qed

lemma advance_good:
  assumes "wf_term t"
  shows "good t (advance t)"
  using good_moved [OF assms] wf_bounds [OF assms] by (simp add: advance_def)

lemma PutCharacter_good:
  assumes "wf_term t" and "ch \<noteq> 0"
  shows "ok (PutCharacter t ch) (good t)"
proof -
  have here: "ok (PutCharacter t ch) (good t)" if "wf_term t" "\<not> WrapPending t" for t
    using PutCharacter_ok [OF that assms(2)]
    by (elim ok_mono) (metis advance_good drawn_good drawn_wf good_trans that(1))
  show ?thesis
  proof (cases "WrapPending t")
    case True
    have g: "good t (t\<lparr>Column := 0\<rparr>)"
      using good_moved [OF assms(1)] wf_bounds [OF assms(1)] by simp
    have "ok (Option.bind (IndexDown (t\<lparr>Column := 0\<rparr>)) (\<lambda>t. PutCharacter t ch))
        (good (t\<lparr>Column := 0\<rparr>))"
      by (rule ok_good_seq [OF IndexDown_good])
        (use goodD(1) [OF g] here IndexDown_sel(1) in \<open>auto dest: goodD(1)\<close>)
    then show ?thesis unfolding PutCharacter_wrap [OF assms(1) True]
      by (rule ok_mono) (rule good_trans [OF g])
  qed (rule here [OF assms(1)])
qed

section \<open>Inserting and deleting characters\<close>

definition InsertCharacters :: "term_state \<Rightarrow> UINTN \<Rightarrow> term_state option" where
  "InsertCharacters t count = do {
     let available = usub (Columns t) (Column t);
     let count = min count available;
     t \<leftarrow> ShiftRight t count;
     t \<leftarrow> FillCells t (Row t) (Column t) (usub (uadd (Column t) count) 1) (TerminalAttribute t);
     MarkDirty t (Row t) (Column t) (usub (Columns t) 1) }"

definition DeleteCharacters :: "term_state \<Rightarrow> UINTN \<Rightarrow> term_state option" where
  "DeleteCharacters t count = do {
     let available = usub (Columns t) (Column t);
     let count = min count available;
     t \<leftarrow> ShiftLeft t count;
     t \<leftarrow> FillCells t (Row t) (usub (Columns t) count) (usub (Columns t) 1) (TerminalAttribute t);
     MarkDirty t (Row t) (Column t) (usub (Columns t) 1) }"

definition chars_right :: "term_state \<Rightarrow> nat \<Rightarrow> nat \<Rightarrow> nat \<Rightarrow> TERMINAL_CELL" where
  "chars_right t count = overlay t (\<lambda>r c. r = Row t \<and> Column t \<le> c)
     (\<lambda>r c. if Column t + count \<le> c then grid t r (c - count) else blank (TerminalAttribute t))"

definition chars_left :: "term_state \<Rightarrow> nat \<Rightarrow> nat \<Rightarrow> nat \<Rightarrow> TERMINAL_CELL" where
  "chars_left t count = overlay t (\<lambda>r c. r = Row t \<and> Column t \<le> c)
     (\<lambda>r c. if c + count < Columns t then grid t r (c + count) else blank (TerminalAttribute t))"

text \<open>The common tail of both: a blank range in the cursor's row, then the whole rest is dirty.\<close>

lemma fill_and_mark:
  assumes wf: "wf_term t" and len: "length cs = Rows t * Columns t"
    and same: "\<And>r c. \<not> (r = Row t \<and> Column t \<le> c \<and> c < Columns t) \<Longrightarrow>
      grid_of (Rows t) (Columns t) cs r c = grid t r c"
    and "Column t \<le> a" and chars: "\<And>r c. Character (grid_of (Rows t) (Columns t) cs r c) \<noteq> 0"
  shows "ok (do { t' \<leftarrow> FillCells (recell t cs) (Row t) a b x;
      MarkDirty t' (Row t') (Column t') (usub (Columns t') 1) })
    (\<lambda>t'. drawn t t' \<and> grid t' = (\<lambda>r c. if r = Row t \<and> a \<le> c \<and> c \<le> b \<and> c < Columns t
       then blank x else grid_of (Rows t) (Columns t) cs r c))"
proof -
  note fr = recell_frame [OF wf len chars]
  note wf1 = frame_wf [OF wf fr] and bnd = wf_bounds [OF wf]
  obtain t1 where t1: "FillCells (recell t cs) (Row t) a b x = Some t1" "drawn (recell t cs) t1"
    and g: "grid t1 = overlay (recell t cs) (\<lambda>r c. r = Row t \<and> a \<le> c \<and> c \<le> b) (\<lambda>_ _. blank x)"
    using FillCells_ok [OF wf1, of "Row t" a b x] by (auto elim: okE)
  note wf2 = drawn_wf [OF wf1 t1(2)]
  have fr2: "frame t t1" using fr t1(2) by (blast intro: frame_trans drawn_frame)
  have u: "usub (Columns t) 1 = Columns t - 1" using bnd by simp
  have g1: "grid t1 = (\<lambda>r c. if r = Row t \<and> a \<le> c \<and> c \<le> b \<and> c < Columns t
       then blank x else grid_of (Rows t) (Columns t) cs r c)"
    using bnd by (auto simp: g overlay_def on_screen_def fun_eq_iff)
  have changed: "r = Row t \<and> Column t \<le> c \<and> c < Columns t" if "grid t1 r c \<noteq> grid t r c" for r c
    using that same [of r c] assms(4) by (auto simp: g1 split: if_splits)
  show ?thesis unfolding t1 bind.bind_lunit frame_sel [OF fr2] u
  proof (rule ok_mono [OF MarkDirty_ok [OF wf2]], intro conjI)
    fix t2
    assume t2: "drawn t1 t2 \<and> grid t2 = grid t1 \<and> (Row t < Rows t1 \<longrightarrow> (\<forall>c. Column t \<le> c \<and>
      c \<le> Columns t - 1 \<and> c < Columns t1 \<longrightarrow> dirty t2 (Row t) c))"
    have "dirty t2 r c" if "grid t2 r c \<noteq> grid t r c" for r c
    proof -
      have "r = Row t \<and> Column t \<le> c \<and> c < Columns t" by (rule changed) (use that t2 in simp)
      then show ?thesis using t2 bnd by (auto simp: frame_sel [OF fr2])
    qed
    then show "drawn t t2" using t2 fr2 by (auto simp: drawn_def intro: frame_trans)
    show "grid t2 = (\<lambda>r c. if r = Row t \<and> a \<le> c \<and> c \<le> b \<and> c < Columns t
       then blank x else grid_of (Rows t) (Columns t) cs r c)" using t2 g1 by simp
  qed
qed

lemma InsertCharacters_ok:
  assumes wf: "wf_term t" and "0 < count"
  shows "ok (InsertCharacters t count)
    (\<lambda>t'. drawn t t' \<and> grid t' = chars_right t (min count (Columns t - Column t)))"
proof -
  note b = wf_bounds [OF wf]
  define n where "n = min count (Columns t - Column t)"
  have n: "0 < n" "Column t + n \<le> Columns t" using assms(2) b by (auto simp: n_def)
  obtain cs where s: "ShiftRight t n = Some (recell t cs)" and len: "length cs = Rows t * Columns t"
    and g: "grid_of (Rows t) (Columns t) cs = (\<lambda>r c. grid t r
      (if r = Row t \<and> Column t + n \<le> c \<and> c < Columns t then c - n else c))"
    using ShiftRight_ok [OF wf n] by (auto elim!: okE)
  have u: "usub (uadd (Column t) n) 1 = Column t + n - 1" "usub (Columns t) 1 = Columns t - 1"
    "usub (Columns t) (Column t) = Columns t - Column t"
    using n b by simp_all
  have eq: "InsertCharacters t count = do {
      t' \<leftarrow> FillCells (recell t cs) (Row t) (Column t) (Column t + n - 1) (TerminalAttribute t);
      MarkDirty t' (Row t') (Column t') (usub (Columns t') 1) }"
    unfolding InsertCharacters_def Let_def u(3) n_def [symmetric] s bind.bind_lunit painted_simps
      TerminalAttribute_painted u(1) by (rule refl)
  have same: "grid_of (Rows t) (Columns t) cs r c = grid t r c"
    if "\<not> (r = Row t \<and> Column t \<le> c \<and> c < Columns t)" for r c
    using that by (auto simp: g)
  have chars: "Character (grid_of (Rows t) (Columns t) cs r c) \<noteq> 0" for r c by (simp add: g wf)
  have gr: "(\<lambda>r c. if r = Row t \<and> Column t \<le> c \<and> c \<le> Column t + n - 1 \<and> c < Columns t
      then blank (TerminalAttribute t) else grid_of (Rows t) (Columns t) cs r c) = chars_right t n"
    using n b by (auto simp: g chars_right_def overlay_def on_screen_def fun_eq_iff grid_off)
  show ?thesis
    using fill_and_mark [OF wf len same le_refl chars] unfolding eq n_def [symmetric] gr [symmetric] .
qed

lemma DeleteCharacters_ok:
  assumes wf: "wf_term t" and "0 < count"
  shows "ok (DeleteCharacters t count)
    (\<lambda>t'. drawn t t' \<and> grid t' = chars_left t (min count (Columns t - Column t)))"
proof -
  note b = wf_bounds [OF wf]
  define n where "n = min count (Columns t - Column t)"
  have n: "0 < n" "Column t + n \<le> Columns t" using assms(2) b by (auto simp: n_def)
  obtain cs where s: "ShiftLeft t n = Some (recell t cs)" and len: "length cs = Rows t * Columns t"
    and g: "grid_of (Rows t) (Columns t) cs = (\<lambda>r c. grid t r
      (if r = Row t \<and> Column t \<le> c \<and> c + n < Columns t then c + n else c))"
    using ShiftLeft_ok [OF wf n] by (auto elim!: okE)
  have u: "usub (Columns t) n = Columns t - n" "usub (Columns t) 1 = Columns t - 1"
    "usub (Columns t) (Column t) = Columns t - Column t" "Column t \<le> Columns t - n"
    using n b by simp_all
  have eq: "DeleteCharacters t count = do {
      t' \<leftarrow> FillCells (recell t cs) (Row t) (Columns t - n) (Columns t - 1) (TerminalAttribute t);
      MarkDirty t' (Row t') (Column t') (usub (Columns t') 1) }"
    unfolding DeleteCharacters_def Let_def u(3) n_def [symmetric] s bind.bind_lunit painted_simps
      TerminalAttribute_painted u(1,2) by (rule refl)
  have same: "grid_of (Rows t) (Columns t) cs r c = grid t r c"
    if "\<not> (r = Row t \<and> Column t \<le> c \<and> c < Columns t)" for r c
    using that by (auto simp: g)
  have chars: "Character (grid_of (Rows t) (Columns t) cs r c) \<noteq> 0" for r c by (simp add: g wf)
  have gr: "(\<lambda>r c. if r = Row t \<and> Columns t - n \<le> c \<and> c \<le> Columns t - 1 \<and> c < Columns t
      then blank (TerminalAttribute t) else grid_of (Rows t) (Columns t) cs r c) = chars_left t n"
    using n b by (auto simp: g chars_left_def overlay_def on_screen_def fun_eq_iff grid_off)
  show ?thesis
    using fill_and_mark [OF wf len same u(4) chars] unfolding eq n_def [symmetric] gr [symmetric] .
qed

end
