(* ===== verification/Term_Modes.thy ===== *)
theory Term_Modes
  imports Term_Chars
begin

text \<open>
  CSI parameters, the colour maps and SGR (\<open>SelectGraphicRendition\<close>), erasing in the display and in
  the line, the alternate screen and the mode switches of Terminal.c.
\<close>

section \<open>Parameters\<close>

definition Parameter :: "term_state \<Rightarrow> UINTN \<Rightarrow> INT32 \<Rightarrow> INT32 option" where
  "Parameter t index defaultValue =
     (if index \<ge> ParameterCount t then Some defaultValue
      else do {
        v \<leftarrow> aget (Parameters t) index;
        if v < 0 then Some defaultValue else Some v })"

definition NonZeroParameter :: "term_state \<Rightarrow> UINTN \<Rightarrow> UINTN option" where
  "NonZeroParameter t index = do {
     value \<leftarrow> Parameter t index 1;
     Some (if value \<le> 0 then 1 else UINTN_of_INT32 value) }"

text \<open>The same on a well-formed state, where every index below \<open>ParameterCount\<close> is in the array.\<close>

definition param :: "term_state \<Rightarrow> nat \<Rightarrow> int \<Rightarrow> int" where
  "param t i d = (if i < ParameterCount t \<and> 0 \<le> Parameters t ! i then Parameters t ! i else d)"

lemma wf_param_range:
  assumes "wf_term t" and "i < ParameterCount t"
  shows "i < 16" and "-1 \<le> Parameters t ! i" and "Parameters t ! i \<le> 9999999"
proof -
  have p: "wf_params t" using assms(1) by (rule wfD)
  then show i: "i < 16" using assms(2) by (simp add: wf_params_def)
  have "Parameters t ! i \<in> set (Parameters t)" using i assms(1) by simp
  then show "-1 \<le> Parameters t ! i" "Parameters t ! i \<le> 9999999"
    using p by (auto simp: wf_params_def)
qed

lemma Parameter_eq [simp]: "wf_term t \<Longrightarrow> Parameter t i d = Some (param t i d)"
  using wf_param_range(1) [of t i] by (auto simp: Parameter_def param_def)

lemma param_le: "wf_term t \<Longrightarrow> d \<le> 9999999 \<Longrightarrow> param t i d \<le> 9999999"
  using wf_param_range(3) [of t i] by (auto simp: param_def)

lemma param_ge: "0 \<le> d \<Longrightarrow> 0 \<le> param t i d"
  by (auto simp: param_def)

definition count_of :: "term_state \<Rightarrow> nat \<Rightarrow> nat" where
  "count_of t i = (if param t i 1 \<le> 0 then 1 else nat (param t i 1))"

lemma NonZeroParameter_eq [simp]: "wf_term t \<Longrightarrow> NonZeroParameter t i = Some (count_of t i)"
  using param_le [of t 1 i] by (simp add: NonZeroParameter_def count_of_def)

lemma count_of_bounds: "wf_term t \<Longrightarrow> 0 < count_of t i \<and> count_of t i \<le> 9999999"
  using param_le [of t 1 i] by (auto simp: count_of_def)

section \<open>Colour approximation\<close>

text \<open>Both colour maps end by setting one bit per strong component and one for brightness.\<close>

definition color_bits :: "bool \<Rightarrow> bool \<Rightarrow> bool \<Rightarrow> bool \<Rightarrow> UINTN" where
  "color_bits blue green red bright =
     (let result = 0;
          result = (if blue then or result 1 else result);
          result = (if green then or result 2 else result);
          result = (if red then or result 4 else result);
          result = (if bright then or result 8 else result)
      in result)"

definition Map256Color :: "UINTN \<Rightarrow> UINTN" where
  "Map256Color color =
     (if color < 16 then color
      else if color \<ge> 232 then (if color \<ge> 244 then 15 else 8)
      else
        let color = usub color 16;
            red = color div 36;
            green = (color div 6) mod 6;
            blue = color mod 6
        in color_bits (blue \<ge> 3) (green \<ge> 3) (red \<ge> 3) (max red (max green blue) \<ge> 5))"

definition MapRgbColor :: "UINTN \<Rightarrow> UINTN \<Rightarrow> UINTN \<Rightarrow> UINTN" where
  "MapRgbColor red green blue =
     color_bits (blue \<ge> 128) (green \<ge> 128) (red \<ge> 128) (max red (max green blue) \<ge> 192)"

lemma color_bits_eq:
  "color_bits b g r i = of_bool b + 2 * of_bool g + 4 * of_bool r + 8 * of_bool i"
  by (cases b; cases g; cases r; cases i) (simp_all add: color_bits_def)

lemma color_bits_lt: "color_bits b g r i < 16"
  by (cases b; cases g; cases r; cases i) (simp_all add: color_bits_eq)

lemma Map256Color_lt: "Map256Color color < 16"
  by (simp add: Map256Color_def Let_def color_bits_lt)

lemma MapRgbColor_lt: "MapRgbColor red green blue < 16"
  by (simp add: MapRgbColor_def color_bits_lt)

section \<open>SGR\<close>

text \<open>
  One iteration of the loop over the parameters: the new state and the number of further parameters
  it consumed (what the source adds to \<open>Index\<close>; the loop's own increment comes on top). \<open>set_color\<close> is the common tail of the
  extended colour forms: 38 selects the foreground, 48 the background.
\<close>

definition set_color :: "INT32 \<Rightarrow> UINTN \<Rightarrow> term_state \<Rightarrow> term_state" where
  "set_color value color t =
     (if value = 38 then t\<lparr>Foreground := color\<rparr> else t\<lparr>Background := color\<rparr>)"

definition SgrStep :: "term_state \<Rightarrow> UINTN \<Rightarrow> (term_state \<times> UINTN) option" where
  "SgrStep t index = do {
     value \<leftarrow> Parameter t index 0;
     if value = 0 then
       Some (t\<lparr>Foreground := DefaultForeground t, Background := DefaultBackground t,
               Bold := False, Reverse := False\<rparr>, 0)
     else if value = 1 then Some (t\<lparr>Bold := True\<rparr>, 0)
     else if value = 22 then Some (t\<lparr>Bold := False\<rparr>, 0)
     else if value = 7 then Some (t\<lparr>Reverse := True\<rparr>, 0)
     else if value = 27 then Some (t\<lparr>Reverse := False\<rparr>, 0)
     else if value \<ge> 30 \<and> value \<le> 37 then
       Some (t\<lparr>Foreground := UINTN_of_INT32 (value - 30)\<rparr>, 0)
     else if value \<ge> 90 \<and> value \<le> 97 then
       Some (t\<lparr>Foreground := UINTN_of_INT32 (value - 90 + 8)\<rparr>, 0)
     else if value = 39 then Some (t\<lparr>Foreground := DefaultForeground t\<rparr>, 0)
     else if value \<ge> 40 \<and> value \<le> 47 then
       Some (t\<lparr>Background := UINTN_of_INT32 (value - 40)\<rparr>, 0)
     else if value \<ge> 100 \<and> value \<le> 107 then
       Some (t\<lparr>Background := UINTN_of_INT32 (value - 100 + 8)\<rparr>, 0)
     else if value = 49 then Some (t\<lparr>Background := DefaultBackground t\<rparr>, 0)
     else do {
       kind \<leftarrow> Parameter t (index + 1) (-1);
       if (value = 38 \<or> value = 48) \<and> index + 2 < ParameterCount t \<and> kind = 5 then do {
         c \<leftarrow> Parameter t (index + 2) 0;
         Some (set_color value (Map256Color (UINTN_of_INT32 c)) t, 2) }
       else if (value = 38 \<or> value = 48) \<and> index + 4 < ParameterCount t \<and> kind = 2 then do {
         r \<leftarrow> Parameter t (index + 2) 0;
         g \<leftarrow> Parameter t (index + 3) 0;
         b \<leftarrow> Parameter t (index + 4) 0;
         Some (set_color value
           (MapRgbColor (UINTN_of_INT32 r) (UINTN_of_INT32 g) (UINTN_of_INT32 b)) t, 4) }
       else Some (t, 0) } }"

text \<open>
  The loop. Its bound \<open>ParameterCount\<close> is not changed by a step, which the definition makes visible
  by fixing it in the argument \<open>n\<close>.
\<close>

function SgrLoop :: "nat \<Rightarrow> UINTN \<Rightarrow> term_state \<Rightarrow> term_state option" where
  "SgrLoop n index t =
     (if index < n then do { (t', k) \<leftarrow> SgrStep t index; SgrLoop n (index + k + 1) t' } else Some t)"
  by pat_completeness auto
termination
  by (relation "measure (\<lambda>(n, i, t). n - i)") auto

declare SgrLoop.simps [simp del]

definition SelectGraphicRendition :: "term_state \<Rightarrow> term_state option" where
  "SelectGraphicRendition t = SgrLoop (ParameterCount t) 0 t"

text \<open>SGR changes nothing but the rendition: the two colours, bold and reverse.\<close>

definition rendition_only :: "term_state \<Rightarrow> term_state \<Rightarrow> bool" where
  "rendition_only t t' \<longleftrightarrow> t' = t\<lparr>Foreground := Foreground t', Background := Background t',
     Bold := Bold t', Reverse := Reverse t'\<rparr>"

lemma rendition_only_refl [simp]: "rendition_only t t"
  by (simp add: rendition_only_def)

lemma rendition_only_trans:
  assumes "rendition_only t t'" and "rendition_only t' t''"
  shows "rendition_only t t''"
proof -
  have "t'' = t'\<lparr>Foreground := Foreground t'', Background := Background t'',
     Bold := Bold t'', Reverse := Reverse t''\<rparr>" using assms(2) by (simp only: rendition_only_def)
  also have "\<dots> = t\<lparr>Foreground := Foreground t'', Background := Background t'',
     Bold := Bold t'', Reverse := Reverse t''\<rparr>"
    by (subst assms(1) [unfolded rendition_only_def]) simp
  finally show ?thesis by (simp only: rendition_only_def)
qed

lemma wf_colors_lt:
  assumes "wf_term t"
  shows "DefaultForeground t < 16" "DefaultBackground t < 16" "Foreground t < 16" "Background t < 16"
  using wfD(4) [OF assms] by (simp_all add: wf_colors_def)

lemma set_color_wf: "wf_term t \<Longrightarrow> c < 16 \<Longrightarrow> wf_term (set_color v c t)"
  by (simp add: set_color_def wf_cursor_update)

lemma SgrStep_ok:
  assumes "wf_term t"
  shows "ok (SgrStep t i) (\<lambda>(t', k). wf_term t' \<and> rendition_only t t')"
proof -
  note c = wf_colors_lt [OF assms] Map256Color_lt MapRgbColor_lt
  have small: "UINTN_of_INT32 v < 16" if "0 \<le> v" "v < 16" for v :: int
    using that by (simp add: UINTN_of_INT32_def)
  show ?thesis
    unfolding SgrStep_def Parameter_eq [OF assms] bind.bind_lunit ok_if ok_Some prod.case
    using c assms
    by (simp add: wf_cursor_update set_color_wf small del: UINTN_of_INT32_eq)
      (simp add: set_color_def rendition_only_def)
qed

lemma SgrLoop_ok:
  assumes "wf_term t"
  shows "ok (SgrLoop n i t) (\<lambda>t'. wf_term t' \<and> rendition_only t t')"
  using assms
proof (induction n i t rule: SgrLoop.induct)
  case (1 n i t)
  show ?case
  proof (cases "i < n")
    case True
    obtain t1 k where s: "SgrStep t i = Some (t1, k)" "wf_term t1" "rendition_only t t1"
      using SgrStep_ok [OF "1.prems", of i] by (auto elim: okE)
    have "ok (SgrLoop n (i + k + 1) t1) (\<lambda>t'. wf_term t' \<and> rendition_only t1 t')"
      using "1.IH" [OF True s(1) refl] s(2) by simp
    then show ?thesis using True s
      by (simp add: SgrLoop.simps [of n i]) (auto elim!: ok_mono intro: rendition_only_trans)
  next
    case False
    then show ?thesis using "1.prems" by (simp add: SgrLoop.simps [of n i])
  qed
qed

lemma SGR_ok:
  assumes "wf_term t"
  shows "ok (SelectGraphicRendition t) (\<lambda>t'. wf_term t' \<and> rendition_only t t')"
  unfolding SelectGraphicRendition_def by (rule SgrLoop_ok [OF assms])

lemma rendition_good:
  assumes "wf_term t'" and "rendition_only t t'"
  shows "good t t'"
proof -
  obtain f b bo re where t': "t' = t\<lparr>Foreground := f, Background := b, Bold := bo, Reverse := re\<rparr>"
    using assms(2) unfolding rendition_only_def by metis
  show ?thesis using assms(1)
    by (simp add: t' good_def quiet_def mirror_def on_screen_def dirty_def grid_def buffer_def
        split: SCREEN.splits)
qed

lemma SGR_good: "wf_term t \<Longrightarrow> ok (SelectGraphicRendition t) (good t)"
  using SGR_ok by (rule ok_mono) (auto intro: rendition_good)

section \<open>Erasing\<close>

definition ResetDirtyRow :: "UINTN \<Rightarrow> term_state \<Rightarrow> term_state option" where
  "ResetDirtyRow row t = do {
     starts \<leftarrow> aset (DirtyStart t) row (UINT16_cast (Columns t));
     ends \<leftarrow> aset (DirtyEnd t) row 0;
     Some (t\<lparr>DirtyStart := starts, DirtyEnd := ends\<rparr>) }"

definition EraseDisplay :: "term_state \<Rightarrow> INT32 \<Rightarrow> term_state option" where
  "EraseDisplay t mode =
     (let attribute = TerminalAttribute t in
      if mode = 2 \<or> mode = 3 then do {
        t \<leftarrow> ClearBuffer t (Cells t);
        let t = console ClearScreen t;
        for_below 0 (Rows t) ResetDirtyRow t }
      else if mode = 1 then do {
        t \<leftarrow> FillRows t 0 (Row t) attribute;
        FillCells t (Row t) 0 (Column t) attribute }
      else do {
        t \<leftarrow> FillCells t (Row t) (Column t) (usub (Columns t) 1) attribute;
        FillRows t (uadd (Row t) 1) (Rows t) attribute })"

definition EraseLine :: "term_state \<Rightarrow> INT32 \<Rightarrow> term_state option" where
  "EraseLine t mode =
     (let attribute = TerminalAttribute t in
      if mode = 1 then FillCells t (Row t) 0 (Column t) attribute
      else if mode = 2 then FillCells t (Row t) 0 (usub (Columns t) 1) attribute
      else FillCells t (Row t) (Column t) (usub (Columns t) 1) attribute)"

text \<open>The cell every \<open>ClearBuffer\<close> writes: a space in the default colours.\<close>

definition default_blank :: "term_state \<Rightarrow> TERMINAL_CELL" where
  "default_blank t = blank (EFI_TEXT_ATTR (DefaultForeground t) (DefaultBackground t))"

text \<open>The state after the whole screen has been cleared, on the glass and in the buffer.\<close>

definition cleared :: "term_state \<Rightarrow> term_state" where
  "cleared t = console ClearScreen (set_buffer (Cells t)
     (replicate (Rows t * Columns t) (default_blank t)) t)"

definition clean_rows :: "term_state \<Rightarrow> term_state" where
  "clean_rows t = t\<lparr>DirtyStart := replicate (Rows t) (Columns t), DirtyEnd := replicate (Rows t) 0\<rparr>"

lemma ResetDirty_loop:
  assumes "length (DirtyStart t) = Rows t" and "length (DirtyEnd t) = Rows t"
    and "Columns t \<le> 65535"
  shows "for_below 0 (Rows t) ResetDirtyRow t = Some (clean_rows t)"
proof -
  let ?I = "\<lambda>j t'. j \<le> Rows t \<and>
    t' = t\<lparr>DirtyStart := replicate j (Columns t) @ drop j (DirtyStart t),
           DirtyEnd := replicate j 0 @ drop j (DirtyEnd t)\<rparr>"
  have "ok (for_below 0 (Rows t) ResetDirtyRow t) (?I (max 0 (Rows t)))"
  proof (rule for_below_ok)
    show "?I 0 t" by simp
  next
    fix j s
    assume "j < Rows t" and "?I j s"
    then show "ok (ResetDirtyRow j s) (?I (Suc j))"
      using assms replicate_fill [of j "DirtyStart t" "Columns t"] replicate_fill [of j "DirtyEnd t" 0]
      by (simp add: ResetDirtyRow_def)
  qed
  then show ?thesis using assms by (auto simp: clean_rows_def elim!: okE)
qed

lemma EraseDisplay_2:
  assumes "wf_term t" and "mode = 2 \<or> mode = 3"
  shows "EraseDisplay t mode = Some (clean_rows (cleared t))"
proof -
  have "EraseDisplay t mode = for_below 0 (Rows t) ResetDirtyRow (cleared t)"
    using assms(2) by (simp add: EraseDisplay_def ClearBuffer_ok [OF assms(1)] cleared_def
        default_blank_def console_def)
  also have "\<dots> = for_below 0 (Rows (cleared t)) ResetDirtyRow (cleared t)"
    by (simp add: cleared_def console_def)
  also have "\<dots> = Some (clean_rows (cleared t))"
    by (rule ResetDirty_loop) (use assms(1) wf_bounds [OF assms(1)] in \<open>simp_all add: cleared_def console_def\<close>)
  finally show ?thesis .
qed

text \<open>The two partial forms of ED, and EL, as grids.\<close>

definition erase_grid :: "term_state \<Rightarrow> INT32 \<Rightarrow> nat \<Rightarrow> nat \<Rightarrow> TERMINAL_CELL" where
  "erase_grid t mode = overlay t
     (\<lambda>r c. if mode = 1 then r < Row t \<or> (r = Row t \<and> c \<le> Column t)
            else r > Row t \<or> (r = Row t \<and> c \<ge> Column t))
     (\<lambda>_ _. blank (TerminalAttribute t))"

definition erase_line_grid :: "term_state \<Rightarrow> INT32 \<Rightarrow> nat \<Rightarrow> nat \<Rightarrow> TERMINAL_CELL" where
  "erase_line_grid t mode = overlay t
     (\<lambda>r c. r = Row t \<and> (if mode = 1 then c \<le> Column t else mode = 2 \<or> c \<ge> Column t))
     (\<lambda>_ _. blank (TerminalAttribute t))"

lemma overlay_cong:
  "(\<And>r c. on_screen t r c \<Longrightarrow> P r c \<longleftrightarrow> Q r c) \<Longrightarrow> overlay t P f = overlay t Q f"
  by (auto simp: overlay_def fun_eq_iff)

lemma EraseDisplay_ok:
  assumes wf: "wf_term t" and m: "mode \<noteq> 2" "mode \<noteq> 3"
  shows "ok (EraseDisplay t mode) (\<lambda>t'. drawn t t' \<and> grid t' = erase_grid t mode)"
proof (cases "mode = 1")
  case True
  obtain t1 where t1: "FillRows t 0 (Row t) (TerminalAttribute t) = Some t1" "drawn t t1"
    and g1: "grid t1 = overlay t (\<lambda>r c. 0 \<le> r \<and> r < Row t) (\<lambda>_ _. blank (TerminalAttribute t))"
    using FillRows_ok [OF wf, of 0 "Row t" "TerminalAttribute t"] by (elim okE conjE)
  note sel = frame_sel [OF drawn_frame [OF t1(2)]]
  show ?thesis
    using True t1
    by (simp add: EraseDisplay_def sel, intro ok_mono [OF FillCells_ok [OF drawn_wf [OF wf t1(2)]]])
      (auto simp: erase_grid_def overlay_def g1 sel fun_eq_iff intro: drawn_trans)
next
  case False
  have u: "usub (Columns t) 1 = Columns t - 1" "uadd (Row t) 1 = Row t + 1"
    using wf_bounds [OF wf] by simp_all
  obtain t1 where t1: "FillCells t (Row t) (Column t) (Columns t - 1) (TerminalAttribute t) = Some t1"
      "drawn t t1"
    and g1: "grid t1 = overlay t (\<lambda>r c. r = Row t \<and> Column t \<le> c \<and> c \<le> Columns t - 1)
      (\<lambda>_ _. blank (TerminalAttribute t))"
    using FillCells_ok [OF wf, of "Row t" "Column t" "Columns t - 1" "TerminalAttribute t"]
    by (elim okE conjE)
  note sel = frame_sel [OF drawn_frame [OF t1(2)]]
  have eq: "EraseDisplay t mode = FillRows t1 (Row t + 1) (Rows t) (TerminalAttribute t)"
    unfolding EraseDisplay_def Let_def u t1 bind.bind_lunit sel using False m by simp
  show ?thesis unfolding eq
    by (rule ok_mono [OF FillRows_ok [OF drawn_wf [OF wf t1(2)]]])
      (use t1(2) False in \<open>auto simp: erase_grid_def overlay_def g1 sel fun_eq_iff on_screen_def
        intro: drawn_trans\<close>)
qed

lemma EraseLine_ok:
  assumes wf: "wf_term t"
  shows "ok (EraseLine t mode) (\<lambda>t'. drawn t t' \<and> grid t' = erase_line_grid t mode)"
proof -
  have u: "usub (Columns t) 1 = Columns t - 1" using wf_bounds [OF wf] by simp
  have key: "ok (FillCells t (Row t) a b (TerminalAttribute t))
      (\<lambda>t'. drawn t t' \<and> grid t' = erase_line_grid t mode)"
    if "\<And>c. c < Columns t \<Longrightarrow> a \<le> c \<and> c \<le> b \<longleftrightarrow>
      (if mode = 1 then c \<le> Column t else mode = 2 \<or> c \<ge> Column t)" for a b
  proof (rule ok_mono [OF FillCells_ok [OF wf]])
    fix t'
    assume "drawn t t' \<and>
      grid t' = overlay t (\<lambda>r c. r = Row t \<and> a \<le> c \<and> c \<le> b) (\<lambda>_ _. blank (TerminalAttribute t)) \<and>
      (\<forall>c. a \<le> c \<and> c \<le> b \<and> on_screen t (Row t) c \<longrightarrow> dirty t' (Row t) c)"
    moreover have "overlay t (\<lambda>r c. r = Row t \<and> a \<le> c \<and> c \<le> b) (\<lambda>_ _. blank (TerminalAttribute t)) =
        erase_line_grid t mode"
      unfolding erase_line_grid_def by (rule overlay_cong) (use that in \<open>simp add: on_screen_def\<close>)
    ultimately show "drawn t t' \<and> grid t' = erase_line_grid t mode" by simp
  qed
  consider "mode = 1" | "mode = 2" | "mode \<noteq> 1" "mode \<noteq> 2" by blast
  then show ?thesis
  proof cases
    case 1
    then show ?thesis using key [of 0 "Column t"] by (simp add: EraseLine_def)
  next
    case 2
    then have "ok (FillCells t (Row t) 0 (Columns t - 1) (TerminalAttribute t))
        (\<lambda>t'. drawn t t' \<and> grid t' = erase_line_grid t mode)" by (intro key) auto
    then show ?thesis unfolding EraseLine_def Let_def u using 2 by simp
  next
    case 3
    then have "ok (FillCells t (Row t) (Column t) (Columns t - 1) (TerminalAttribute t))
        (\<lambda>t'. drawn t t' \<and> grid t' = erase_line_grid t mode)" by (intro key) auto
    then show ?thesis unfolding EraseLine_def Let_def u using 3 by simp
  qed
qed

lemma buffer_clean_rows [simp]: "buffer (clean_rows t) b = buffer t b"
  by (simp add: clean_rows_def)

lemma clean_rows_sel [simp]:
  "Rows (clean_rows t) = Rows t" "Columns (clean_rows t) = Columns t" "Cells (clean_rows t) = Cells t"
  "ConOut (clean_rows t) = ConOut t" "grid (clean_rows t) = grid t"
  "on_screen (clean_rows t) = on_screen t"
  by (simp_all add: clean_rows_def grid_def on_screen_def fun_eq_iff)

lemma wf_set_buffer:
  assumes "wf_term t" and "length cs = Rows t * Columns t" and "textual cs"
  shows "wf_term (set_buffer b cs t)"
  using assms unfolding wf_parts set_buffer_def by (cases b) simp_all

lemma wf_clean_rows:
  assumes "wf_term t"
  shows "wf_term (clean_rows t)" and "\<not> dirty (clean_rows t) r c"
proof -
  have "wf_dirty (clean_rows t)" using wf_bounds [OF assms] by (simp add: wf_dirty_def clean_rows_def)
  then show "wf_term (clean_rows t)" using assms unfolding wf_parts clean_rows_def by simp
  show "\<not> dirty (clean_rows t) r c"
    using wf_bounds [OF assms] by (auto simp: dirty_def clean_rows_def)
qed

lemma cleared_grid: "on_screen t r c \<Longrightarrow> grid (cleared t) r c = default_blank t"
  using cell_index_lt [of r "Rows t" c "Columns t"]
  unfolding cleared_def grid_update by (simp add: grid_def grid_of_def on_screen_def)

lemma cleared_good:
  assumes "wf_term t"
  shows "good t (clean_rows (cleared t))"
proof -
  have wf: "wf_term (cleared t)" using wf_set_buffer [OF assms]
    by (simp add: cleared_def default_blank_def)
  have "quiet t (clean_rows (cleared t))"
    by (simp add: quiet_def clean_rows_def cleared_def console_def)
  moreover have "mirror shown (clean_rows (cleared t))" if "clears shown" for shown
    using that cleared_grid [of t] unfolding mirror_def clean_rows_sel
    by (auto simp: clears_def default_blank_def blank_def cleared_def console_def on_screen_def)
  ultimately show ?thesis using wf_clean_rows(1) [OF wf] by (simp add: good_def)
qed

lemma EraseDisplay_good:
  assumes "wf_term t"
  shows "ok (EraseDisplay t mode) (good t)"
  using EraseDisplay_2 [OF assms] cleared_good [OF assms]
    drawn_ok_good [OF assms EraseDisplay_ok [OF assms, of mode]] by (cases "mode = 2 \<or> mode = 3") auto

section \<open>The alternate screen and the modes\<close>

definition SetAlternateScreen :: "term_state \<Rightarrow> bool \<Rightarrow> term_state option" where
  "SetAlternateScreen t enable =
     (if enable \<and> \<not> AlternateActive t then do {
        let t = t\<lparr>PrimaryRow := Row t, PrimaryColumn := Column t, Cells := AlternateScreen,
                  AlternateActive := True, Row := 0, Column := 0\<rparr>;
        t \<leftarrow> ClearBuffer t AlternateScreen;
        let t = console ClearScreen (t\<lparr>ScrollTop := 0, ScrollBottom := usub (Rows t) 1\<rparr>);
        Some (t\<lparr>WrapPending := False\<rparr>) }
      else if \<not> enable \<and> AlternateActive t then do {
        let t = t\<lparr>Cells := PrimaryScreen, AlternateActive := False,
                  Row := min (PrimaryRow t) (usub (Rows t) 1),
                  Column := min (PrimaryColumn t) (usub (Columns t) 1),
                  ScrollTop := 0, ScrollBottom := usub (Rows t) 1\<rparr>;
        t \<leftarrow> MarkDirtyRows t 0 (usub (Rows t) 1);
        Some (t\<lparr>WrapPending := False\<rparr>) }
      else Some (t\<lparr>WrapPending := False\<rparr>))"

definition SetMode :: "term_state \<Rightarrow> INT32 \<Rightarrow> bool \<Rightarrow> term_state option" where
  "SetMode t value enable =
     (if PrivateCsi t then
        (if value = 1 then Some (t\<lparr>ApplicationCursor := enable\<rparr>)
         else if value = 25 then Some (t\<lparr>CursorVisible := enable\<rparr>)
         else if value = 47 \<or> value = 1047 \<or> value = 1049 then SetAlternateScreen t enable
         else Some t)
      else if value = 4 then Some (t\<lparr>InsertMode := enable\<rparr>)
      else Some t)"

definition SetModes :: "term_state \<Rightarrow> bool \<Rightarrow> term_state option" where
  "SetModes t enable = for_below 0 (ParameterCount t)
     (\<lambda>index t. do { value \<leftarrow> Parameter t index 0; SetMode t value enable }) t"

text \<open>Entering and leaving the alternate screen, as equations on well-formed states.\<close>

definition enter_alternate :: "term_state \<Rightarrow> term_state" where
  "enter_alternate t = t\<lparr>PrimaryRow := Row t, PrimaryColumn := Column t, Cells := AlternateScreen,
     AlternateActive := True, Row := 0, Column := 0,
     Alternate := replicate (Rows t * Columns t) (default_blank t),
     ScrollTop := 0, ScrollBottom := Rows t - 1, ConOut := ConOut t @ [ClearScreen],
     WrapPending := False\<rparr>"

definition leave_alternate :: "term_state \<Rightarrow> term_state" where
  "leave_alternate t = t\<lparr>Cells := PrimaryScreen, AlternateActive := False,
     Row := min (PrimaryRow t) (Rows t - 1), Column := min (PrimaryColumn t) (Columns t - 1),
     ScrollTop := 0, ScrollBottom := Rows t - 1\<rparr>"

lemma wf_enter_alternate: "wf_term t \<Longrightarrow> wf_term (enter_alternate t)"
  unfolding wf_parts enter_alternate_def by (simp add: default_blank_def)

lemma wf_leave_alternate: "wf_term t \<Longrightarrow> wf_term (leave_alternate t)"
  unfolding wf_parts leave_alternate_def by (simp add: min_less_iff_disj)

lemma SetAlternateScreen_enter:
  assumes "wf_term t" and "\<not> AlternateActive t"
  shows "SetAlternateScreen t True = Some (enter_alternate t)"
proof -
  let ?t = "t\<lparr>PrimaryRow := Row t, PrimaryColumn := Column t, Cells := AlternateScreen,
    AlternateActive := True, Row := 0, Column := 0\<rparr>"
  have "wf_term ?t" using assms(1) unfolding wf_parts by simp
  from ClearBuffer_ok [OF this, of AlternateScreen] show ?thesis
    using assms wf_bounds [OF assms(1)]
    by (simp add: SetAlternateScreen_def enter_alternate_def set_buffer_def console_def
        default_blank_def)
qed

lemma SetAlternateScreen_leave:
  assumes "wf_term t" and "AlternateActive t"
  shows "ok (SetAlternateScreen t False) (\<lambda>t'. \<exists>t1. t' = t1\<lparr>WrapPending := False\<rparr> \<and>
    drawn (leave_alternate t) t1 \<and> grid t1 = grid (leave_alternate t) \<and>
    (\<forall>r c. on_screen t r c \<longrightarrow> dirty t1 r c))"
proof -
  note b = wf_bounds [OF assms(1)]
  have u: "usub (Rows t) 1 = Rows t - 1" "usub (Columns t) 1 = Columns t - 1" using b by simp_all
  have "SetAlternateScreen t False =
      map_option (\<lambda>t1. t1\<lparr>WrapPending := False\<rparr>) (MarkDirtyRows (leave_alternate t) 0 (Rows t - 1))"
    using assms(2) u
    by (simp add: SetAlternateScreen_def leave_alternate_def map_conv_bind_option comp_def)
  moreover have "on_screen (leave_alternate t) = on_screen t"
    by (simp add: leave_alternate_def on_screen_def fun_eq_iff)
  ultimately show ?thesis
    using MarkDirtyRows_ok [OF wf_leave_alternate [OF assms(1)], of 0 "Rows t - 1"]
    by (simp, elim ok_mono) (auto simp: on_screen_def)
qed

lemma enter_alternate_good:
  assumes "wf_term t"
  shows "good t (enter_alternate t)"
proof -
  have "grid (enter_alternate t) r c = default_blank t" if "on_screen t r c" for r c
    using that cell_index_lt [of r "Rows t" c "Columns t"]
    by (simp add: grid_def grid_of_def on_screen_def enter_alternate_def buffer_def)
  then have "mirror shown (enter_alternate t)" if "clears shown" for shown
    using that by (auto simp: mirror_def clears_def on_screen_def default_blank_def blank_def
        enter_alternate_def)
  then show ?thesis using wf_enter_alternate [OF assms]
    by (simp add: good_def quiet_def enter_alternate_def)
qed

lemma SetAlternateScreen_good:
  assumes "wf_term t"
  shows "ok (SetAlternateScreen t enable) (good t)"
proof (cases "enable \<longleftrightarrow> AlternateActive t")
  case True
  then show ?thesis using good_moved(3) [OF assms] by (auto simp: SetAlternateScreen_def)
next
  case False
  show ?thesis
  proof (cases enable)
    case True
    then show ?thesis
      using False SetAlternateScreen_enter [OF assms] enter_alternate_good [OF assms] by simp
  next
    case disable: False
    then have "AlternateActive t" using False by simp
    from SetAlternateScreen_leave [OF assms this] have "ok (SetAlternateScreen t False) (good t)"
    proof (rule ok_mono, elim exE conjE)
      fix t' t1
      assume t': "t' = t1\<lparr>WrapPending := False\<rparr>" and d: "drawn (leave_alternate t) t1"
        and all: "\<forall>r c. on_screen t r c \<longrightarrow> dirty t1 r c"
      note sel = frame_sel [OF drawn_frame [OF d]]
      have "wf_term t1" using drawn_wf [OF wf_leave_alternate [OF assms] d] .
      moreover have "quiet t t1" by (simp add: quiet_def sel) (simp add: leave_alternate_def)
      moreover have "on_screen t1 = on_screen t"
        by (simp add: sel) (simp add: leave_alternate_def on_screen_def fun_eq_iff)
      moreover from this have "mirror shown t'" for shown
        using all by (auto simp: mirror_def t')
      ultimately show "good t t'" by (simp add: good_def t' quiet_def)
    qed
    then show ?thesis using disable by simp
  qed
qed

lemma SetMode_good:
  assumes "wf_term t"
  shows "ok (SetMode t value enable) (good t)"
proof -
  have "good t (t\<lparr>ApplicationCursor := w\<rparr>)" "good t (t\<lparr>CursorVisible := w\<rparr>)"
    "good t (t\<lparr>InsertMode := w\<rparr>)" for w
    using assms by (simp_all add: good_def quiet_def mirror_def on_screen_def dirty_def grid_def
        buffer_def split: SCREEN.splits)
  then show ?thesis using assms SetAlternateScreen_good by (simp add: SetMode_def)
qed

lemma SetModes_good:
  assumes "wf_term t"
  shows "ok (SetModes t enable) (good t)"
proof -
  have "ok (SetModes t enable) ((\<lambda>_. good t) (max 0 (ParameterCount t)))"
    unfolding SetModes_def
  proof (rule for_below_ok)
    show "good t t" using assms by simp
  next
    fix j s
    assume g: "good t s"
    have "ok (SetMode s (param s j 0) enable) (good t)"
      by (rule ok_mono [OF SetMode_good [OF goodD(1) [OF g]]]) (rule good_trans [OF g])
    then show "ok (do { value \<leftarrow> Parameter s j 0; SetMode s value enable }) (good t)"
      using goodD(1) [OF g] by simp
  qed
  then show ?thesis by simp
qed

end
