(* ===== verification/Term_Csi.thy ===== *)
theory Term_Csi
  imports Term_Modes
begin

text \<open>
  The reply queue (\<open>QueueReply\<close> and \<open>WolfSshTerminalTakeResponse\<close>) as an instance of the bounded
  queue contract, and the dispatcher of CSI sequences, \<open>HandleCsi\<close>.
\<close>

section \<open>The reply queue\<close>

definition QueueReply :: "term_state \<Rightarrow> UINT8 list \<Rightarrow> UINTN \<Rightarrow> term_state option" where
  "QueueReply t reply len =
     (let available = usub TERMINAL_REPLY_SIZE (ReplyLength t);
          len = min len available
      in if len \<noteq> 0 then do {
           replies \<leftarrow> CopyMem (Replies t) (ReplyLength t) reply 0 len;
           Some (t\<lparr>Replies := replies, ReplyLength := uadd (ReplyLength t) len\<rparr>) }
         else Some t)"

text \<open>The bytes copied to the caller's buffer (at most \<open>capacity\<close> of them) and the new state.\<close>

definition WolfSshTerminalTakeResponse :: "term_state \<Rightarrow> UINTN \<Rightarrow> (UINT8 list \<times> term_state) option" where
  "WolfSshTerminalTakeResponse t capacity =
     (if capacity = 0 then Some ([], t)
      else do {
        let len = min capacity (ReplyLength t);
        out \<leftarrow> aread (Replies t) 0 len;
        let t = t\<lparr>ReplyLength := usub (ReplyLength t) len\<rparr>;
        t \<leftarrow> (if ReplyLength t \<noteq> 0 then do {
                replies \<leftarrow> CopyMem (Replies t) 0 (Replies t) len (ReplyLength t);
                Some (t\<lparr>Replies := replies\<rparr>) }
              else Some t);
        Some (out, t) })"

definition pending :: "term_state \<Rightarrow> UINT8 list" where
  "pending t = take (ReplyLength t) (Replies t)"

lemma wf_replies_le: "wf_term t \<Longrightarrow> ReplyLength t \<le> 128"
  using wfD(7) by (auto simp: wf_replies_def)

lemma wf_replies_update:
  "wf_term t \<Longrightarrow> length rs = 128 \<Longrightarrow> n \<le> 128 \<Longrightarrow> wf_term (t\<lparr>Replies := rs, ReplyLength := n\<rparr>)"
  unfolding wf_parts by simp

lemma replies_good:
  assumes "wf_term t" and "length rs = 128" and "n \<le> 128"
  shows "good t (t\<lparr>Replies := rs, ReplyLength := n\<rparr>)"
  using wf_replies_update [OF assms]
  by (simp add: good_def quiet_def mirror_def on_screen_def dirty_def grid_def buffer_def
      split: SCREEN.splits)

lemma QueueReply_ok:
  assumes "wf_term t" and "n \<le> length reply"
  shows "ok (QueueReply t reply n)
    (\<lambda>t'. good t t' \<and> pending t' = take 128 (pending t @ take n reply) \<and>
       t' = t\<lparr>Replies := Replies t', ReplyLength := ReplyLength t'\<rparr>)"
proof -
  let ?k = "ReplyLength t" and ?m = "min n (128 - ReplyLength t)"
  have k: "?k \<le> 128" and len: "length (Replies t) = 128"
    using assms(1) wf_replies_le by simp_all
  have u: "usub 128 ?k = 128 - ?k" "uadd ?k ?m = ?k + ?m" using k by simp_all
  show ?thesis
  proof (cases "?m = 0")
    case True
    then have "QueueReply t reply n = Some t" unfolding QueueReply_def u Let_def by simp
    moreover have "pending t = take 128 (pending t @ take n reply)"
      using True len k by (auto simp: pending_def)
    ultimately show ?thesis using assms(1) by simp
  next
    case False
    let ?rs = "take ?k (Replies t) @ take ?m reply @ drop (?k + ?m) (Replies t)"
    have fits: "?k + ?m \<le> length (Replies t)" "0 + ?m \<le> length reply"
      using assms(2) k len by auto
    have eq: "QueueReply t reply n = Some (t\<lparr>Replies := ?rs, ReplyLength := ?k + ?m\<rparr>)"
      unfolding QueueReply_def u Let_def CopyMem_def if_P [OF conjI [OF fits]] using False by simp
    have l: "length ?rs = 128" using assms(2) k len by simp
    have q: "take (?k + ?m) ?rs = take 128 (take ?k (Replies t) @ take n reply)"
      using assms(2) k len by (simp add: min_def)
    have "good t (t\<lparr>Replies := ?rs, ReplyLength := ?k + ?m\<rparr>)"
      by (rule replies_good [OF assms(1) l]) (use k in simp)
    then show ?thesis unfolding eq ok_Some pending_def using q by simp
  qed
qed

lemma TakeResponse_ok:
  assumes "wf_term t"
  shows "ok (WolfSshTerminalTakeResponse t n)
    (\<lambda>(out, t'). good t t' \<and> out = take n (pending t) \<and> pending t' = drop n (pending t))"
proof (cases "n = 0")
  case True
  then show ?thesis using assms by (simp add: WolfSshTerminalTakeResponse_def)
next
  case False
  let ?k = "ReplyLength t" and ?m = "min n (ReplyLength t)"
  have k: "?k \<le> 128" and len: "length (Replies t) = 128"
    using assms wf_replies_le by simp_all
  have u: "usub ?k ?m = ?k - ?m" using k by simp
  have out: "take ?m (Replies t) = take n (pending t)" by (simp add: pending_def min.commute)
  have rd: "aread (Replies t) 0 ?m = Some (take ?m (Replies t))"
    using k len by (simp add: aread_def)
  show ?thesis
  proof (cases "?k - ?m = 0")
    case True
    have eq: "WolfSshTerminalTakeResponse t n = Some (take ?m (Replies t), t\<lparr>ReplyLength := 0\<rparr>)"
      unfolding WolfSshTerminalTakeResponse_def Let_def rd u True using False by simp
    have "good t (t\<lparr>ReplyLength := 0\<rparr>)" using replies_good [OF assms len, of 0] by simp
    moreover have "drop n (pending t) = []" using True by (simp add: pending_def)
    ultimately show ?thesis unfolding eq out by (simp add: pending_def)
  next
    case more: False
    let ?rs = "take (?k - ?m) (drop ?m (Replies t)) @ drop (?k - ?m) (Replies t)"
    have m: "?m = n" using more by linarith
    have fits: "0 + (?k - ?m) \<le> length (Replies t)" "?m + (?k - ?m) \<le> length (Replies t)"
      using k len by auto
    have cp: "CopyMem (Replies t) 0 (Replies t) ?m (?k - ?m) = Some ?rs"
      unfolding CopyMem_def if_P [OF conjI [OF fits]] by simp
    have eq: "WolfSshTerminalTakeResponse t n =
        Some (take ?m (Replies t), t\<lparr>Replies := ?rs, ReplyLength := ?k - ?m\<rparr>)"
      unfolding WolfSshTerminalTakeResponse_def Let_def rd u
      using False more cp [unfolded m] by (simp add: m)
    have l: "length ?rs = 128" using len k by simp
    have q: "take (?k - ?m) ?rs = drop n (pending t)"
      using len k m by (simp add: pending_def drop_take)
    have "good t (t\<lparr>Replies := ?rs, ReplyLength := ?k - ?m\<rparr>)"
      by (rule replies_good [OF assms l]) (use k in simp)
    then show ?thesis unfolding eq ok_Some prod.case out using q by (simp add: pending_def)
  qed
qed

text \<open>The two operations implement the bounded queue of 128 bytes.\<close>

interpretation replies: bounded_fifo
  "\<lambda>t bs. QueueReply t bs (length bs)" WolfSshTerminalTakeResponse pending wf_term 128
proof unfold_locales
  fix t :: term_state and bs and n
  assume wf: "wf_term t"
  show "ok (QueueReply t bs (length bs)) (\<lambda>t'. wf_term t' \<and> pending t' = take 128 (pending t @ bs))"
    using QueueReply_ok [OF wf, of "length bs" bs] by (rule ok_mono) (auto dest: goodD(1))
  show "ok (WolfSshTerminalTakeResponse t n)
      (\<lambda>(out, t'). wf_term t' \<and> out = take n (pending t) \<and> pending t' = drop n (pending t))"
    using TakeResponse_ok [OF wf] by (rule ok_mono) (auto dest: goodD(1))
  show "length (pending t) \<le> 128" using wf_replies_le [OF wf] by (simp add: pending_def)
qed

section \<open>Dispatching a control sequence\<close>

text \<open>
  \<open>AsciiSPrint\<close> is EDK2's \<open>PrintLib\<close>: a parameter that takes the size of the output buffer, the
  format and the arguments, and gives the characters stored before the terminating zero; the
  number it returns is their count. Its documented behaviour on the one format used here is the
  hypothesis \<open>prints_position\<close> of \<open>Term_Parser\<close>.
\<close>

type_synonym print_lib = "UINTN \<Rightarrow> UINT8 list \<Rightarrow> UINT32 list \<Rightarrow> UINT8 list"

definition position_format :: "UINT8 list" where  \<comment> \<open>ESC [ %u ; %u R\<close>
  "position_format = [0x1b, 0x5b, 0x25, 0x75, 0x3b, 0x25, 0x75, 0x52]"

definition HandleCsi :: "print_lib \<Rightarrow> term_state \<Rightarrow> UINT8 \<Rightarrow> term_state option" where
  "HandleCsi AsciiSPrint t finalByte = do {
     count \<leftarrow> NonZeroParameter t 0;
     let t = t\<lparr>WrapPending := False\<rparr>;
     let up = (if count > Row t then 0 else usub (Row t) count);
     let down = min (usub (Rows t) 1) (uadd (Row t) count);
     if finalByte = 0x41 then \<comment> \<open>A\<close> Some (t\<lparr>Row := up\<rparr>)
     else if finalByte = 0x42 then \<comment> \<open>B\<close> Some (t\<lparr>Row := down\<rparr>)
     else if finalByte = 0x43 then \<comment> \<open>C\<close>
       Some (t\<lparr>Column := min (usub (Columns t) 1) (uadd (Column t) count)\<rparr>)
     else if finalByte = 0x44 then \<comment> \<open>D\<close>
       Some (t\<lparr>Column := (if count > Column t then 0 else usub (Column t) count)\<rparr>)
     else if finalByte = 0x45 then \<comment> \<open>E\<close> Some (t\<lparr>Row := down, Column := 0\<rparr>)
     else if finalByte = 0x46 then \<comment> \<open>F\<close> Some (t\<lparr>Row := up, Column := 0\<rparr>)
     else if finalByte = 0x47 then \<comment> \<open>G\<close>
       Some (t\<lparr>Column := min (usub (Columns t) 1) (usub count 1)\<rparr>)
     else if finalByte = 0x48 \<or> finalByte = 0x66 then \<comment> \<open>H, f\<close> do {
       r \<leftarrow> NonZeroParameter t 0;
       c \<leftarrow> NonZeroParameter t 1;
       let row = usub r 1;
       let column = usub c 1;
       Some (t\<lparr>Row := min (usub (Rows t) 1) row, Column := min (usub (Columns t) 1) column\<rparr>) }
     else if finalByte = 0x64 then \<comment> \<open>d\<close>
       Some (t\<lparr>Row := min (usub (Rows t) 1) (usub count 1)\<rparr>)
     else if finalByte = 0x4a then \<comment> \<open>J\<close> do { mode \<leftarrow> Parameter t 0 0; EraseDisplay t mode }
     else if finalByte = 0x4b then \<comment> \<open>K\<close> do { mode \<leftarrow> Parameter t 0 0; EraseLine t mode }
     else if finalByte = 0x6d then \<comment> \<open>m\<close> SelectGraphicRendition t
     else if finalByte = 0x73 then \<comment> \<open>s\<close> Some (t\<lparr>SavedRow := Row t, SavedColumn := Column t\<rparr>)
     else if finalByte = 0x75 then \<comment> \<open>u\<close>
       Some (t\<lparr>Row := min (SavedRow t) (usub (Rows t) 1),
               Column := min (SavedColumn t) (usub (Columns t) 1)\<rparr>)
     else if finalByte = 0x72 then \<comment> \<open>r\<close> do {
       r \<leftarrow> NonZeroParameter t 0;
       c \<leftarrow> Parameter t 1 (INT32_of_UINTN (Rows t));
       let row = usub r 1;
       let column = usub (UINTN_of_INT32 c) 1;
       if row < column \<and> column < Rows t
       then Some (t\<lparr>ScrollTop := row, ScrollBottom := column, Row := 0, Column := 0\<rparr>)
       else Some t }
     else if finalByte = 0x4c then \<comment> \<open>L\<close> InsertLines t count
     else if finalByte = 0x4d then \<comment> \<open>M\<close> DeleteLines t count
     else if finalByte = 0x40 then \<comment> \<open>at\<close> InsertCharacters t count
     else if finalByte = 0x50 then \<comment> \<open>P\<close> DeleteCharacters t count
     else if finalByte = 0x58 then \<comment> \<open>X\<close>
       FillCells t (Row t) (Column t)
         (min (usub (Columns t) 1) (usub (uadd (Column t) count) 1)) (TerminalAttribute t)
     else if finalByte = 0x53 then \<comment> \<open>S\<close> ScrollUp t count
     else if finalByte = 0x54 then \<comment> \<open>T\<close> ScrollDown t count
     else if finalByte = 0x68 then \<comment> \<open>h\<close> SetModes t True
     else if finalByte = 0x6c then \<comment> \<open>l\<close> SetModes t False
     else if finalByte = 0x6e then \<comment> \<open>n\<close> do {
       mode \<leftarrow> Parameter t 0 0;
       if mode = 5 then QueueReply t [0x1b, 0x5b, 0x30, 0x6e] 4
       else if mode = 6 then
         let reply = AsciiSPrint 32 position_format
               [of_nat (uadd (Row t) 1), of_nat (uadd (Column t) 1)]
         in QueueReply t reply (length reply)
       else Some t }
     else if finalByte = 0x63 then \<comment> \<open>c\<close>
       QueueReply t [0x1b, 0x5b, 0x3f, 0x31, 0x3b, 0x30, 0x63] 7
     else Some t }"

lemma good_cursor:
  assumes "wf_term t" and "r < Rows t" and "c < Columns t"
  shows "good t (t\<lparr>Row := r, Column := c\<rparr>)"
proof -
  have g: "good t (t\<lparr>Row := r\<rparr>)" by (rule good_moved(1) [OF assms(1,2)])
  have "good (t\<lparr>Row := r\<rparr>) (t\<lparr>Row := r, Column := c\<rparr>)"
    by (rule good_moved(2) [OF goodD(1) [OF g]]) (use assms in simp)
  with g show ?thesis by (rule good_trans)
qed

lemma good_saved: "wf_term t \<Longrightarrow> good t (t\<lparr>SavedRow := r, SavedColumn := c\<rparr>)"
  by (simp add: good_def quiet_def mirror_def on_screen_def dirty_def grid_def buffer_def
      split: SCREEN.splits)

lemma good_region:
  assumes "wf_term t" and "a \<le> b" and "b < Rows t"
  shows "good t (t\<lparr>ScrollTop := a, ScrollBottom := b\<rparr>)"
  using wf_cursor_update(5) [OF assms]
  by (simp add: good_def quiet_def mirror_def on_screen_def dirty_def grid_def buffer_def
      split: SCREEN.splits)

lemma good_region_home:
  assumes "wf_term t" and "a \<le> b" and "b < Rows t"
  shows "good t (t\<lparr>ScrollTop := a, ScrollBottom := b, Row := 0, Column := 0\<rparr>)"
proof -
  note g = good_region [OF assms]
  have "good (t\<lparr>ScrollTop := a, ScrollBottom := b\<rparr>)
      (t\<lparr>ScrollTop := a, ScrollBottom := b, Row := 0, Column := 0\<rparr>)"
    by (rule good_cursor [OF goodD(1) [OF g]]) (use wf_bounds [OF assms(1)] in simp_all)
  with g show ?thesis by (rule good_trans)
qed

lemma FillCells_good: "wf_term t \<Longrightarrow> ok (FillCells t r a b x) (good t)"
  by (rule drawn_ok_good) (use FillCells_ok in auto)

lemma QueueReply_good: "wf_term t \<Longrightarrow> n \<le> length bs \<Longrightarrow> ok (QueueReply t bs n) (good t)"
  by (rule ok_mono [OF QueueReply_ok]) auto

lemma ok_ifI: "(b \<Longrightarrow> ok m P) \<Longrightarrow> (\<not> b \<Longrightarrow> ok n P) \<Longrightarrow> ok (if b then m else n) P"
  by simp

lemma HandleCsi_good:
  assumes "wf_term t"
  shows "ok (HandleCsi sprint t byte) (good t)"
proof -
  let ?t = "t\<lparr>WrapPending := False\<rparr>"
  have wf: "wf_term ?t" using assms by simp
  note b = wf_bounds [OF wf] and n = count_of_bounds [OF assms, of 0]
  have u: "usub (Rows ?t) 1 = Rows ?t - 1" "usub (Columns ?t) 1 = Columns ?t - 1"
    using b by simp_all
  have move: "ok (Some (?t\<lparr>Row := r\<rparr>)) (good ?t)" if "r < Rows ?t" for r
    using good_moved(1) [OF wf that] by simp
  have side: "ok (Some (?t\<lparr>Column := c\<rparr>)) (good ?t)" if "c < Columns ?t" for c
    using good_moved(2) [OF wf that] by simp
  have both: "ok (Some (?t\<lparr>Row := r, Column := c\<rparr>)) (good ?t)"
    if "r < Rows ?t" "c < Columns ?t" for r c
    using good_cursor [OF wf that] by simp
  have up: "(if count_of t 0 > Row ?t then 0 else usub (Row ?t) (count_of t 0)) < Rows ?t"
    and left: "(if count_of t 0 > Column ?t then 0 else usub (Column ?t) (count_of t 0)) < Columns ?t"
    using b by auto
  have mins: "min (Rows ?t - 1) x < Rows ?t" "min (Columns ?t - 1) x < Columns ?t"
    "min x (Rows ?t - 1) < Rows ?t" "min x (Columns ?t - 1) < Columns ?t" for x
    using b by linarith+
  note moves = move [OF up] move [OF mins(1)] side [OF left] side [OF mins(2)]
    both [OF up b(1)] both [OF mins(1) b(1)] both [OF mins(1) mins(2)] both [OF mins(3) mins(4)]
  note ops = EraseDisplay_good [OF wf] EraseLine_ok [OF wf, THEN drawn_ok_good [OF wf]] SGR_good [OF wf]
    InsertLines_ok [OF wf conjunct1 [OF n], THEN drawn_ok_good [OF wf]]
    DeleteLines_ok [OF wf conjunct1 [OF n], THEN drawn_ok_good [OF wf]]
    InsertCharacters_ok [OF wf conjunct1 [OF n], THEN drawn_ok_good [OF wf]]
    DeleteCharacters_ok [OF wf conjunct1 [OF n], THEN drawn_ok_good [OF wf]]
    ScrollUp_ok [OF wf, THEN drawn_ok_good [OF wf]] ScrollDown_ok [OF wf, THEN drawn_ok_good [OF wf]]
    SetModes_good [OF wf] FillCells_good [OF wf]
  have saved: "ok (Some (?t\<lparr>SavedRow := r, SavedColumn := c\<rparr>)) (good ?t)" for r c
    using good_saved [OF wf] by simp
  have region: "ok (Some (?t\<lparr>ScrollTop := x, ScrollBottom := y, Row := 0, Column := 0\<rparr>)) (good ?t)"
    if "x < y \<and> y < Rows ?t" for x y
    using good_region_home [OF wf, of x y] that by simp
  have here: "ok (Some ?t) (good ?t)" using wf by simp
  have "ok (HandleCsi sprint t byte) (good ?t)"
    unfolding HandleCsi_def NonZeroParameter_eq [OF assms] NonZeroParameter_eq [OF wf]
      Parameter_eq [OF wf] bind.bind_lunit Let_def u
    apply (intro ok_ifI)
    by (rule moves ops saved region QueueReply_good [OF wf] here | simp)+
  then show ?thesis by (rule ok_mono) (rule good_trans [OF good_moved(3) [OF assms]])
qed

end
