(* ===== verification/Term_Parser.thy ===== *)
theory Term_Parser
  imports Term_Csi
begin

text \<open>
  The byte parser of Terminal.c: \<open>ResetParser\<close>, the UTF-8 decoder and the control characters
  (\<open>EmitCodePoint\<close>, \<open>HandleGroundByte\<close>), the escape, CSI and OSC states, and
  \<open>WolfSshTerminalFeed\<close>, the loop over the bytes received. The lemma \<open>feed.run_safe\<close> at the end is
  the memory safety of the whole emulator.
\<close>

section \<open>Definitions\<close>

definition ResetParser :: "term_state \<Rightarrow> term_state option" where
  "ResetParser t =
     for_below 0 TERMINAL_MAX_PARAMS
       (\<lambda>index t. do { ps \<leftarrow> aset (Parameters t) index (-1); Some (t\<lparr>Parameters := ps\<rparr>) })
       (t\<lparr>ParserState := ParserGround, ParameterCount := 1, PrivateCsi := False\<rparr>)"

definition EmitCodePoint :: "term_state \<Rightarrow> UINT32 \<Rightarrow> term_state option" where
  "EmitCodePoint t codePoint =
     (if codePoint = 0 \<or> codePoint > 0xffff \<or> (codePoint \<ge> 0xd800 \<and> codePoint \<le> 0xdfff)
      then PutCharacter t 0x3f
      else PutCharacter t (ucast codePoint))"

text \<open>
  The recursive call of the source re-interprets the byte that ended a UTF-8 sequence too early.
  \<open>partial_function\<close> leaves termination open: a call that did not return would be \<open>None\<close>, so the
  theorem that the result is \<open>Some\<close> covers it.
\<close>

partial_function (option) HandleGroundByte :: "term_state \<Rightarrow> UINT8 \<Rightarrow> term_state option" where
  "HandleGroundByte t byte =
     (if Utf8Remaining t \<noteq> 0 then
        (if byte AND 0xc0 \<noteq> 0x80 then do {
           t \<leftarrow> EmitCodePoint (t\<lparr>Utf8Remaining := 0\<rparr>) 0xfffd;
           HandleGroundByte t byte }
         else
           (let t = t\<lparr>Utf8CodePoint := push_bit 6 (Utf8CodePoint t) OR ucast (byte AND 0x3f)\<rparr>;
                t = t\<lparr>Utf8Remaining := Utf8Remaining t - 1\<rparr>
            in if Utf8Remaining t = 0 then EmitCodePoint t (Utf8CodePoint t) else Some t))
      else if byte = 0x1b then Some (t\<lparr>ParserState := ParserEscape\<rparr>)
      else if byte = 0x0d then Some (t\<lparr>Column := 0, WrapPending := False\<rparr>)
      else if byte = 0x0a then IndexDown t
      else if byte = 0x08 then
        (let t = (if Column t \<noteq> 0 then t\<lparr>Column := usub (Column t) 1\<rparr> else t)
         in Some (t\<lparr>WrapPending := False\<rparr>))
      else if byte = 0x09 then
        Some (t\<lparr>Column := min (usub (Columns t) 1) (uadd (Column t) 8 AND 0xFFFFFFFFFFFFFFF8),
                WrapPending := False\<rparr>)
      else if byte \<ge> 0x20 \<and> byte < 0x7f then PutCharacter t (ucast byte)
      else if byte AND 0xe0 = 0xc0 then
        Some (t\<lparr>Utf8Remaining := 1, Utf8CodePoint := ucast (byte AND 0x1f)\<rparr>)
      else if byte AND 0xf0 = 0xe0 then
        Some (t\<lparr>Utf8Remaining := 2, Utf8CodePoint := ucast (byte AND 0x0f)\<rparr>)
      else if byte AND 0xf8 = 0xf0 then
        Some (t\<lparr>Utf8Remaining := 3, Utf8CodePoint := ucast (byte AND 0x07)\<rparr>)
      else Some t)"

text \<open>The cases \<open>ParserEscape\<close> and \<open>ParserCsi\<close> of the switch in \<open>WolfSshTerminalFeed\<close>.\<close>

definition EscapeByte :: "term_state \<Rightarrow> UINT8 \<Rightarrow> term_state option" where
  "EscapeByte t byte =
     (if byte = 0x5b then do { t \<leftarrow> ResetParser t; Some (t\<lparr>ParserState := ParserCsi\<rparr>) }
      else if byte = 0x5d then Some (t\<lparr>ParserState := ParserOsc\<rparr>)
      else if byte = 0x37 then
        Some (t\<lparr>SavedRow := Row t, SavedColumn := Column t, ParserState := ParserGround\<rparr>)
      else if byte = 0x38 then
        Some (t\<lparr>Row := min (SavedRow t) (usub (Rows t) 1),
                Column := min (SavedColumn t) (usub (Columns t) 1), ParserState := ParserGround\<rparr>)
      else if byte = 0x44 then do { t \<leftarrow> IndexDown t; Some (t\<lparr>ParserState := ParserGround\<rparr>) }
      else if byte = 0x4d then do { t \<leftarrow> IndexUp t; Some (t\<lparr>ParserState := ParserGround\<rparr>) }
      else if byte = 0x45 then do {
        t \<leftarrow> IndexDown (t\<lparr>Column := 0\<rparr>); Some (t\<lparr>ParserState := ParserGround\<rparr>) }
      else if byte = 0x63 then do {
        let t = t\<lparr>Foreground := DefaultForeground t, Background := DefaultBackground t,
                  Bold := False, Reverse := False, Row := 0, Column := 0,
                  ScrollTop := 0, ScrollBottom := usub (Rows t) 1\<rparr>;
        t \<leftarrow> ClearBuffer t (Cells t);
        Some ((console ClearScreen t)\<lparr>ParserState := ParserGround\<rparr>) }
      else Some (t\<lparr>ParserState := ParserGround\<rparr>))"

definition CsiByte :: "print_lib \<Rightarrow> term_state \<Rightarrow> UINT8 \<Rightarrow> term_state option" where
  "CsiByte AsciiSPrint t byte = do {
     p0 \<leftarrow> aget (Parameters t) 0;
     if byte = 0x3f \<and> ParameterCount t = 1 \<and> p0 < 0 then Some (t\<lparr>PrivateCsi := True\<rparr>)
     else if byte \<ge> 0x30 \<and> byte \<le> 0x39 then do {
       let index = usub (ParameterCount t) 1;
       value \<leftarrow> aget (Parameters t) index;
       let value = (if value < 0 then 0 else value);
       let value = (if value < 1000000 then value * 10 + uint (byte - 0x30) else value);
       ps \<leftarrow> aset (Parameters t) index value;
       Some (t\<lparr>Parameters := ps\<rparr>) }
     else if byte = 0x3b then
       (if ParameterCount t < TERMINAL_MAX_PARAMS then do {
          ps \<leftarrow> aset (Parameters t) (ParameterCount t) (-1);
          Some (t\<lparr>Parameters := ps, ParameterCount := uadd (ParameterCount t) 1\<rparr>) }
        else Some t)
     else if byte \<ge> 0x40 \<and> byte \<le> 0x7e then do {
       t \<leftarrow> HandleCsi AsciiSPrint t byte;
       Some (t\<lparr>ParserState := ParserGround\<rparr>) }
     else Some t }"

text \<open>One iteration of the loop of \<open>WolfSshTerminalFeed\<close>.\<close>

definition FeedByte :: "print_lib \<Rightarrow> term_state \<Rightarrow> UINT8 \<Rightarrow> term_state option" where
  "FeedByte AsciiSPrint t byte =
     (if byte = 0x1b then
        (if ParserState t = ParserOsc then Some (t\<lparr>ParserState := ParserOscEscape\<rparr>)
         else if ParserState t \<noteq> ParserOscEscape then
           Some (t\<lparr>ParserState := ParserEscape, Utf8Remaining := 0\<rparr>)
         else Some t)
      else case ParserState t of
        ParserGround \<Rightarrow> HandleGroundByte t byte
      | ParserEscape \<Rightarrow> EscapeByte t byte
      | ParserCsi \<Rightarrow> CsiByte AsciiSPrint t byte
      | ParserOsc \<Rightarrow>
          (if byte = 0x07 then Some (t\<lparr>ParserState := ParserGround\<rparr>)
           else if byte = 0x1b then Some (t\<lparr>ParserState := ParserOscEscape\<rparr>)
           else Some t)
      | ParserOscEscape \<Rightarrow>
          Some (t\<lparr>ParserState := (if byte = 0x5c then ParserGround else ParserOsc)\<rparr>))"

definition WolfSshTerminalFeed :: "print_lib \<Rightarrow> term_state \<Rightarrow> UINT8 list \<Rightarrow> term_state option" where
  "WolfSshTerminalFeed AsciiSPrint t bytes = run (FeedByte AsciiSPrint) t bytes"

section \<open>The relation kept by every byte\<close>

text \<open>\<open>good\<close> without the parser's own fields.\<close>

definition kept :: "term_state \<Rightarrow> term_state \<Rightarrow> bool" where
  "kept t t' \<longleftrightarrow> wf_term t' \<and> Rows t' = Rows t \<and> Columns t' = Columns t \<and>
     DefaultForeground t' = DefaultForeground t \<and> DefaultBackground t' = DefaultBackground t \<and>
     (\<forall>shown. clears shown \<longrightarrow> mirror shown t \<longrightarrow> mirror shown t')"

lemma keptD:
  assumes "kept t t'"
  shows "wf_term t'" "Rows t' = Rows t" "Columns t' = Columns t"
  using assms by (simp_all add: kept_def)

lemma kept_refl [simp]: "wf_term t \<Longrightarrow> kept t t"
  by (simp add: kept_def)

lemma kept_trans: "kept t t' \<Longrightarrow> kept t' t'' \<Longrightarrow> kept t t''"
  by (simp add: kept_def)

lemma good_kept: "good t t' \<Longrightarrow> kept t t'"
  by (simp add: good_def quiet_def kept_def)

lemma kept_parser:
  assumes "wf_term (t\<lparr>ParserState := s, Parameters := p, ParameterCount := n, PrivateCsi := b,
    Utf8Remaining := u, Utf8CodePoint := c\<rparr>)"
  shows "kept t (t\<lparr>ParserState := s, Parameters := p, ParameterCount := n, PrivateCsi := b,
    Utf8Remaining := u, Utf8CodePoint := c\<rparr>)"
  using assms by (simp add: kept_def mirror_def on_screen_def dirty_def grid_def buffer_def
      split: SCREEN.splits)

lemma kept_state: "wf_term (t\<lparr>ParserState := s\<rparr>) \<Longrightarrow> kept t (t\<lparr>ParserState := s\<rparr>)"
  using kept_parser [where t = t and s = s and p = "Parameters t" and n = "ParameterCount t"
      and b = "PrivateCsi t" and u = "Utf8Remaining t" and c = "Utf8CodePoint t"] by simp

lemma kept_utf8:
  "wf_term (t\<lparr>Utf8Remaining := u, Utf8CodePoint := c\<rparr>) \<Longrightarrow>
   kept t (t\<lparr>Utf8Remaining := u, Utf8CodePoint := c\<rparr>)"
  using kept_parser [where t = t and s = "ParserState t" and p = "Parameters t"
      and n = "ParameterCount t" and b = "PrivateCsi t" and u = u and c = c] by simp

lemma kept_params:
  "wf_term (t\<lparr>Parameters := ps, ParameterCount := n, PrivateCsi := b\<rparr>) \<Longrightarrow>
   kept t (t\<lparr>Parameters := ps, ParameterCount := n, PrivateCsi := b\<rparr>)"
  using kept_parser [where t = t and s = "ParserState t" and p = ps and n = n and b = b
      and u = "Utf8Remaining t" and c = "Utf8CodePoint t"] by simp

lemma wf_utf8_idle: "wf_term t \<Longrightarrow> ParserState t \<noteq> ParserGround \<Longrightarrow> Utf8Remaining t = 0"
  using wfD(6) by (auto simp: wf_utf8_def)

lemma wf_state: "wf_term t \<Longrightarrow> Utf8Remaining t = 0 \<Longrightarrow> wf_term (t\<lparr>ParserState := s\<rparr>)"
  unfolding wf_parts by simp


text \<open>A step that keeps the parser's fields, followed by a return to the ground state.\<close>

lemma kept_then_state:
  assumes "good t t'" and "Utf8Remaining t = 0"
  shows "kept t (t'\<lparr>ParserState := s\<rparr>)"
  by (rule kept_trans [OF good_kept [OF assms(1)] kept_state [OF wf_state]])
    (use assms goodD(1,6) [OF assms(1)] in simp_all)

section \<open>The UTF-8 decoder\<close>

lemma unat_ucast8 [simp]:
  "unat (ucast (b :: UINT8) :: UINT32) = unat b" "unat (ucast (b :: UINT8) :: CHAR16) = unat b"
proof -
  have "unat b < 2 ^ 8" using unsigned_less [of b] by simp
  then show "unat (ucast (b :: UINT8) :: UINT32) = unat b" "unat (ucast (b :: UINT8) :: CHAR16) = unat b"
    by (simp_all add: unsigned_ucast_eq take_bit_nat_eq_self)
qed

lemma and_3f_lt: "unat ((b :: UINT8) AND 0x3f) < 64"
  using word_and_le1 [of b "0x3f"] by (simp add: word_le_nat_alt)

lemma unat_continue:
  assumes "unat (c :: UINT32) < 2 ^ 26"
  shows "unat (push_bit 6 c OR ucast ((b :: UINT8) AND 0x3f)) = unat c * 64 + unat (b AND 0x3f)"
proof -
  have m: "b AND 0x3f = take_bit 6 b" by (simp add: take_bit_eq_mask mask_eq_exp_minus_1)
  have "push_bit 6 c AND ucast (take_bit 6 b) = (0 :: UINT32)" by (auto simp: bit_eq_iff bit_simps)
  then have "push_bit 6 c OR ucast (take_bit 6 b) = push_bit 6 c + ucast (take_bit 6 b)"
    by (simp add: disjunctive_add_eq_or)
  moreover have "unat (push_bit 6 c) = unat c * 64"
    using assms by (simp add: push_bit_eq_mult unat_word_ariths)
  moreover have "unat (ucast (take_bit 6 b) :: UINT32) = unat (take_bit 6 b)"
    by simp
  moreover have "unat (take_bit 6 b) < 64" using and_3f_lt [of b] unfolding m .
  ultimately show ?thesis using assms by (simp add: m unat_word_ariths)
qed

lemma EmitCodePoint_good: "wf_term t \<Longrightarrow> ok (EmitCodePoint t c) (good t)"
proof -
  have "(ucast c :: CHAR16) \<noteq> 0" if "c \<noteq> 0" "c \<le> 0xffff"
  proof -
    have "unat c \<noteq> 0" "unat c \<le> 65535"
      using that by (simp_all add: unat_eq_0 word_le_nat_alt)
    then have "unat (ucast c :: CHAR16) = unat c" by (simp add: unsigned_ucast_eq take_bit_nat_eq_self)
    then show ?thesis using \<open>unat c \<noteq> 0\<close> by auto
  qed
  then show "wf_term t \<Longrightarrow> ok (EmitCodePoint t c) (good t)"
    by (simp add: EmitCodePoint_def PutCharacter_good not_less)
qed

lemma ground_idle:
  assumes wf: "wf_term t" and idle: "Utf8Remaining t = 0" and st: "ParserState t = ParserGround"
  shows "ok (HandleGroundByte t byte) (kept t)"
proof -
  note b = wf_bounds [OF wf]
  have esc: "kept t (t\<lparr>ParserState := ParserEscape\<rparr>)"
    by (rule kept_state [OF wf_state [OF wf idle]])
  have col: "kept t (t\<lparr>Column := c, WrapPending := w\<rparr>)" if "c < Columns t" for c w
  proof (rule good_kept)
    note g = good_moved(2) [OF wf that]
    show "good t (t\<lparr>Column := c, WrapPending := w\<rparr>)"
      by (rule good_trans [OF g good_moved(3) [OF goodD(1) [OF g]]])
  qed
  have wrap: "kept t (t\<lparr>WrapPending := w\<rparr>)" for w by (rule good_kept [OF good_moved(3) [OF wf]])
  have lead: "kept t (t\<lparr>Utf8Remaining := k, Utf8CodePoint := c\<rparr>)"
    if "k \<le> 3" "unat c < 2 ^ (21 - 6 * k)" for k c
  proof (rule kept_utf8)
    show "wf_term (t\<lparr>Utf8Remaining := k, Utf8CodePoint := c\<rparr>)"
      using wf that st unfolding wf_parts by simp
  qed
  have small: "unat (byte AND 0x1f) < 32768" "unat (byte AND 0x0f) < 512" "unat (byte AND 0x07) < 8"
    using word_and_le1 [of byte "0x1f"] word_and_le1 [of byte "0x0f"] word_and_le1 [of byte "0x07"]
    by (simp_all add: word_le_nat_alt)
  have put: "ok (PutCharacter t (ucast byte)) (kept t)" if "0x20 \<le> byte"
  proof -
    have "unat byte \<noteq> 0" using that by (auto simp: word_le_nat_alt)
    then have "(ucast byte :: CHAR16) \<noteq> 0" by (metis unat_ucast8(2) unsigned_0)
    then show ?thesis using PutCharacter_good [OF wf] good_kept by (blast intro: ok_mono)
  qed
  have down: "ok (IndexDown t) (kept t)"
    using IndexDown_good [OF wf] good_kept by (blast intro: ok_mono)
  have "usub (Columns t) 1 = Columns t - 1" "usub (Column t) 1 = Column t - 1" if "Column t \<noteq> 0"
    using b that by simp_all
  then show ?thesis
    using esc col [of 0] col [of "Column t - 1"] wrap lead [of 1] lead [of 2] lead [of 3] put down small b
      col [of "min (Columns t - 1) x" for x] wf
    by (subst HandleGroundByte.simps) (simp add: idle)
qed

text \<open>
  A byte inside a UTF-8 sequence: a continuation byte extends the code point and emits it when the
  sequence is complete; any other byte ends the sequence with a replacement character and is then
  interpreted afresh.
\<close>

definition utf8_push :: "term_state \<Rightarrow> UINT8 \<Rightarrow> term_state" where
  "utf8_push t byte = t\<lparr>Utf8CodePoint := push_bit 6 (Utf8CodePoint t) OR ucast (byte AND 0x3f),
     Utf8Remaining := Utf8Remaining t - 1\<rparr>"

lemma ground_continue:
  assumes "Utf8Remaining t \<noteq> 0" and "byte AND 0xc0 = 0x80"
  shows "HandleGroundByte t byte =
    (if Utf8Remaining t = 1 then EmitCodePoint (utf8_push t byte) (Utf8CodePoint (utf8_push t byte))
     else Some (utf8_push t byte))"
  by (subst HandleGroundByte.simps) (use assms in \<open>auto simp: utf8_push_def Let_def\<close>)

lemma ground_broken:
  assumes "Utf8Remaining t \<noteq> 0" and "byte AND 0xc0 \<noteq> 0x80"
  shows "HandleGroundByte t byte =
    Option.bind (EmitCodePoint (t\<lparr>Utf8Remaining := 0\<rparr>) 0xfffd) (\<lambda>t. HandleGroundByte t byte)"
  by (subst HandleGroundByte.simps) (use assms in simp)

lemma wf_utf8_bound:
  assumes "wf_term t" and "Utf8Remaining t \<noteq> 0"
  shows "ParserState t = ParserGround" "Utf8Remaining t \<le> 3"
    "unat (Utf8CodePoint t) < 2 ^ (21 - 6 * Utf8Remaining t)"
  using wfD(6) [OF assms(1)] assms(2) by (simp_all add: wf_utf8_def)

lemma utf8_push_value:
  assumes "wf_term t" and "Utf8Remaining t \<noteq> 0"
  shows "unat (Utf8CodePoint (utf8_push t byte)) =
    unat (Utf8CodePoint t) * 64 + unat (byte AND 0x3f)"
proof -
  have "(2::nat) ^ (21 - 6 * Utf8Remaining t) \<le> 2 ^ 26" by (rule power_increasing) simp_all
  then show ?thesis using wf_utf8_bound(3) [OF assms] by (simp add: utf8_push_def unat_continue)
qed

lemma wf_utf8_push:
  assumes "wf_term t" and "Utf8Remaining t \<noteq> 0"
  shows "wf_term (utf8_push t byte)"
proof -
  note u = wf_utf8_bound [OF assms]
  have v: "unat (Utf8CodePoint t) * 64 + unat (byte AND 0x3f) < 2 ^ (21 - 6 * (Utf8Remaining t - 1))"
    if "Utf8Remaining t \<noteq> 1"
  proof -
    have "Utf8Remaining t = 2 \<or> Utf8Remaining t = 3" using u(2) assms(2) that by arith
    then show ?thesis using u(3) and_3f_lt [of byte] by (elim disjE) simp_all
  qed
  have "wf_utf8 (utf8_push t byte)"
    using u v utf8_push_value [OF assms, of byte] by (auto simp: wf_utf8_def utf8_push_def)
  then show ?thesis using assms(1) unfolding wf_parts utf8_push_def by simp
qed

lemma ground_ok:
  assumes wf: "wf_term t" and st: "ParserState t = ParserGround"
  shows "ok (HandleGroundByte t byte) (kept t)"
proof (cases "Utf8Remaining t = 0")
  case True
  then show ?thesis by (rule ground_idle [OF wf _ st])
next
  case busy: False
  show ?thesis
  proof (cases "byte AND 0xc0 = 0x80")
    case True
    note wf' = wf_utf8_push [OF wf busy, of byte]
    have "utf8_push t byte = t\<lparr>Utf8Remaining := Utf8Remaining t - 1,
        Utf8CodePoint := push_bit 6 (Utf8CodePoint t) OR ucast (byte AND 0x3f)\<rparr>"
      by (simp add: utf8_push_def)
    then have k: "kept t (utf8_push t byte)" using kept_utf8 wf' by metis
    have "ok (EmitCodePoint (utf8_push t byte) c) (kept t)" for c
      by (rule ok_mono [OF EmitCodePoint_good [OF wf']]) (blast intro: kept_trans [OF k] good_kept)
    then show ?thesis using k by (simp add: ground_continue [OF busy True])
  next
    case False
    let ?t = "t\<lparr>Utf8Remaining := 0\<rparr>"
    have wf': "wf_term ?t" using wf unfolding wf_parts by simp
    have k: "kept t ?t" using kept_utf8 [where t = t and u = 0 and c = "Utf8CodePoint t"] wf'
      by simp
    obtain t1 where t1: "EmitCodePoint ?t 0xfffd = Some t1" and g: "good ?t t1"
      using EmitCodePoint_good [OF wf', of "0xfffd"] by (elim okE)
    have "ok (HandleGroundByte t1 byte) (kept t1)"
      by (rule ground_idle) (use goodD(1,5,6) [OF g] st in simp_all)
    then have "ok (HandleGroundByte t1 byte) (kept t)"
      by (rule ok_mono) (rule kept_trans [OF kept_trans [OF k good_kept [OF g]]])
    then show ?thesis by (simp add: ground_broken [OF busy False] t1)
  qed
qed

section \<open>Escape sequences, CSI and OSC\<close>

definition reset_parser :: "term_state \<Rightarrow> term_state" where
  "reset_parser t = t\<lparr>ParserState := ParserGround, Parameters := replicate 16 (-1),
     ParameterCount := 1, PrivateCsi := False\<rparr>"

lemma ResetParser_eq:
  assumes "length (Parameters t) = 16"
  shows "ResetParser t = Some (reset_parser t)"
proof -
  let ?t = "t\<lparr>ParserState := ParserGround, ParameterCount := 1, PrivateCsi := False\<rparr>"
  let ?I = "\<lambda>j t'. j \<le> 16 \<and> t' = ?t\<lparr>Parameters := replicate j (-1) @ drop j (Parameters t)\<rparr>"
  have "ok (ResetParser t) (?I (max 0 16))"
    unfolding ResetParser_def
  proof (rule for_below_ok)
    show "?I 0 ?t" by simp
  next
    fix j s
    assume "j < 16" and "?I j s"
    then show "ok (do { ps \<leftarrow> aset (Parameters s) j (-1); Some (s\<lparr>Parameters := ps\<rparr>) }) (?I (Suc j))"
      using assms replicate_fill [of j "Parameters t" "-1"] by simp
  qed
  then show ?thesis using assms by (auto simp: reset_parser_def elim!: okE)
qed

lemma wf_params_update:
  assumes "wf_term t" and "length ps = 16" and "1 \<le> n" and "n \<le> 16"
    and "\<forall>p \<in> set ps. -1 \<le> p \<and> p \<le> 9999999"
  shows "wf_term (t\<lparr>Parameters := ps, ParameterCount := n, PrivateCsi := b\<rparr>)"
  using assms unfolding wf_parts by simp

lemma kept_csi_start:
  assumes "wf_term t" and "Utf8Remaining t = 0"
  shows "kept t ((reset_parser t)\<lparr>ParserState := ParserCsi\<rparr>)"
proof -
  let ?t = "t\<lparr>Parameters := replicate 16 (-1), ParameterCount := 1, PrivateCsi := False\<rparr>"
  have wf: "wf_term ?t" by (rule wf_params_update [OF assms(1)]) simp_all
  have "kept t ?t" by (rule kept_params [OF wf])
  moreover have "kept ?t (?t\<lparr>ParserState := ParserCsi\<rparr>)"
    by (rule kept_state [OF wf_state [OF wf]]) (use assms(2) in simp)
  moreover have "(reset_parser t)\<lparr>ParserState := ParserCsi\<rparr> = ?t\<lparr>ParserState := ParserCsi\<rparr>"
    by (simp add: reset_parser_def)
  ultimately show ?thesis by (metis kept_trans)
qed

text \<open>RIS, \<open>ESC c\<close>: the rendition, the cursor and the region are reset and the screen is cleared.\<close>

definition ris :: "term_state \<Rightarrow> term_state" where
  "ris t = cleared (t\<lparr>Foreground := DefaultForeground t, Background := DefaultBackground t,
     Bold := False, Reverse := False, Row := 0, Column := 0,
     ScrollTop := 0, ScrollBottom := Rows t - 1\<rparr>)"

lemma ris_good:
  assumes wf: "wf_term t"
  shows "EscapeByte t 0x63 = Some ((ris t)\<lparr>ParserState := ParserGround\<rparr>)" and "good t (ris t)"
proof -
  let ?t = "t\<lparr>Foreground := DefaultForeground t, Background := DefaultBackground t,
     Bold := False, Reverse := False, Row := 0, Column := 0,
     ScrollTop := 0, ScrollBottom := Rows t - 1\<rparr>"
  have wf1: "wf_term ?t" using wf unfolding wf_parts by simp
  have u: "usub (Rows t) 1 = Rows t - 1" using wf_bounds [OF wf] by simp
  have "EscapeByte t 0x63 = Option.bind (ClearBuffer ?t (Cells t))
      (\<lambda>t. Some ((console ClearScreen t)\<lparr>ParserState := ParserGround\<rparr>))"
    unfolding EscapeByte_def u Let_def by simp
  then show "EscapeByte t 0x63 = Some ((ris t)\<lparr>ParserState := ParserGround\<rparr>)"
    using ClearBuffer_ok [OF wf1, of "Cells t"]
    by (simp add: ris_def cleared_def default_blank_def)
  have "wf_term (ris t)"
    using wf_set_buffer [OF wf1] by (simp add: ris_def cleared_def default_blank_def)
  moreover have "quiet t (ris t)" by (simp add: quiet_def ris_def cleared_def console_def)
  moreover have "mirror shown (ris t)" if "clears shown" for shown
  proof -
    have "on_screen (ris t) = on_screen ?t"
      by (simp add: on_screen_def fun_eq_iff ris_def cleared_def console_def)
    then show ?thesis using that cleared_grid [of ?t]
      by (auto simp: mirror_def clears_def ris_def default_blank_def blank_def cleared_def console_def)
  qed
  ultimately show "good t (ris t)" by (simp add: good_def)
qed

lemma EscapeByte_ok:
  assumes wf: "wf_term t" and idle: "Utf8Remaining t = 0"
  shows "ok (EscapeByte t byte) (kept t)"
proof -
  note b = wf_bounds [OF wf]
  have state: "kept t (t\<lparr>ParserState := s\<rparr>)" for s by (rule kept_state [OF wf_state [OF wf idle]])
  have ground: "kept t (t'\<lparr>ParserState := s\<rparr>)" if "good t t'" for t' s
    by (rule kept_then_state [OF that idle])
  have saved: "kept t (t\<lparr>SavedRow := r, SavedColumn := c, ParserState := s\<rparr>)" for r c s
    by (rule ground [OF good_saved [OF wf]])
  have cursor: "kept t (t\<lparr>Row := r, Column := c, ParserState := s\<rparr>)"
    if "r < Rows t" "c < Columns t" for r c s
    by (rule ground [OF good_cursor [OF wf that]])
  have u: "usub (Rows t) 1 = Rows t - 1" "usub (Columns t) 1 = Columns t - 1" using b by simp_all
  have mins: "min x (Rows t - 1) < Rows t" "min x (Columns t - 1) < Columns t" for x
    using b by linarith+
  have g0: "good t (t\<lparr>Column := 0\<rparr>)" by (rule good_moved(2) [OF wf b(1)])
  have "ok (IndexDown (t\<lparr>Column := 0\<rparr>)) (good t)"
    by (rule ok_mono [OF IndexDown_good [OF goodD(1) [OF g0]]]) (rule good_trans [OF g0])
  then have index: "ok (IndexDown t) (\<lambda>t'. kept t (t'\<lparr>ParserState := s\<rparr>))"
    "ok (IndexUp t) (\<lambda>t'. kept t (t'\<lparr>ParserState := s\<rparr>))"
    "ok (IndexDown (t\<lparr>Column := 0\<rparr>)) (\<lambda>t'. kept t (t'\<lparr>ParserState := s\<rparr>))" for s
    using IndexDown_good [OF wf] IndexUp_good [OF wf] ground by (blast intro: ok_mono)+
  show ?thesis
  proof (cases "byte = 0x63")
    case True
    then show ?thesis using ris_good [OF wf] ground by simp
  next
    case False
    then show ?thesis
      unfolding EscapeByte_def u ok_if ok_bind ok_Some
      using state saved cursor [OF mins] index kept_csi_start [OF wf idle] wf
      by (simp add: ResetParser_eq)
  qed
qed

text \<open>A digit extends the last parameter; above 999999 further digits are ignored.\<close>

definition digit_value :: "INT32 \<Rightarrow> UINT8 \<Rightarrow> INT32" where
  "digit_value v byte =
     (let v = (if v < 0 then 0 else v)
      in if v < 1000000 then v * 10 + uint (byte - 0x30) else v)"

lemma uint_digit:
  assumes "0x30 \<le> byte" and "byte \<le> (0x39 :: UINT8)"
  shows "uint (byte - 0x30) = uint byte - 48" and "0 \<le> uint (byte - 0x30)" and "uint (byte - 0x30) \<le> 9"
proof -
  have b: "48 \<le> uint byte" "uint byte \<le> 57" using assms by (simp_all add: word_le_def)
  have "uint (byte - 0x30) = (uint byte - 48) mod 256" by (simp add: uint_word_ariths)
  also have "\<dots> = uint byte - 48" using b by simp
  finally show "uint (byte - 0x30) = uint byte - 48" .
  then show "0 \<le> uint (byte - 0x30)" "uint (byte - 0x30) \<le> 9" using b by simp_all
qed

lemma digit_value_range:
  assumes "-1 \<le> v" and "v \<le> 9999999" and "0x30 \<le> byte" and "byte \<le> 0x39"
  shows "0 \<le> digit_value v byte" and "digit_value v byte \<le> 9999999"
  using assms(1,2) uint_digit [OF assms(3,4)] by (auto simp: digit_value_def Let_def)

lemma CsiByte_digit:
  assumes wf: "wf_term t" and d: "0x30 \<le> byte" "byte \<le> 0x39"
  shows "CsiByte sprint t byte = Some (t\<lparr>Parameters := (Parameters t)
      [ParameterCount t - 1 := digit_value (Parameters t ! (ParameterCount t - 1)) byte]\<rparr>)"
proof -
  have n: "1 \<le> ParameterCount t" "ParameterCount t \<le> 16"
    using wfD(5) [OF wf] by (simp_all add: wf_params_def)
  then have u: "usub (ParameterCount t) 1 = ParameterCount t - 1" by simp
  have "byte \<noteq> 0x3f" using d(2) by auto
  then show ?thesis unfolding CsiByte_def u using d n wf
    by (simp add: digit_value_def Let_def)
qed

lemma CsiByte_next:
  assumes wf: "wf_term t" and "ParameterCount t < 16"
  shows "CsiByte sprint t 0x3b = Some (t\<lparr>Parameters := (Parameters t)[ParameterCount t := -1],
    ParameterCount := ParameterCount t + 1\<rparr>)"
  using assms by (simp add: CsiByte_def)

lemma CsiByte_final:
  assumes "wf_term t" and "0x40 \<le> byte" and "byte \<le> 0x7e"
  shows "CsiByte sprint t byte =
    map_option (\<lambda>t. t\<lparr>ParserState := ParserGround\<rparr>) (HandleCsi sprint t byte)"
proof -
  have "byte \<noteq> 0x3f" "byte \<noteq> 0x3b" "\<not> byte \<le> 0x39"
    using assms(2,3) by (auto dest: order_trans [of "0x40" byte "0x39"])
  then show ?thesis using assms unfolding CsiByte_def
    by (simp add: map_conv_bind_option comp_def if_not_P)
qed

lemma CsiByte_ok:
  assumes wf: "wf_term t" and idle: "Utf8Remaining t = 0"
  shows "ok (CsiByte sprint t byte) (kept t)"
proof -
  have p: "1 \<le> ParameterCount t" "ParameterCount t \<le> 16" "\<forall>p \<in> set (Parameters t). -1 \<le> p \<and> p \<le> 9999999"
    using wfD(5) [OF wf] by (simp_all add: wf_params_def)
  have kp: "kept t (t\<lparr>Parameters := ps, ParameterCount := n, PrivateCsi := b\<rparr>)"
    if "length ps = 16" "1 \<le> n" "n \<le> 16" "\<forall>p \<in> set ps. -1 \<le> p \<and> p \<le> 9999999" for ps n b
    using kept_params wf_params_update [OF wf that] by blast
  have upd: "\<forall>p \<in> set ((Parameters t)[i := v]). -1 \<le> p \<and> p \<le> 9999999"
    if "-1 \<le> v" "v \<le> 9999999" for i v
    using p(3) that set_update_subset_insert [of "Parameters t" i v] by blast
  consider "byte = 0x3f" | "0x30 \<le> byte" "byte \<le> 0x39" | "byte = 0x3b" | "0x40 \<le> byte" "byte \<le> 0x7e"
    | "byte \<noteq> 0x3f" "\<not> (0x30 \<le> byte \<and> byte \<le> 0x39)" "byte \<noteq> 0x3b" "\<not> (0x40 \<le> byte \<and> byte \<le> 0x7e)"
    by blast
  then show ?thesis
  proof cases
    case 1
    then show ?thesis
      using kp [OF _ p, of True] wf by (simp add: CsiByte_def)
  next
    case 2
    have "ParameterCount t - 1 < length (Parameters t)" using p wf by simp
    then have v: "-1 \<le> Parameters t ! (ParameterCount t - 1)"
      "Parameters t ! (ParameterCount t - 1) \<le> 9999999" using p(3) by simp_all
    show ?thesis
      using kp [OF _ p(1,2) upd [of "digit_value (Parameters t ! (ParameterCount t - 1)) byte"],
          of "ParameterCount t - 1" "PrivateCsi t"] digit_value_range [OF v 2] wf
      by (simp add: CsiByte_digit [OF wf 2])
  next
    case 3
    show ?thesis
    proof (cases "ParameterCount t < 16")
      case True
      then show ?thesis
        using kp [OF _ _ _ upd [of "-1"], of "ParameterCount t" "ParameterCount t + 1" "PrivateCsi t"] wf
        by (simp add: 3 CsiByte_next [OF wf True])
    next
      case False
      then show ?thesis using 3 wf by (simp add: CsiByte_def)
    qed
  next
    case 4
    show ?thesis unfolding CsiByte_final [OF wf 4] ok_map_option
      by (rule ok_mono [OF HandleCsi_good [OF wf]]) (rule kept_then_state [OF _ idle])
  next
    case 5
    then show ?thesis using wf by (auto simp: CsiByte_def)
  qed
qed

section \<open>The whole machine\<close>

lemma FeedByte_ok:
  assumes wf: "wf_term t"
  shows "ok (FeedByte sprint t byte) (kept t)"
proof -
  have state: "kept t (t\<lparr>ParserState := s\<rparr>)" if "ParserState t \<noteq> ParserGround" for s
    by (rule kept_state [OF wf_state [OF wf wf_utf8_idle [OF wf that]]])
  have esc: "kept t (t\<lparr>ParserState := ParserEscape, Utf8Remaining := 0\<rparr>)"
  proof -
    have "wf_term (t\<lparr>ParserState := ParserEscape, Utf8Remaining := 0\<rparr>)"
      using wf unfolding wf_parts by simp
    then show ?thesis
      using kept_parser [where t = t and s = ParserEscape and p = "Parameters t"
          and n = "ParameterCount t" and b = "PrivateCsi t" and u = 0 and c = "Utf8CodePoint t"] by simp
  qed
  show ?thesis
    using state esc wf ground_ok [OF wf] EscapeByte_ok [OF wf wf_utf8_idle [OF wf]]
      CsiByte_ok [OF wf wf_utf8_idle [OF wf]]
    by (cases "ParserState t") (auto simp: FeedByte_def)
qed

interpretation feed: safe_stream "FeedByte sprint" "kept t" for sprint t
proof unfold_locales
  fix s byte
  assume k: "kept t s"
  show "ok (FeedByte sprint s byte) (kept t)"
    by (rule ok_mono [OF FeedByte_ok [OF keptD(1) [OF k]]]) (rule kept_trans [OF k])
qed

lemma Feed_kept: "wf_term t \<Longrightarrow> ok (WolfSshTerminalFeed sprint t bytes) (kept t)"
  unfolding WolfSshTerminalFeed_def by (rule feed.run_safe) simp

lemma Feed_append:
  "WolfSshTerminalFeed sprint t (xs @ ys) =
   Option.bind (WolfSshTerminalFeed sprint t xs) (\<lambda>t'. WolfSshTerminalFeed sprint t' ys)"
  by (simp add: WolfSshTerminalFeed_def run_append)

end
