(* ===== verification/Term_Life.thy ===== *)
theory Term_Life
  imports Term_Parser
begin

text \<open>
  Creating, flushing and destroying the terminal, and the self test. \<open>Flush_ok\<close> says exactly which
  console calls a flush makes; \<open>flush_mirror\<close> what they leave on the glass, for every console that
  obeys the UEFI specification on the calls made.
\<close>

section \<open>Flushing\<close>

text \<open>The inner \<open>while\<close> loop, that finds the end of a run of cells with one attribute.\<close>

function RunEndLoop :: "term_state \<Rightarrow> UINTN \<Rightarrow> UINTN \<Rightarrow> UINTN \<Rightarrow> UINTN \<Rightarrow> UINTN option" where
  "RunEndLoop t row end attribute runEnd =
     (if runEnd < end then do {
        cell \<leftarrow> ReadCell t (CellAt t row (uadd runEnd 1));
        if Attribute cell = attribute then RunEndLoop t row end attribute (Suc runEnd)
        else Some runEnd }
      else Some runEnd)"
  by pat_completeness auto
termination
  by (relation "measure (\<lambda>(t, row, end, attribute, runEnd). end - runEnd)") auto

declare RunEndLoop.simps [simp del]

text \<open>The \<open>for\<close> loop that copies the characters of the run to the render buffer.\<close>

definition RenderRun :: "UINTN \<Rightarrow> UINTN \<Rightarrow> UINTN \<Rightarrow> term_state \<Rightarrow> term_state option" where
  "RenderRun row position runEnd t = for_below position (Suc runEnd)
     (\<lambda>index t. do {
        cell \<leftarrow> ReadCell t (CellAt t row index);
        rb \<leftarrow> aset (RenderBuffer t) (usub index position) (Character cell);
        Some (t\<lparr>RenderBuffer := rb\<rparr>) }) t"

text \<open>
  One round of \<open>while (Position <= End)\<close>: the new position and the new state. \<open>OutputString\<close> gets
  the characters before the first terminator in the buffer.
\<close>

definition FlushRun :: "UINTN \<Rightarrow> UINTN \<Rightarrow> UINTN \<Rightarrow> term_state \<Rightarrow> (UINTN \<times> term_state) option" where
  "FlushRun row end position t = do {
     cell \<leftarrow> ReadCell t (CellAt t row position);
     let attribute = Attribute cell;
     runEnd \<leftarrow> RunEndLoop t row end attribute position;
     t \<leftarrow> RenderRun row position runEnd t;
     rb \<leftarrow> aset (RenderBuffer t) (uadd (usub runEnd position) 1) 0;
     let t = t\<lparr>RenderBuffer := rb\<rparr>;
     let t = console (SetAttribute attribute) t;
     let t = console (SetCursorPosition position row) t;
     let t = console (OutputString (takeWhile (\<lambda>ch. ch \<noteq> 0) (RenderBuffer t))) t;
     Some (Suc runEnd, t) }"

lemma RunEndLoop_ge: "RunEndLoop t row end a e = Some e' \<Longrightarrow> e \<le> e'"
proof (induction t row "end" a e rule: RunEndLoop.induct)
  case (1 t row "end" a e)
  show ?case
  proof (cases "e < end")
    case True
    then obtain cell where c: "ReadCell t (CellAt t row (uadd e 1)) = Some cell"
      using "1.prems" by (auto simp: RunEndLoop.simps [of t row "end" a e] split: bind_splits)
    show ?thesis
      using "1.IH" [OF True c] "1.prems" True c
      by (auto simp: RunEndLoop.simps [of t row "end" a e] split: if_splits)
  next
    case False
    then show ?thesis using "1.prems" by (simp add: RunEndLoop.simps [of t row "end" a e])
  qed
qed

lemma FlushRun_gt: "FlushRun row end position t = Some (p, t') \<Longrightarrow> position < p"
  by (auto simp: FlushRun_def Let_def split: bind_splits dest: RunEndLoop_ge)

function FlushRuns :: "UINTN \<Rightarrow> UINTN \<Rightarrow> UINTN \<Rightarrow> term_state \<Rightarrow> term_state option" where
  "FlushRuns row end position t =
     (if position \<le> end then do {
        (position', t') \<leftarrow> FlushRun row end position t;
        FlushRuns row end position' t' }
      else Some t)"
  by pat_completeness auto
termination
  by (relation "measure (\<lambda>(row, end, position, t). Suc end - position)")
    (auto dest: FlushRun_gt)

declare FlushRuns.simps [simp del]

definition FlushRow :: "UINTN \<Rightarrow> term_state \<Rightarrow> term_state option" where
  "FlushRow row t = do {
     start \<leftarrow> aget (DirtyStart t) row;
     end \<leftarrow> aget (DirtyEnd t) row;
     if start \<ge> Columns t \<or> end < start then Some t
     else do {
       t \<leftarrow> FlushRuns row end start t;
       ResetDirtyRow row t } }"

definition WolfSshTerminalFlush :: "term_state \<Rightarrow> term_state option" where
  "WolfSshTerminalFlush t = do {
     let t = console (EnableCursor False) t;
     t \<leftarrow> for_below 0 (Rows t) FlushRow t;
     let t = console (SetAttribute (TerminalAttribute t)) t;
     let t = console (SetCursorPosition (Column t) (Row t)) t;
     Some (console (EnableCursor (CursorVisible t)) t) }"

text \<open>The same calls, computed from the grid.\<close>

function run_end :: "(nat \<Rightarrow> TERMINAL_CELL) \<Rightarrow> nat \<Rightarrow> nat \<Rightarrow> nat" where
  "run_end line end e =
     (if e < end \<and> Attribute (line (Suc e)) = Attribute (line e) then run_end line end (Suc e) else e)"
  by pat_completeness auto
termination
  by (relation "measure (\<lambda>(line, end, e). end - e)") auto

declare run_end.simps [simp del]

lemma run_end_bounds: "e \<le> run_end line end e \<and> (e \<le> end \<longrightarrow> run_end line end e \<le> end)"
proof (induction line "end" e rule: run_end.induct)
  case (1 line "end" e)
  then show ?case by (simp add: run_end.simps [of line "end" e]) (metis Suc_leD Suc_le_eq)
qed

definition run_calls :: "(nat \<Rightarrow> TERMINAL_CELL) \<Rightarrow> nat \<Rightarrow> nat \<Rightarrow> nat \<Rightarrow> CONSOLE_CALL list" where
  "run_calls line row position e =
     [SetAttribute (Attribute (line position)), SetCursorPosition position row,
      OutputString (map (\<lambda>c. Character (line c)) [position..<Suc e])]"

function row_calls :: "(nat \<Rightarrow> TERMINAL_CELL) \<Rightarrow> nat \<Rightarrow> nat \<Rightarrow> nat \<Rightarrow> CONSOLE_CALL list" where
  "row_calls line row end position =
     (if position \<le> end then
        run_calls line row position (run_end line end position) @
        row_calls line row end (Suc (run_end line end position))
      else [])"
  by pat_completeness auto
termination
proof (relation "measure (\<lambda>(line, row, end, position). Suc end - position)")
  show "((line, row, end, Suc (run_end line end position)), line, row, end, position)
      \<in> measure (\<lambda>(line, row, end, position). Suc end - position)"
    if "position \<le> end" for line row "end" position
    using that run_end_bounds [of position line "end"] by auto
qed simp

declare row_calls.simps [simp del]

definition dirty_row_calls :: "term_state \<Rightarrow> nat \<Rightarrow> CONSOLE_CALL list" where
  "dirty_row_calls t r =
     (if DirtyStart t ! r \<ge> Columns t \<or> DirtyEnd t ! r < DirtyStart t ! r then []
      else row_calls (grid t r) r (DirtyEnd t ! r) (DirtyStart t ! r))"

definition flush_calls :: "term_state \<Rightarrow> CONSOLE_CALL list" where
  "flush_calls t = EnableCursor False # concat (map (dirty_row_calls t) [0..<Rows t]) @
     [SetAttribute (TerminalAttribute t), SetCursorPosition (Column t) (Row t),
      EnableCursor (CursorVisible t)]"

text \<open>The states a flush goes through: only these four fields change.\<close>

definition flushing ::
  "term_state \<Rightarrow> nat list \<Rightarrow> nat list \<Rightarrow> CHAR16 list \<Rightarrow> CONSOLE_CALL list \<Rightarrow> term_state" where
  "flushing t ds de rb tr =
     t\<lparr>DirtyStart := ds, DirtyEnd := de, RenderBuffer := rb, ConOut := tr\<rparr>"

lemma flushing_sel [simp]:
  "Rows (flushing t ds de rb tr) = Rows t" "Columns (flushing t ds de rb tr) = Columns t"
  "DirtyStart (flushing t ds de rb tr) = ds" "DirtyEnd (flushing t ds de rb tr) = de"
  "RenderBuffer (flushing t ds de rb tr) = rb" "ConOut (flushing t ds de rb tr) = tr"
  "CellAt (flushing t ds de rb tr) = CellAt t" "ReadCell (flushing t ds de rb tr) = ReadCell t"
  "grid (flushing t ds de rb tr) = grid t" "on_screen (flushing t ds de rb tr) = on_screen t"
  "Row (flushing t ds de rb tr) = Row t" "Column (flushing t ds de rb tr) = Column t"
  "CursorVisible (flushing t ds de rb tr) = CursorVisible t"
  "TerminalAttribute (flushing t ds de rb tr) = TerminalAttribute t"
  "console x (flushing t ds de rb tr) = flushing t ds de rb (tr @ [x])"
  "(flushing t ds de rb tr)\<lparr>RenderBuffer := rb'\<rparr> = flushing t ds de rb' tr"
  "(flushing t ds de rb tr)\<lparr>DirtyStart := ds', DirtyEnd := de'\<rparr> = flushing t ds' de' rb tr"
  by (simp_all add: flushing_def CellAt_def ReadCell_def grid_def buffer_def console_def
      TerminalAttribute_eq Let_def on_screen_def fun_eq_iff split: SCREEN.splits)

lemma flushing_start: "t = flushing t (DirtyStart t) (DirtyEnd t) (RenderBuffer t) (ConOut t)"
  by (simp add: flushing_def)

lemma ReadCell_grid:
  assumes "wf_term t" and "r < Rows t" and "c < Columns t"
  shows "ReadCell t (CellAt t r c) = Some (grid t r c)"
  using CellAt_eq [OF assms] assms by (simp add: ReadCell_def grid_def grid_of_def)

lemma RunEndLoop_eq:
  assumes wf: "wf_term t" and r: "r < Rows t" and "end < Columns t"
    and "a = Attribute (grid t r e)"
  shows "RunEndLoop (flushing t ds de rb tr) r end a e = Some (run_end (grid t r) end e)"
  using assms(3,4)
proof (induction "grid t r" "end" e rule: run_end.induct)
  case (1 "end" e)
  show ?case
  proof (cases "e < end")
    case True
    then have "uadd e 1 = Suc e" "Suc e < Columns t" using "1.prems" wf_bounds [OF wf] by simp_all
    moreover have "RunEndLoop (flushing t ds de rb tr) r end a (Suc e) =
        Some (run_end (grid t r) end (Suc e))" if "Attribute (grid t r (Suc e)) = a"
      using "1.hyps" True that "1.prems" by simp
    ultimately show ?thesis
      using True "1.prems" ReadCell_grid [OF wf r, of "Suc e"]
      by (simp add: RunEndLoop.simps [of _ _ _ _ e] run_end.simps [of "grid t r" "end" e])
  next
    case False
    then show ?thesis
      by (simp add: RunEndLoop.simps [of _ _ _ _ e] run_end.simps [of "grid t r" "end" e])
  qed
qed

lemma RenderRun_ok:
  assumes wf: "wf_term t" and r: "r < Rows t" and e: "p \<le> e" "e < Columns t"
    and len: "length rb = Columns t + 1"
  shows "ok (RenderRun r p e (flushing t ds de rb tr)) (\<lambda>t'. \<exists>rb'. t' = flushing t ds de rb' tr \<and>
    length rb' = Columns t + 1 \<and>
    take (Suc e - p) rb' = map (\<lambda>c. Character (grid t r c)) [p..<Suc e])"
proof -
  let ?I = "\<lambda>j t'. p \<le> j \<and> (\<exists>rb'. t' = flushing t ds de rb' tr \<and> length rb' = Columns t + 1 \<and>
    take (j - p) rb' = map (\<lambda>c. Character (grid t r c)) [p..<j])"
  have "ok (RenderRun r p e (flushing t ds de rb tr)) (?I (max p (Suc e)))"
    unfolding RenderRun_def
  proof (rule for_below_ok)
    show "?I p (flushing t ds de rb tr)"
      by (intro conjI exI [of _ rb]) (use len in simp_all)
  next
    fix j s
    assume j: "p \<le> j" "j < Suc e" and "?I j s"
    then obtain rb' where s: "s = flushing t ds de rb' tr" and len': "length rb' = Columns t + 1"
      and tk: "take (j - p) rb' = map (\<lambda>c. Character (grid t r c)) [p..<j]" by blast
    have "j < Columns t" using j e by simp
    note rd = ReadCell_grid [OF wf r this]
    have u: "usub j p = j - p" using j e wf_bounds [OF wf] by simp
    let ?rb = "rb'[j - p := Character (grid t r j)]"
    have "take (Suc j - p) ?rb = map (\<lambda>c. Character (grid t r c)) [p..<Suc j]"
      using tk len' j e by (simp add: Suc_diff_le take_Suc_conv_app_nth)
    then show "ok (do { cell \<leftarrow> ReadCell s (CellAt s r j);
        rb \<leftarrow> aset (RenderBuffer s) (usub j p) (Character cell);
        Some (s\<lparr>RenderBuffer := rb\<rparr>) }) (?I (Suc j))"
      using rd u len' j e by (auto simp: s)
  qed
  then show ?thesis using e by (auto elim!: ok_mono simp: max_def)
qed

lemma takeWhile_terminated:
  assumes "take n xs = ys" and "length ys = n" and "n < length xs" and "\<forall>y \<in> set ys. y \<noteq> 0"
  shows "takeWhile (\<lambda>y. y \<noteq> 0) (xs[n := 0]) = ys"
proof -
  have "xs[n := 0] = ys @ 0 # drop (Suc n) xs"
    using assms by (simp add: upd_conv_take_nth_drop)
  then show ?thesis using assms(4) by (simp add: takeWhile_append)
qed

lemma FlushRun_ok:
  assumes wf: "wf_term t" and r: "r < Rows t" and p: "p \<le> end" "end < Columns t"
    and len: "length rb = Columns t + 1"
  shows "ok (FlushRun r end p (flushing t ds de rb tr)) (\<lambda>(p', t'). p' = Suc (run_end (grid t r) end p) \<and>
    (\<exists>rb'. length rb' = Columns t + 1 \<and>
      t' = flushing t ds de rb' (tr @ run_calls (grid t r) r p (run_end (grid t r) end p))))"
proof -
  define e where "e = run_end (grid t r) end p"
  have e: "p \<le> e" "e < Columns t" using run_end_bounds [of p "grid t r" "end"] p by (simp_all add: e_def)
  have "p < Columns t" using p by simp
  note rd = ReadCell_grid [OF wf r this]
  have loop: "RunEndLoop (flushing t ds de rb tr) r end (Attribute (grid t r p)) p = Some e"
    unfolding e_def by (rule RunEndLoop_eq [OF wf r p(2) refl])
  obtain rb' where rr: "RenderRun r p e (flushing t ds de rb tr) = Some (flushing t ds de rb' tr)"
    and len': "length rb' = Columns t + 1"
    and tk: "take (Suc e - p) rb' = map (\<lambda>c. Character (grid t r c)) [p..<Suc e]"
    using RenderRun_ok [OF wf r e len, of ds de tr] by (auto elim!: okE)
  have u: "uadd (usub e p) 1 = Suc e - p" using e wf_bounds [OF wf] by simp
  have "takeWhile (\<lambda>y. y \<noteq> 0) (rb'[Suc e - p := 0]) = map (\<lambda>c. Character (grid t r c)) [p..<Suc e]"
    by (rule takeWhile_terminated [OF tk]) (use len' e grid_text [OF wf] in auto)
  then have eq: "FlushRun r end p (flushing t ds de rb tr) =
      Some (Suc e, flushing t ds de (rb'[Suc e - p := 0]) (tr @ run_calls (grid t r) r p e))"
    unfolding FlushRun_def Let_def using rd loop rr u len' e by (simp add: run_calls_def)
  show ?thesis unfolding eq e_def [symmetric] ok_Some prod.case
    by (intro conjI exI [of _ "rb'[Suc e - p := 0]"]) (use len' in simp_all)
qed

lemma FlushRuns_ok:
  assumes wf: "wf_term t" and r: "r < Rows t" and "end < Columns t" and "length rb = Columns t + 1"
  shows "ok (FlushRuns r end p (flushing t ds de rb tr)) (\<lambda>t'. \<exists>rb'. length rb' = Columns t + 1 \<and>
    t' = flushing t ds de rb' (tr @ row_calls (grid t r) r end p))"
  using assms(4)
proof (induction "Suc end - p" arbitrary: p rb tr rule: less_induct)
  case less
  let ?e = "run_end (grid t r) end p"
  show ?case
  proof (cases "p \<le> end")
    case True
    obtain rb1 where run: "FlushRun r end p (flushing t ds de rb tr) =
          Some (Suc ?e, flushing t ds de rb1 (tr @ run_calls (grid t r) r p ?e))"
      and len: "length rb1 = Columns t + 1"
      using FlushRun_ok [OF wf r True assms(3) less.prems, of ds de tr] by (auto elim!: okE)
    have "Suc end - Suc ?e < Suc end - p" using run_end_bounds [of p "grid t r" "end"] True by auto
    from less.hyps [OF this len, of "tr @ run_calls (grid t r) r p ?e"] show ?thesis
      using run True by (simp add: FlushRuns.simps [of _ _ p] row_calls.simps [of _ _ _ p])
  next
    case False
    then have "FlushRuns r end p (flushing t ds de rb tr) = Some (flushing t ds de rb tr)"
      "row_calls (grid t r) r end p = []"
      by (simp_all add: FlushRuns.simps [of _ _ p] row_calls.simps [of _ _ _ p])
    then show ?thesis using less.prems by auto
  qed
qed

text \<open>The rows below \<open>j\<close> are flushed: none of their cells is dirty any more.\<close>

definition flushed_below ::
  "term_state \<Rightarrow> nat \<Rightarrow> nat list \<Rightarrow> nat list \<Rightarrow> bool" where
  "flushed_below t j ds de \<longleftrightarrow> length ds = Rows t \<and> length de = Rows t \<and>
     (\<forall>r < Rows t. ds ! r \<le> Columns t \<and> de ! r < Columns t) \<and>
     (\<forall>r < j. Columns t \<le> ds ! r \<or> de ! r < ds ! r) \<and>
     (\<forall>r. j \<le> r \<and> r < Rows t \<longrightarrow> ds ! r = DirtyStart t ! r \<and> de ! r = DirtyEnd t ! r)"

lemma flushed_below_skip:
  assumes "flushed_below t j ds de" and "j < Rows t" and "Columns t \<le> ds ! j \<or> de ! j < ds ! j"
  shows "flushed_below t (Suc j) ds de"
  using assms by (auto simp: flushed_below_def less_Suc_eq Suc_le_eq)

lemma flushed_below_reset:
  assumes "flushed_below t j ds de" and "j < Rows t" and "0 < Columns t"
  shows "flushed_below t (Suc j) (ds[j := Columns t]) (de[j := 0])"
  using assms by (auto simp: flushed_below_def less_Suc_eq Suc_le_eq nth_list_update)

lemma FlushRow_ok:
  assumes wf: "wf_term t" and j: "j < Rows t" and len: "length rb = Columns t + 1"
    and f: "flushed_below t j ds de"
  shows "ok (FlushRow j (flushing t ds de rb tr)) (\<lambda>t'. \<exists>ds' de' rb'. length rb' = Columns t + 1 \<and>
    flushed_below t (Suc j) ds' de' \<and> t' = flushing t ds' de' rb' (tr @ dirty_row_calls t j))"
proof -
  have d: "ds ! j = DirtyStart t ! j" "de ! j = DirtyEnd t ! j" "de ! j < Columns t"
    "length ds = Rows t" "length de = Rows t"
    using f j unfolding flushed_below_def by auto
  show ?thesis
  proof (cases "Columns t \<le> ds ! j \<or> de ! j < ds ! j")
    case True
    then have eq: "FlushRow j (flushing t ds de rb tr) = Some (flushing t ds de rb tr)"
      and none: "dirty_row_calls t j = []"
      using d j by (auto simp: FlushRow_def dirty_row_calls_def)
    show ?thesis unfolding eq none ok_Some
      by (intro exI [of _ ds] exI [of _ de] exI [of _ rb] conjI len flushed_below_skip [OF f j True]) simp
  next
    case False
    obtain rb1 where r: "FlushRuns j (de ! j) (ds ! j) (flushing t ds de rb tr) =
        Some (flushing t ds de rb1 (tr @ row_calls (grid t j) j (de ! j) (ds ! j)))"
      and len1: "length rb1 = Columns t + 1"
      using FlushRuns_ok [OF wf j d(3) len, of "ds ! j" ds de tr] by (auto elim!: okE)
    have c: "UINT16_cast (Columns t) = Columns t" using wf_bounds [OF wf] by simp
    have eq: "FlushRow j (flushing t ds de rb tr) = Some (flushing t (ds[j := Columns t]) (de[j := 0]) rb1
        (tr @ dirty_row_calls t j))"
      using False d j r c by (simp add: FlushRow_def dirty_row_calls_def ResetDirtyRow_def)
    show ?thesis unfolding eq ok_Some
      by (intro exI [of _ "ds[j := Columns t]"] exI [of _ "de[j := 0]"] exI [of _ rb1] conjI len1
          flushed_below_reset [OF f j]) (use wf_bounds [OF wf] in simp_all)
  qed
qed

lemma wf_flushing:
  assumes "wf_term t" and "flushed_below t (Rows t) ds de" and "length rb = Columns t + 1"
  shows "wf_term (flushing t ds de rb tr)" and "\<not> (on_screen t r c \<and> dirty (flushing t ds de rb tr) r c)"
proof -
  have "wf_dirty (flushing t ds de rb tr)" using assms(2) by (simp add: wf_dirty_def flushed_below_def)
  then show "wf_term (flushing t ds de rb tr)" using assms(1,3) unfolding wf_parts flushing_def by simp
  show "\<not> (on_screen t r c \<and> dirty (flushing t ds de rb tr) r c)"
    using assms(2) by (auto simp: flushed_below_def dirty_def on_screen_def)
qed

lemma Flush_ok:
  assumes wf: "wf_term t"
  shows "ok (WolfSshTerminalFlush t) (\<lambda>t'. wf_term t' \<and>
    (\<exists>ds de rb. t' = flushing t ds de rb (ConOut t @ flush_calls t)) \<and>
    (\<forall>r c. on_screen t r c \<longrightarrow> \<not> dirty t' r c))"
proof -
  let ?tr = "\<lambda>j. (ConOut t @ [EnableCursor False]) @ concat (map (dirty_row_calls t) [0..<j])"
  let ?I = "\<lambda>j t'. j \<le> Rows t \<and> (\<exists>ds de rb. length rb = Columns t + 1 \<and> flushed_below t j ds de \<and>
    t' = flushing t ds de rb (?tr j))"
  have "ok (for_below 0 (Rows t) FlushRow (console (EnableCursor False) t)) (?I (max 0 (Rows t)))"
  proof (rule for_below_ok)
    have "flushed_below t 0 (DirtyStart t) (DirtyEnd t)"
      using wf wf_dirtyD [OF wf] by (simp add: flushed_below_def)
    moreover have "console (EnableCursor False) t =
        flushing t (DirtyStart t) (DirtyEnd t) (RenderBuffer t) (?tr 0)"
      by (simp add: flushing_def console_def)
    ultimately show "?I 0 (console (EnableCursor False) t)"
      using wf wf_lengths(4) [OF wf] by blast
  next
    fix j s
    assume "0 \<le> j" and j: "j < Rows t" and "?I j s"
    then obtain ds de rb where len: "length rb = Columns t + 1" and f: "flushed_below t j ds de"
      and s: "s = flushing t ds de rb (?tr j)" by blast
    have e: "?tr (Suc j) = ?tr j @ dirty_row_calls t j" by simp
    have "Suc j \<le> Rows t" using j by simp
    then show "ok (FlushRow j s) (?I (Suc j))"
      unfolding s e using FlushRow_ok [OF wf j len f, of "?tr j"] by (elim ok_mono) blast
  qed
  then obtain ds de rb where
    loop: "for_below 0 (Rows t) FlushRow (console (EnableCursor False) t) =
      Some (flushing t ds de rb (?tr (Rows t)))"
    and len: "length rb = Columns t + 1" and f: "flushed_below t (Rows t) ds de"
    by (auto elim!: okE)
  have "Rows (console (EnableCursor False) t) = Rows t" by (simp add: console_def)
  then have eq: "WolfSshTerminalFlush t = Some (flushing t ds de rb (ConOut t @ flush_calls t))"
    using loop by (simp add: WolfSshTerminalFlush_def flush_calls_def)
  show ?thesis unfolding eq ok_Some using wf_flushing [OF wf f len] by blast
qed

section \<open>What a flush leaves on the glass\<close>

text \<open>
  The console of the firmware, as far as the terminal relies on it: \<open>shown tr r c\<close> is the character
  displayed at row \<open>r\<close>, column \<open>c\<close> after the calls \<open>tr\<close>. The UEFI specification says that
  \<open>ClearScreen\<close> blanks the display, that \<open>EnableCursor\<close>, \<open>SetAttribute\<close> and
  \<open>SetCursorPosition\<close> do not change the characters on it, and that \<open>OutputString\<close> writes at the
  cursor position as long as it gets no control character (NUL, BS, LF, CR) and does not run past
  the end of a line; in the last column of the last line the display scrolls, which is why that
  position is excluded here.
\<close>

definition plain :: "CHAR16 \<Rightarrow> bool" where
  "plain ch \<longleftrightarrow> ch \<noteq> 0 \<and> ch \<noteq> 8 \<and> ch \<noteq> 10 \<and> ch \<noteq> 13"

definition text_console :: "nat \<Rightarrow> nat \<Rightarrow> (CONSOLE_CALL list \<Rightarrow> nat \<Rightarrow> nat \<Rightarrow> CHAR16) \<Rightarrow> bool" where
  "text_console rows cols shown \<longleftrightarrow>
     (\<forall>tr r c. shown (tr @ [ClearScreen]) r c = 32) \<and>
     (\<forall>tr e. shown (tr @ [EnableCursor e]) = shown tr) \<and>
     (\<forall>tr a. shown (tr @ [SetAttribute a]) = shown tr) \<and>
     (\<forall>tr x y. shown (tr @ [SetCursorPosition x y]) = shown tr) \<and>
     (\<forall>tr x y s. y < rows \<and> x + length s \<le> cols \<and> \<not> (y + 1 = rows \<and> x + length s = cols) \<and>
        (\<forall>ch \<in> set s. plain ch) \<longrightarrow>
        shown (tr @ [SetCursorPosition x y, OutputString s]) =
          (\<lambda>r c. if r = y \<and> x \<le> c \<and> c < x + length s then s ! (c - x) else shown tr r c))"

lemma text_console_clears: "text_console rows cols shown \<Longrightarrow> clears shown"
  by (simp add: text_console_def clears_def)

lemma shown_run_calls:
  assumes con: "text_console rows cols shown" and "r < rows" and "p \<le> e" and "e < cols"
    and "\<not> (r + 1 = rows \<and> e + 1 = cols)" and "\<forall>c. plain (Character (line c))"
  shows "shown (tr @ run_calls line r p e) =
    (\<lambda>r' c. if r' = r \<and> p \<le> c \<and> c \<le> e then Character (line c) else shown tr r' c)"
proof -
  let ?s = "map (\<lambda>c. Character (line c)) [p..<Suc e]"
  have "shown ((tr @ [SetAttribute (Attribute (line p))]) @ [SetCursorPosition p r, OutputString ?s]) =
      (\<lambda>r' c. if r' = r \<and> p \<le> c \<and> c < p + length ?s then ?s ! (c - p)
         else shown (tr @ [SetAttribute (Attribute (line p))]) r' c)"
    using con assms(2-6) unfolding text_console_def by (auto simp del: append_assoc upt_Suc)
  moreover have "shown (tr @ [SetAttribute a]) = shown tr" for a
    using con by (simp add: text_console_def)
  ultimately show ?thesis using assms(3)
    by (auto simp: run_calls_def fun_eq_iff nth_append simp del: upt_Suc)
qed

lemma shown_row_calls:
  assumes con: "text_console rows cols shown" and r: "r < rows" and "end < cols"
    and "\<not> (r + 1 = rows \<and> end + 1 = cols)" and "\<forall>c. plain (Character (line c))"
  shows "shown (tr @ row_calls line r end p) =
    (\<lambda>r' c. if r' = r \<and> p \<le> c \<and> c \<le> end then Character (line c) else shown tr r' c)"
proof (induction "Suc end - p" arbitrary: p tr rule: less_induct)
  case less
  let ?e = "run_end line end p"
  show ?case
  proof (cases "p \<le> end")
    case True
    have e: "p \<le> ?e" "?e \<le> end" using run_end_bounds [of p line "end"] True by simp_all
    have run: "shown (tr @ run_calls line r p ?e) =
        (\<lambda>r' c. if r' = r \<and> p \<le> c \<and> c \<le> ?e then Character (line c) else shown tr r' c)"
      by (rule shown_run_calls [OF con r]) (use e assms in auto)
    have "Suc end - Suc ?e < Suc end - p" using e by auto
    from less.hyps [OF this, of "tr @ run_calls line r p ?e"] show ?thesis
      using True e by (auto simp: row_calls.simps [of _ _ _ p] run fun_eq_iff)
  next
    case False
    then show ?thesis by (auto simp: row_calls.simps [of _ _ _ p] fun_eq_iff)
  qed
qed

lemma shown_dirty_rows:
  assumes wf: "wf_term t" and con: "text_console (Rows t) (Columns t) shown"
    and corner: "\<not> dirty t (Rows t - 1) (Columns t - 1)"
    and pl: "\<forall>r c. plain (Character (grid t r c))" and "n \<le> Rows t"
  shows "shown (tr @ concat (map (dirty_row_calls t) [0..<n])) =
    (\<lambda>r c. if r < n \<and> c < Columns t \<and> dirty t r c then Character (grid t r c) else shown tr r c)"
  using assms(5)
proof (induction n)
  case 0
  then show ?case by (simp add: fun_eq_iff)
next
  case (Suc n)
  have n: "n < Rows t" using Suc.prems by simp
  note d = wf_dirtyD [OF wf n]
  let ?tr = "tr @ concat (map (dirty_row_calls t) [0..<n])"
  have "shown (?tr @ dirty_row_calls t n) =
      (\<lambda>r c. if r = n \<and> c < Columns t \<and> dirty t n c then Character (grid t n c) else shown ?tr r c)"
  proof (cases "Columns t \<le> DirtyStart t ! n \<or> DirtyEnd t ! n < DirtyStart t ! n")
    case True
    then show ?thesis by (auto simp: dirty_row_calls_def dirty_def fun_eq_iff)
  next
    case False
    have "\<not> (n + 1 = Rows t \<and> DirtyEnd t ! n + 1 = Columns t)"
    proof
      assume "n + 1 = Rows t \<and> DirtyEnd t ! n + 1 = Columns t"
      then have "Rows t - 1 = n" "Columns t - 1 = DirtyEnd t ! n" by linarith+
      then show False using corner False n by (simp add: dirty_def)
    qed
    then have "shown (?tr @ row_calls (grid t n) n (DirtyEnd t ! n) (DirtyStart t ! n)) =
        (\<lambda>r c. if r = n \<and> DirtyStart t ! n \<le> c \<and> c \<le> DirtyEnd t ! n then Character (grid t n c)
           else shown ?tr r c)"
      by (rule shown_row_calls [OF con n d(2)]) (use pl in simp)
    then show ?thesis using False n d(2) by (auto simp: dirty_row_calls_def dirty_def fun_eq_iff)
  qed
  then show ?case using Suc n by (auto simp: fun_eq_iff less_Suc_eq)
qed

text \<open>
  After a flush the glass shows the grid: everywhere, provided the glass agreed with the clean
  cells before, no cell holds a control character, and the bottom right corner was not dirty.
\<close>

lemma flush_mirror:
  assumes wf: "wf_term t" and con: "text_console (Rows t) (Columns t) shown" and m: "mirror shown t"
    and corner: "\<not> dirty t (Rows t - 1) (Columns t - 1)"
    and pl: "\<forall>r c. plain (Character (grid t r c))"
  shows "ok (WolfSshTerminalFlush t) (\<lambda>t'. wf_term t' \<and> grid t' = grid t \<and>
    (\<forall>r c. on_screen t r c \<longrightarrow> shown (ConOut t') r c = Character (grid t r c)))"
proof -
  have tail: "shown (tr @ [SetAttribute a, SetCursorPosition x y, EnableCursor v]) = shown tr"
    for tr a x y v
  proof -
    have "shown (((tr @ [SetAttribute a]) @ [SetCursorPosition x y]) @ [EnableCursor v]) = shown tr"
      using con unfolding text_console_def by (simp only: simp_thms)
    then show ?thesis by simp
  qed
  have head: "shown (ConOut t @ [EnableCursor False]) = shown (ConOut t)"
    using con by (simp add: text_console_def)
  have "shown (ConOut t @ flush_calls t) = shown ((ConOut t @ [EnableCursor False]) @
      concat (map (dirty_row_calls t) [0..<Rows t]))"
    using tail [of "ConOut t @ EnableCursor False # concat (map (dirty_row_calls t) [0..<Rows t])"]
    by (simp add: flush_calls_def)
  also have "\<dots> = (\<lambda>r c. if r < Rows t \<and> c < Columns t \<and> dirty t r c then Character (grid t r c)
      else shown (ConOut t) r c)"
    unfolding shown_dirty_rows [OF wf con corner pl order_refl] head by (rule refl)
  finally have "\<forall>r c. on_screen t r c \<longrightarrow> shown (ConOut t @ flush_calls t) r c = Character (grid t r c)"
    using m by (auto simp: mirror_def on_screen_def)
  then show ?thesis using Flush_ok [OF wf] by (elim ok_mono) auto
qed

section \<open>Creating and destroying the terminal\<close>

text \<open>
  What the firmware supplies when a terminal is created: whether \<open>gST\<close>, \<open>ConOut\<close> and its mode are
  there, what \<open>QueryMode\<close> returns (given the two output variables' previous values), the mode's
  attribute, and the outcome of each pool allocation, a function of the size in bytes. A \<open>None\<close>
  is a failed allocation; the content of a fresh buffer is arbitrary, except that
  \<open>AllocateZeroPool\<close> zeroes it.
\<close>

record FIRMWARE =
  ConOutPresent :: bool
  QueryMode :: "UINTN \<times> UINTN \<Rightarrow> EFI_STATUS \<times> UINTN \<times> UINTN"
  ModeAttribute :: INT32
  PoolTerminal :: bool
  PoolPrimary :: "UINTN \<Rightarrow> TERMINAL_CELL list option"
  PoolAlternate :: "UINTN \<Rightarrow> TERMINAL_CELL list option"
  PoolDirtyStart :: "UINTN \<Rightarrow> nat list option"
  PoolDirtyEnd :: "UINTN \<Rightarrow> bool"
  PoolRender :: "UINTN \<Rightarrow> CHAR16 list option"

definition pool_spec :: "FIRMWARE \<Rightarrow> bool" where
  "pool_spec f \<longleftrightarrow>
     (\<forall>n cs. PoolPrimary f n = Some cs \<longrightarrow> length cs = n div 16) \<and>
     (\<forall>n cs. PoolAlternate f n = Some cs \<longrightarrow> length cs = n div 16) \<and>
     (\<forall>n ds. PoolDirtyStart f n = Some ds \<longrightarrow> length ds = n div 2) \<and>
     (\<forall>n rb. PoolRender f n = Some rb \<longrightarrow> length rb = n div 2)"

text \<open>The pool blocks of a terminal, as \<open>FreePool\<close> gets them; \<open>None\<close> is the null pointer.\<close>

datatype POOL_BLOCK =
  TerminalBlock | PrimaryBlock | AlternateBlock | DirtyStartBlock | DirtyEndBlock | RenderBlock

text \<open>
  Destroying a terminal with the given default colours whose allocated blocks are those of
  \<open>owned\<close>: the console calls made and the pointers handed to \<open>FreePool\<close>.
\<close>

definition WolfSshTerminalDestroy ::
  "bool \<Rightarrow> UINTN \<Rightarrow> UINTN \<Rightarrow> (POOL_BLOCK \<Rightarrow> bool) \<Rightarrow> CONSOLE_CALL list \<times> POOL_BLOCK option list" where
  "WolfSshTerminalDestroy conOut foreground background owned =
     (let pointer = (\<lambda>b. if owned b then Some b else None);
          calls = (if conOut then [SetAttribute (EFI_TEXT_ATTR foreground background), EnableCursor True]
                   else [])
      in (calls, [pointer RenderBlock, pointer DirtyEndBlock, pointer DirtyStartBlock,
                  pointer AlternateBlock, pointer PrimaryBlock, pointer TerminalBlock]))"

datatype CREATED =
    CreatedTerminal term_state
  | NotCreated "CONSOLE_CALL list" "POOL_BLOCK option list"

abbreviation (input) MAX_UINT16 :: nat where "MAX_UINT16 \<equiv> 65535"

text \<open>
  The structure right after \<open>AllocateZeroPool\<close> and the assignments of the five buffers. \<open>Cells\<close> is
  the null pointer until it is assigned, and it is assigned before it is used.
\<close>

definition zeroed_terminal :: "UINTN \<Rightarrow> UINTN \<Rightarrow> TERMINAL_CELL list \<Rightarrow> TERMINAL_CELL list \<Rightarrow>
    nat list \<Rightarrow> nat list \<Rightarrow> CHAR16 list \<Rightarrow> term_state" where
  "zeroed_terminal columns rows primary alternate ds de rb =
     \<lparr>Columns = columns, Rows = rows, Primary = primary, Alternate = alternate, Cells = PrimaryScreen,
      DirtyStart = ds, DirtyEnd = de, RenderBuffer = rb, Row = 0, Column = 0, SavedRow = 0,
      SavedColumn = 0, PrimaryRow = 0, PrimaryColumn = 0, ScrollTop = 0, ScrollBottom = 0,
      DefaultForeground = 0, DefaultBackground = 0, Foreground = 0, Background = 0, Bold = False,
      Reverse = False, CursorVisible = False, ApplicationCursor = False, InsertMode = False,
      WrapPending = False, AlternateActive = False, ParserState = ParserGround,
      Parameters = replicate 16 0, ParameterCount = 0, PrivateCsi = False, Utf8Remaining = 0,
      Utf8CodePoint = 0, Replies = replicate 128 0, ReplyLength = 0, ConOut = []\<rparr>"

definition WolfSshTerminalCreate :: "FIRMWARE \<Rightarrow> CREATED option" where
  "WolfSshTerminalCreate f =
     (if \<not> ConOutPresent f then Some (NotCreated [] [])
      else
        let (status, columns, rows) = QueryMode f (80, 25);
            (columns, rows) =
              (if EFI_ERROR status \<or> columns = 0 \<or> rows = 0 \<or> columns > MAX_UINT16 \<or> rows > MAX_UINT16
               then (80, 25) else (columns, rows))
        in if \<not> PoolTerminal f then Some (NotCreated [] [])
        else
          let primary = PoolPrimary f (umul (umul columns rows) 16);
              alternate = PoolAlternate f (umul (umul columns rows) 16);
              ds = PoolDirtyStart f (umul rows 2);
              de = (if PoolDirtyEnd f (umul rows 2) then Some (replicate (umul rows 2 div 2) 0) else None);
              rb = PoolRender f (umul (uadd columns 1) 2)
          in if primary = None \<or> alternate = None \<or> ds = None \<or> de = None \<or> rb = None then
            (let owned = (\<lambda>b. case b of TerminalBlock \<Rightarrow> True | PrimaryBlock \<Rightarrow> primary \<noteq> None
                   | AlternateBlock \<Rightarrow> alternate \<noteq> None | DirtyStartBlock \<Rightarrow> ds \<noteq> None
                   | DirtyEndBlock \<Rightarrow> de \<noteq> None | RenderBlock \<Rightarrow> rb \<noteq> None);
                 (calls, freed) = WolfSshTerminalDestroy True 0 0 owned
             in Some (NotCreated calls freed))
          else do {
            let t = zeroed_terminal columns rows (the primary) (the alternate) (the ds) (the de) (the rb);
            let attribute = UINTN_of_INT32 (ModeAttribute f);
            let t = t\<lparr>DefaultForeground := attribute AND 0x0f,
                      DefaultBackground := drop_bit 4 attribute AND 0x07\<rparr>;
            let t = t\<lparr>Foreground := DefaultForeground t, Background := DefaultBackground t,
                      Cells := PrimaryScreen, ScrollBottom := usub rows 1, CursorVisible := True\<rparr>;
            t \<leftarrow> ClearBuffer t PrimaryScreen;
            t \<leftarrow> ClearBuffer t AlternateScreen;
            t \<leftarrow> for_below 0 rows (\<lambda>row t. do {
                   starts \<leftarrow> aset (DirtyStart t) row (UINT16_cast columns);
                   Some (t\<lparr>DirtyStart := starts\<rparr>) }) t;
            t \<leftarrow> ResetParser t;
            Some (CreatedTerminal t) })"

text \<open>The size chosen for the terminal, and whether every allocation of that size succeeds.\<close>

definition console_size :: "FIRMWARE \<Rightarrow> UINTN \<times> UINTN" where
  "console_size f = (case QueryMode f (80, 25) of (status, columns, rows) \<Rightarrow>
     if EFI_ERROR status \<or> columns = 0 \<or> rows = 0 \<or> columns > MAX_UINT16 \<or> rows > MAX_UINT16
     then (80, 25) else (columns, rows))"

definition pool_grants :: "FIRMWARE \<Rightarrow> bool" where
  "pool_grants f = (case console_size f of (columns, rows) \<Rightarrow>
     PoolTerminal f \<and> PoolPrimary f (columns * rows * 16) \<noteq> None \<and>
     PoolAlternate f (columns * rows * 16) \<noteq> None \<and> PoolDirtyStart f (rows * 2) \<noteq> None \<and>
     PoolDirtyEnd f (rows * 2) \<and> PoolRender f ((columns + 1) * 2) \<noteq> None)"

text \<open>The terminal as created: a blank screen of the console's size in the console's colours.\<close>

definition created_terminal :: "UINTN \<Rightarrow> UINTN \<Rightarrow> UINTN \<Rightarrow> UINTN \<Rightarrow> CHAR16 list \<Rightarrow> term_state" where
  "created_terminal columns rows fg bg rb =
     (zeroed_terminal columns rows
        (replicate (rows * columns) (blank (EFI_TEXT_ATTR fg bg)))
        (replicate (rows * columns) (blank (EFI_TEXT_ATTR fg bg)))
        (replicate rows columns) (replicate rows 0) rb)
     \<lparr>DefaultForeground := fg, DefaultBackground := bg, Foreground := fg, Background := bg,
      ScrollBottom := rows - 1, CursorVisible := True, Parameters := replicate 16 (-1),
      ParameterCount := 1\<rparr>"

lemma console_size_bounds:
  assumes "console_size f = (columns, rows)"
  shows "0 < columns" "columns \<le> 65535" "0 < rows" "rows \<le> 65535"
  using assms by (auto simp: console_size_def split: prod.splits if_splits)

lemma created_terminal_wf:
  assumes "0 < columns" "columns \<le> 65535" "0 < rows" "rows \<le> 65535" "fg < 16" "bg < 16"
    and "length rb = columns + 1"
  shows "wf_term (created_terminal columns rows fg bg rb)"
  using assms unfolding wf_parts created_terminal_def zeroed_terminal_def by simp

lemma created_terminal_blank:
  assumes "on_screen (created_terminal columns rows fg bg rb) r c"
  shows "grid (created_terminal columns rows fg bg rb) r c = blank (EFI_TEXT_ATTR fg bg)"
    and "\<not> dirty (created_terminal columns rows fg bg rb) r c"
  using assms cell_index_lt [of r rows c columns]
  by (auto simp: created_terminal_def zeroed_terminal_def on_screen_def grid_def grid_of_def
      buffer_def dirty_def)

lemma fill_dirty_start:
  assumes "length (DirtyStart t) = n"
  shows "for_below 0 n (\<lambda>row t. do {
      starts \<leftarrow> aset (DirtyStart t) row v; Some (t\<lparr>DirtyStart := starts\<rparr>) }) t =
    Some (t\<lparr>DirtyStart := replicate n v\<rparr>)"
proof -
  let ?body = "\<lambda>row t. do { starts \<leftarrow> aset (DirtyStart t) row v; Some (t\<lparr>DirtyStart := starts\<rparr>) }"
  let ?I = "\<lambda>j t'. j \<le> n \<and> t' = t\<lparr>DirtyStart := replicate j v @ drop j (DirtyStart t)\<rparr>"
  have "ok (for_below 0 n ?body t) (?I (max 0 n))"
  proof (rule for_below_ok)
    show "?I 0 t" by simp
  next
    fix j s
    assume "j < n" and "?I j s"
    then show "ok (?body j s) (?I (Suc j))"
      using assms replicate_fill [of j "DirtyStart t" v] by simp
  qed
  then show ?thesis using assms by (auto elim!: okE)
qed

lemma Create_ok:
  assumes spec: "pool_spec f"
  shows "if ConOutPresent f \<and> pool_grants f then
      \<exists>columns rows rb. console_size f = (columns, rows) \<and> length rb = columns + 1 \<and>
        WolfSshTerminalCreate f = Some (CreatedTerminal (created_terminal columns rows
          (UINTN_of_INT32 (ModeAttribute f) mod 16) (UINTN_of_INT32 (ModeAttribute f) div 16 mod 8) rb))
    else \<exists>calls freed. WolfSshTerminalCreate f = Some (NotCreated calls freed)"
proof -
  obtain status columns0 rows0 where q: "QueryMode f (80, 25) = (status, columns0, rows0)"
    by (cases "QueryMode f (80, 25)") auto
  obtain columns rows where size: "console_size f = (columns, rows)" by fastforce
  note b = console_size_bounds [OF size]
  have size': "(if EFI_ERROR status \<or> columns0 = 0 \<or> rows0 = 0 \<or> columns0 > MAX_UINT16 \<or> rows0 > MAX_UINT16
      then (80, 25) else (columns0, rows0)) = (columns, rows)"
    using size by (simp add: console_size_def q)
  have "columns * rows \<le> 65535 * 65535" using b by (intro mult_le_mono) simp_all
  then have u: "umul (umul columns rows) 16 = columns * rows * 16" "umul rows 2 = rows * 2"
    "umul (uadd columns 1) 2 = (columns + 1) * 2" "usub rows 1 = rows - 1"
    and area: "rows * columns < 2 ^ 64"
    using b by (simp_all add: mult.commute)
  show ?thesis
  proof (cases "ConOutPresent f \<and> pool_grants f")
    case False
    then show ?thesis
      using size q size' u
      by (auto simp: WolfSshTerminalCreate_def pool_grants_def WolfSshTerminalDestroy_def Let_def)
  next
    case True
    then obtain cs cs' ds rb where pools: "PoolPrimary f (columns * rows * 16) = Some cs"
      "PoolAlternate f (columns * rows * 16) = Some cs'" "PoolDirtyStart f (rows * 2) = Some ds"
      "PoolDirtyEnd f (rows * 2)" "PoolRender f ((columns + 1) * 2) = Some rb" "PoolTerminal f"
      by (auto simp: pool_grants_def size)
    then have len: "length cs = rows * columns" "length cs' = rows * columns" "length ds = rows"
      "length rb = columns + 1"
      using spec by (auto simp: pool_spec_def mult.commute)
    define fg where "fg = UINTN_of_INT32 (ModeAttribute f) mod 16"
    define bg where "bg = UINTN_of_INT32 (ModeAttribute f) div 16 mod 8"
    let ?t = "(zeroed_terminal columns rows cs cs' ds (replicate rows 0) rb)
      \<lparr>DefaultForeground := fg, DefaultBackground := bg, Foreground := fg, Background := bg,
       Cells := PrimaryScreen, ScrollBottom := rows - 1, CursorVisible := True\<rparr>"
    let ?x = "replicate (rows * columns) (blank (EFI_TEXT_ATTR fg bg))"
    have attr: "UINTN_of_INT32 (ModeAttribute f) AND 15 = fg"
      "drop_bit 4 (UINTN_of_INT32 (ModeAttribute f)) AND 7 = bg"
      by (simp_all add: fg_def bg_def and_15 and_7 drop_bit_eq_div)
    have c1: "ClearBuffer ?t PrimaryScreen = Some (?t\<lparr>Primary := ?x\<rparr>)"
      using len area ClearBuffer_eq [of ?t PrimaryScreen]
      by (simp add: buffer_def set_buffer_def zeroed_terminal_def)
    have c2: "ClearBuffer (?t\<lparr>Primary := ?x\<rparr>) AlternateScreen = Some (?t\<lparr>Primary := ?x, Alternate := ?x\<rparr>)"
      using len area ClearBuffer_eq [of "?t\<lparr>Primary := ?x\<rparr>" AlternateScreen]
      by (simp add: buffer_def set_buffer_def zeroed_terminal_def)
    have "UINT16_cast columns = columns" using b by simp
    then have c3: "for_below 0 rows (\<lambda>row t. do {
        starts \<leftarrow> aset (DirtyStart t) row (UINT16_cast columns); Some (t\<lparr>DirtyStart := starts\<rparr>) })
        (?t\<lparr>Primary := ?x, Alternate := ?x\<rparr>) =
        Some (?t\<lparr>Primary := ?x, Alternate := ?x, DirtyStart := replicate rows columns\<rparr>)"
      using fill_dirty_start [of "?t\<lparr>Primary := ?x, Alternate := ?x\<rparr>" rows columns] len
      by (simp add: zeroed_terminal_def)
    have c4: "ResetParser (?t\<lparr>Primary := ?x, Alternate := ?x, DirtyStart := replicate rows columns\<rparr>) =
        Some (created_terminal columns rows fg bg rb)"
      by (subst ResetParser_eq)
        (simp_all add: zeroed_terminal_def created_terminal_def reset_parser_def)
    have "WolfSshTerminalCreate f = Some (CreatedTerminal (created_terminal columns rows fg bg rb))"
      unfolding WolfSshTerminalCreate_def q Let_def prod.case size' u pools attr
      using True pools c1 c2 c3 c4 by (simp add: zeroed_terminal_def)
    then show ?thesis using True size len(4) unfolding fg_def bg_def by auto
  qed
qed

section \<open>The self test\<close>

definition ascii :: "string \<Rightarrow> UINT8 list" where
  "ascii s = map of_char s"

definition TestSequence :: "UINT8 list" where
  "TestSequence =
     0x1b # ascii ''[2J'' @ 0x1b # ascii ''[H'' @
     0x1b # ascii ''[1;36mwolfssh-uefi VT test'' @ 0x1b # ascii ''[0m'' @ [0x0d, 0x0a] @
     ascii ''erase-me'' @ 0x1b # ascii ''[2K'' @ [0x0d] @
     0x1b # ascii ''[32mWOLFSSH_UEFI_TERMINAL_SELFTEST_OK'' @ 0x1b # ascii ''[0m'' @ [0x0d, 0x0a] @
     0x1b # ascii ''[?1049halternate-screen'' @ 0x1b # ascii ''[?1049l''"

text \<open>
  The result: the status, the terminal's console calls in order, and the blocks freed. The line
  that \<open>Print\<close> writes after a success is the caller's and is not part of the calls.
\<close>

definition WolfSshTerminalSelfTest ::
  "print_lib \<Rightarrow> FIRMWARE \<Rightarrow> (EFI_STATUS \<times> CONSOLE_CALL list \<times> POOL_BLOCK option list) option" where
  "WolfSshTerminalSelfTest AsciiSPrint f = do {
     created \<leftarrow> WolfSshTerminalCreate f;
     case created of
       NotCreated calls freed \<Rightarrow> Some (EFI_OUT_OF_RESOURCES, calls, freed)
     | CreatedTerminal t \<Rightarrow> do {
         t \<leftarrow> WolfSshTerminalFeed AsciiSPrint t TestSequence;
         t \<leftarrow> WolfSshTerminalFlush t;
         let (calls, freed) = WolfSshTerminalDestroy True (DefaultForeground t) (DefaultBackground t)
                (\<lambda>_. True);
         Some (EFI_SUCCESS, ConOut t @ calls, freed) } }"

lemma Create_wf:
  assumes "pool_spec f"
  shows "ok (WolfSshTerminalCreate f) (\<lambda>created. case created of
      CreatedTerminal t \<Rightarrow> wf_term t \<and> ConOutPresent f \<and> pool_grants f
    | NotCreated _ _ \<Rightarrow> \<not> (ConOutPresent f \<and> pool_grants f))"
proof (cases "ConOutPresent f \<and> pool_grants f")
  case False
  then show ?thesis using Create_ok [OF assms] by auto
next
  case True
  then obtain columns rows rb where size: "console_size f = (columns, rows)"
    and len: "length rb = columns + 1"
    and c: "WolfSshTerminalCreate f = Some (CreatedTerminal (created_terminal columns rows
          (UINTN_of_INT32 (ModeAttribute f) mod 16) (UINTN_of_INT32 (ModeAttribute f) div 16 mod 8) rb))"
    using Create_ok [OF assms] by auto
  have "wf_term (created_terminal columns rows
      (UINTN_of_INT32 (ModeAttribute f) mod 16) (UINTN_of_INT32 (ModeAttribute f) div 16 mod 8) rb)"
  proof (rule created_terminal_wf [OF console_size_bounds [OF size] _ _ len])
    show "UINTN_of_INT32 (ModeAttribute f) div 16 mod 8 < 16" by (rule less_trans [of _ 8]) simp_all
  qed simp
  then show ?thesis using True c by simp
qed

lemma Destroy_all:
  "distinct (snd (WolfSshTerminalDestroy conOut fg bg (\<lambda>_. True)))"
  "set (snd (WolfSshTerminalDestroy conOut fg bg (\<lambda>_. True))) = Some ` UNIV"
proof -
  have "set [Some RenderBlock, Some DirtyEndBlock, Some DirtyStartBlock, Some AlternateBlock,
      Some PrimaryBlock, Some TerminalBlock] = Some ` UNIV"
    by (auto simp: image_iff) (metis POOL_BLOCK.exhaust)
  then show "set (snd (WolfSshTerminalDestroy conOut fg bg (\<lambda>_. True))) = Some ` UNIV"
    by (simp add: WolfSshTerminalDestroy_def)
qed (simp add: WolfSshTerminalDestroy_def)

lemma SelfTest_ok:
  assumes "pool_spec f"
  shows "ok (WolfSshTerminalSelfTest sprint f) (\<lambda>(status, calls, freed).
    if ConOutPresent f \<and> pool_grants f
    then status = EFI_SUCCESS \<and> set freed = Some ` UNIV \<and> distinct freed
    else status = EFI_OUT_OF_RESOURCES)"
proof -
  obtain created where c: "WolfSshTerminalCreate f = Some created"
    "case created of CreatedTerminal t \<Rightarrow> wf_term t \<and> ConOutPresent f \<and> pool_grants f
      | NotCreated _ _ \<Rightarrow> \<not> (ConOutPresent f \<and> pool_grants f)"
    using Create_wf [OF assms] by (elim okE) blast
  show ?thesis
  proof (cases created)
    case (NotCreated calls freed)
    then show ?thesis using c by (simp add: WolfSshTerminalSelfTest_def)
  next
    case (CreatedTerminal t)
    then obtain t1 where f1: "WolfSshTerminalFeed sprint t TestSequence = Some t1" and k: "kept t t1"
      using c(2) Feed_kept [of t sprint TestSequence] by (auto elim: okE)
    obtain t2 where f2: "WolfSshTerminalFlush t1 = Some t2"
      using Flush_ok [OF keptD(1) [OF k]] by (blast elim: okE)
    show ?thesis using CreatedTerminal c f1 f2 Destroy_all
      by (simp add: WolfSshTerminalSelfTest_def case_prod_unfold Let_def)
  qed
qed

end
