(* ===== verification/Term_Keys.thy ===== *)
theory Term_Keys
  imports Term_Life
begin

text \<open>
  The keyboard side of Terminal.c: \<open>CopyKeySequence\<close> and \<open>WolfSshTerminalReadKey\<close>, which turn a
  key stroke into the bytes sent to the remote side, with a reference encoder for UTF-8.
\<close>

section \<open>Definitions\<close>

text \<open>The result is the status, the new value of \<open>*Length\<close> and the buffer.\<close>

definition CopyKeySequence ::
  "UINT8 list \<Rightarrow> UINTN \<Rightarrow> UINT8 list \<Rightarrow> (EFI_STATUS \<times> UINTN \<times> UINT8 list) option" where
  "CopyKeySequence buf len sequence =
     (let required = length sequence
      in if len < required then Some (EFI_BUFFER_TOO_SMALL, required, buf)
         else do {
           buf \<leftarrow> CopyMem buf 0 sequence 0 required;
           Some (EFI_SUCCESS, required, buf) })"

text \<open>
  The switch over the scan codes, which are those of the UEFI specification (\<open>SCAN_UP\<close> is 1, ...,
  \<open>SCAN_F10\<close> is 20). The cursor keys depend on the application-cursor mode.
\<close>

definition MappedKey :: "bool \<Rightarrow> nat \<Rightarrow> UINT8 list option" where
  "MappedKey app scanCode =
     (let cursor = (\<lambda>ch. Some (0x1b # (if app then ascii ''O'' else ascii ''['') @ ascii [ch]))
      in if scanCode = 0x01 then cursor (CHR ''A'')
         else if scanCode = 0x02 then cursor (CHR ''B'')
         else if scanCode = 0x03 then cursor (CHR ''C'')
         else if scanCode = 0x04 then cursor (CHR ''D'')
         else if scanCode = 0x05 then cursor (CHR ''H'')
         else if scanCode = 0x06 then cursor (CHR ''F'')
         else if scanCode = 0x07 then Some (0x1b # ascii ''[2~'')
         else if scanCode = 0x08 then Some (0x1b # ascii ''[3~'')
         else if scanCode = 0x09 then Some (0x1b # ascii ''[5~'')
         else if scanCode = 0x0a then Some (0x1b # ascii ''[6~'')
         else if scanCode = 0x0b then Some (0x1b # ascii ''OP'')
         else if scanCode = 0x0c then Some (0x1b # ascii ''OQ'')
         else if scanCode = 0x0d then Some (0x1b # ascii ''OR'')
         else if scanCode = 0x0e then Some (0x1b # ascii ''OS'')
         else if scanCode = 0x0f then Some (0x1b # ascii ''[15~'')
         else if scanCode = 0x10 then Some (0x1b # ascii ''[17~'')
         else if scanCode = 0x11 then Some (0x1b # ascii ''[18~'')
         else if scanCode = 0x12 then Some (0x1b # ascii ''[19~'')
         else if scanCode = 0x13 then Some (0x1b # ascii ''[20~'')
         else if scanCode = 0x14 then Some (0x1b # ascii ''[21~'')
         else None)"

text \<open>
  \<open>ReadKeyStroke\<close> is firmware: its status and the key it delivers (\<open>ScanCode\<close>, \<open>UnicodeChar\<close>) are
  arguments. The result is the status, \<open>*Length\<close>, \<open>*LocalExit\<close> and the buffer.
\<close>

definition WolfSshTerminalReadKey ::
  "term_state \<Rightarrow> UINT8 list \<Rightarrow> UINTN \<Rightarrow> EFI_STATUS \<Rightarrow> nat \<Rightarrow> CHAR16 \<Rightarrow>
   (EFI_STATUS \<times> UINTN \<times> bool \<times> UINT8 list) option" where
  "WolfSshTerminalReadKey t buf capacity status scanCode unicodeChar =
     (if EFI_ERROR status then Some (status, 0, False, buf)
      else if unicodeChar = 0x1d then Some (EFI_SUCCESS, 0, True, buf)
      else case MappedKey (ApplicationCursor t) scanCode of
        Some mapped \<Rightarrow>
          map_option (\<lambda>(status, len, buf). (status, len, False, buf))
            (CopyKeySequence buf capacity mapped)
      | None \<Rightarrow>
          (if unicodeChar = 0 then Some (EFI_NOT_READY, 0, False, buf)
           else if capacity < 1 then Some (EFI_BUFFER_TOO_SMALL, 1, False, buf)
           else if unicodeChar = 0x08 then do {
             buf \<leftarrow> aset buf 0 0x7f;
             Some (EFI_SUCCESS, 1, False, buf) }
           else if unicodeChar < 0x80 then do {
             buf \<leftarrow> aset buf 0 (ucast unicodeChar);
             Some (EFI_SUCCESS, 1, False, buf) }
           else if unicodeChar < 0x800 then
             (if capacity < 2 then Some (EFI_BUFFER_TOO_SMALL, 2, False, buf)
              else do {
                buf \<leftarrow> aset buf 0 (ucast (0xc0 OR drop_bit 6 unicodeChar));
                buf \<leftarrow> aset buf 1 (ucast (0x80 OR (unicodeChar AND 0x3f)));
                Some (EFI_SUCCESS, 2, False, buf) })
           else
             (if capacity < 3 then Some (EFI_BUFFER_TOO_SMALL, 3, False, buf)
              else do {
                let sequence = [ucast (0xe0 OR drop_bit 12 unicodeChar),
                                ucast (0x80 OR (drop_bit 6 unicodeChar AND 0x3f)),
                                ucast (0x80 OR (unicodeChar AND 0x3f))];
                buf \<leftarrow> CopyMem buf 0 sequence 0 3;
                Some (EFI_SUCCESS, 3, False, buf) })))"

section \<open>The bytes of a character\<close>

definition utf8 :: "nat \<Rightarrow> UINT8 list" where
  "utf8 n =
     (if n < 0x80 then [of_nat n]
      else if n < 0x800 then [of_nat (192 + n div 64), of_nat (128 + n mod 64)]
      else [of_nat (224 + n div 4096), of_nat (128 + n div 64 mod 64), of_nat (128 + n mod 64)])"

lemma or_add_nat: "b < 2 ^ k \<Longrightarrow> (push_bit k a) OR b = push_bit k a + (b :: nat)"
proof -
  assume "b < 2 ^ k"
  then have "b = take_bit k b" by (simp add: take_bit_nat_eq_self)
  then have "bit b i \<Longrightarrow> i < k" for i by (metis bit_take_bit_iff)
  then have "push_bit k a AND b = 0" by (auto simp: bit_eq_iff bit_simps not_less [symmetric])
  then show ?thesis by (simp add: disjunctive_add_eq_or)
qed

lemma or_lead_nat:
  "b < 32 \<Longrightarrow> 192 OR b = 192 + (b :: nat)" "b < 16 \<Longrightarrow> 224 OR b = 224 + (b :: nat)"
  "b < 64 \<Longrightarrow> 128 OR b = 128 + (b :: nat)"
  using or_add_nat [of b 5 6] or_add_nat [of b 4 14] or_add_nat [of b 6 2]
  by (simp_all add: push_bit_eq_mult)

lemma and_63_nat: "(n :: nat) AND 63 = n mod 64"
  using take_bit_eq_mask [of 6 n] by (simp add: mask_eq_exp_minus_1 take_bit_eq_mod)

lemma byte_eq_of_nat: "unat (w :: CHAR16) = n \<Longrightarrow> (ucast w :: UINT8) = of_nat n"
  by (rule unsigned_word_eqI [where ?'a = nat])
    (simp add: unsigned_ucast_eq unsigned_of_nat take_bit_eq_mod)

lemma utf8_bytes:
  fixes ch :: CHAR16
  shows "unat ch < 0x80 \<Longrightarrow> [ucast ch] = utf8 (unat ch)"
    and "0x80 \<le> unat ch \<Longrightarrow> unat ch < 0x800 \<Longrightarrow>
      [ucast (0xc0 OR drop_bit 6 ch), ucast (0x80 OR (ch AND 0x3f))] = utf8 (unat ch)"
    and "0x800 \<le> unat ch \<Longrightarrow>
      [ucast (0xe0 OR drop_bit 12 ch), ucast (0x80 OR (drop_bit 6 ch AND 0x3f)),
       ucast (0x80 OR (ch AND 0x3f))] = utf8 (unat ch)"
proof -
  have lt: "unat ch < 65536" using unsigned_less [of ch] by simp
  have u: "unat (a OR b) = unat a OR unat b" "unat (a AND b) = unat a AND unat b"
    for a b :: CHAR16
    by (simp_all only: unsigned_or_eq unsigned_and_eq)
  have v: "unat (drop_bit k a) = unat a div 2 ^ k" for a :: CHAR16 and k
    using unsigned_less [of a, where ?'a = nat]
    unfolding unsigned_drop_bit_eq by (simp add: drop_bit_eq_div take_bit_nat_eq_self)
  have n: "unat (0xc0 :: CHAR16) = 192" "unat (0xe0 :: CHAR16) = 224" "unat (0x80 :: CHAR16) = 128"
    "unat (0x3f :: CHAR16) = 63" by simp_all
  have low: "(ucast (0x80 OR (a AND 0x3f)) :: UINT8) = of_nat (128 + unat a mod 64)" for a :: CHAR16
  proof (rule byte_eq_of_nat)
    have "unat a mod 64 < 64" by simp
    then show "unat (0x80 OR (a AND 0x3f)) = 128 + unat a mod 64"
      unfolding u n and_63_nat by (rule or_lead_nat(3))
  qed
  have lead2: "(ucast (0xc0 OR drop_bit 6 ch) :: UINT8) = of_nat (192 + unat ch div 64)"
    if "unat ch < 0x800"
  proof (rule byte_eq_of_nat)
    have "unat ch div 2 ^ 6 < 32" using that by simp
    then have "192 OR unat ch div 2 ^ 6 = 192 + unat ch div 2 ^ 6" by (rule or_lead_nat(1))
    then show "unat (0xc0 OR drop_bit 6 ch) = 192 + unat ch div 64" unfolding u n v by simp
  qed
  have lead3: "(ucast (0xe0 OR drop_bit 12 ch) :: UINT8) = of_nat (224 + unat ch div 4096)"
  proof (rule byte_eq_of_nat)
    have "unat ch div 2 ^ 12 < 16" using lt by simp
    then have "224 OR unat ch div 2 ^ 12 = 224 + unat ch div 2 ^ 12" by (rule or_lead_nat(2))
    then show "unat (0xe0 OR drop_bit 12 ch) = 224 + unat ch div 4096" unfolding u n v by simp
  qed
  have mid: "unat (drop_bit 6 ch) = unat ch div 64" using v [of 6 ch] by simp
  show "unat ch < 0x80 \<Longrightarrow> [ucast ch] = utf8 (unat ch)"
    unfolding utf8_def byte_eq_of_nat [OF refl] by simp
  show "[ucast (0xc0 OR drop_bit 6 ch), ucast (0x80 OR (ch AND 0x3f))] = utf8 (unat ch)"
    if "0x80 \<le> unat ch" "unat ch < 0x800"
    unfolding utf8_def low lead2 [OF that(2)] using that by simp
  show "[ucast (0xe0 OR drop_bit 12 ch), ucast (0x80 OR (drop_bit 6 ch AND 0x3f)),
       ucast (0x80 OR (ch AND 0x3f))] = utf8 (unat ch)"
    if "0x800 \<le> unat ch"
    unfolding utf8_def low lead3 mid using that by simp
qed

section \<open>Reading a key\<close>

lemma CopyKeySequence_ok:
  assumes "len \<le> length buf"
  shows "CopyKeySequence buf len seq = Some (if len < length seq
    then (EFI_BUFFER_TOO_SMALL, length seq, buf)
    else (EFI_SUCCESS, length seq, seq @ drop (length seq) buf))"
  using assms by (simp add: CopyKeySequence_def CopyMem_def Let_def)

text \<open>
  The bytes a key stroke stands for: the escape sequence of a mapped key, else DEL for backspace,
  else the character in UTF-8. \<open>read_result\<close> is the outcome for a buffer of \<open>capacity\<close> bytes: a
  sequence is delivered completely or not at all. (With an empty buffer the code reports one byte as
  the length needed, whatever the character.)
\<close>

definition key_bytes :: "bool \<Rightarrow> nat \<Rightarrow> CHAR16 \<Rightarrow> UINT8 list" where
  "key_bytes app scanCode ch = (case MappedKey app scanCode of
     Some mapped \<Rightarrow> mapped
   | None \<Rightarrow> if ch = 0x08 then [0x7f] else utf8 (unat ch))"

definition read_result :: "UINT8 list \<Rightarrow> UINTN \<Rightarrow> UINT8 list \<Rightarrow> EFI_STATUS \<times> UINTN \<times> bool \<times> UINT8 list" where
  "read_result buf capacity bytes =
     (if capacity < length bytes then (EFI_BUFFER_TOO_SMALL, length bytes, False, buf)
      else (EFI_SUCCESS, length bytes, False, bytes @ drop (length bytes) buf))"

lemma update_2: "2 \<le> length xs \<Longrightarrow> xs[0 := a, Suc 0 := b] = [a, b] @ drop 2 xs"
  by (cases xs; cases "tl xs") auto

lemma unat_less_iff: "(ch :: CHAR16) < 0x80 \<longleftrightarrow> unat ch < 0x80" "ch < 0x800 \<longleftrightarrow> unat ch < 0x800"
  by (simp_all add: word_less_nat_alt)

lemma ReadKey_ok:
  assumes "\<not> EFI_ERROR status" and "ch \<noteq> 0x1d"
    and "MappedKey (ApplicationCursor t) scan \<noteq> None \<or> ch \<noteq> 0" and "capacity \<le> length buf"
    and "0 < capacity"
  shows "WolfSshTerminalReadKey t buf capacity status scan ch =
    Some (read_result buf capacity (key_bytes (ApplicationCursor t) scan ch))"
proof (cases "MappedKey (ApplicationCursor t) scan")
  case (Some mapped)
  then show ?thesis using assms
    by (simp add: WolfSshTerminalReadKey_def CopyKeySequence_ok read_result_def key_bytes_def)
next
  case None
  then have "ch \<noteq> 0" using assms(3) by simp
  consider "ch = 8" | "ch \<noteq> 8" "unat ch < 0x80" | "ch \<noteq> 8" "0x80 \<le> unat ch" "unat ch < 0x800"
    | "ch \<noteq> 8" "0x800 \<le> unat ch" by linarith
  then show ?thesis
  proof cases
    case 1
    then show ?thesis using None assms
      by (cases buf) (simp_all add: WolfSshTerminalReadKey_def read_result_def key_bytes_def)
  next
    case 2
    have l: "length (utf8 (unat ch)) = 1" using 2 by (simp add: utf8_def)
    show ?thesis using None assms 2 utf8_bytes(1) [OF 2(2), symmetric] \<open>ch \<noteq> 0\<close> l
      by (cases buf) (simp_all add: WolfSshTerminalReadKey_def read_result_def key_bytes_def unat_less_iff)
  next
    case 3
    have l: "length (utf8 (unat ch)) = 2" using 3 by (simp add: utf8_def)
    have "\<not> unat ch < 0x80" and "2 \<le> capacity \<Longrightarrow> 0 < length buf"
      and "2 \<le> capacity \<Longrightarrow> Suc 0 < length buf" using 3 assms(4) by linarith+
    then show ?thesis
      using None assms update_2 [of buf "ucast (0xc0 OR drop_bit 6 ch)" "ucast (0x80 OR (ch AND 0x3f))"] 3
        utf8_bytes(2) [OF 3(2,3)] \<open>ch \<noteq> 0\<close> l
      by (simp add: WolfSshTerminalReadKey_def read_result_def key_bytes_def unat_less_iff)
  next
    case 4
    have l: "length (utf8 (unat ch)) = 3" using 4 by (simp add: utf8_def)
    have "\<not> unat ch < 0x80" "\<not> unat ch < 0x800" using 4 by simp_all
    then show ?thesis
      using None assms 4 utf8_bytes(3) [OF 4(2)] \<open>ch \<noteq> 0\<close> l
      by (simp add: WolfSshTerminalReadKey_def read_result_def key_bytes_def unat_less_iff CopyMem_def)
  qed
qed

section \<open>The keys of the terminal\<close>

text \<open>
  The table of special keys as xterm documents them, in the order of UEFI's scan codes: the
  sequence behind the escape character in the normal and in the application mode of the cursor keys.
  Escape (scan code 0x17) is not among them.
\<close>

definition key_table :: "(nat \<times> string \<times> string) list" where
  "key_table =
     zip [1..<7] (map (\<lambda>ch. ([CHR ''['', ch], [CHR ''O'', ch])) ''ABCDHF'') @
     zip [7..<11] (map (\<lambda>ch. ([CHR ''['', ch, CHR ''~''], [CHR ''['', ch, CHR ''~''])) ''2356'') @
     zip [11..<15] (map (\<lambda>ch. ([CHR ''O'', ch], [CHR ''O'', ch])) ''PQRS'') @
     zip [15..<21] (map (\<lambda>n. ([CHR ''['', fst n, snd n, CHR ''~''], [CHR ''['', fst n, snd n, CHR ''~'']))
       (zip ''111122'' ''578901''))"

definition typed_bytes :: "bool \<Rightarrow> nat \<Rightarrow> CHAR16 \<Rightarrow> UINT8 list" where
  "typed_bytes app scan ch = (case map_of key_table scan of
     Some (normal, application) \<Rightarrow> 0x1b # ascii (if app then application else normal)
   | None \<Rightarrow> if ch = 0 then [] else if ch = 0x08 then [0x7f] else utf8 (unat ch))"

lemma MappedKey_table:
  "MappedKey app scan =
    map_option (\<lambda>(normal, application). 0x1b # ascii (if app then application else normal)) (map_of key_table scan)"
  by (simp add: MappedKey_def key_table_def ascii_def upt_rec)

lemma typed_bytes_eq:
  "MappedKey app scan \<noteq> None \<or> ch \<noteq> 0 \<Longrightarrow> typed_bytes app scan ch = key_bytes app scan ch"
  by (auto simp: typed_bytes_def key_bytes_def MappedKey_table split: option.splits)

lemma typed_bytes_Nil: "typed_bytes app scan ch = [] \<longleftrightarrow> MappedKey app scan = None \<and> ch = 0"
  by (auto simp: typed_bytes_def MappedKey_table utf8_def split: option.splits)

lemma ReadKey_typed:
  assumes "capacity \<le> length buf"
  shows "WolfSshTerminalReadKey t buf capacity status scan ch = Some (
    let bytes = typed_bytes (ApplicationCursor t) scan ch
    in if EFI_ERROR status then (status, 0, False, buf)
       else if ch = 0x1d then (EFI_SUCCESS, 0, True, buf)
       else if bytes = [] then (EFI_NOT_READY, 0, False, buf)
       else if capacity < length bytes then
         (EFI_BUFFER_TOO_SMALL, if capacity = 0 \<and> map_of key_table scan = None then 1 else length bytes, False, buf)
       else (EFI_SUCCESS, length bytes, False, bytes @ drop (length bytes) buf))"
proof (cases "EFI_ERROR status \<or> ch = 0x1d \<or> typed_bytes (ApplicationCursor t) scan ch = [] \<or> capacity = 0")
  case True
  have e: "MappedKey (ApplicationCursor t) scan = None \<longleftrightarrow> map_of key_table scan = None"
    by (simp add: MappedKey_table)
  show ?thesis
  proof (cases "map_of key_table scan")
    case None
    then show ?thesis using True e typed_bytes_Nil [of "ApplicationCursor t" scan ch]
      by (auto simp: WolfSshTerminalReadKey_def)
  next
    case (Some x)
    then show ?thesis using True typed_bytes_Nil [of "ApplicationCursor t" scan ch] assms
      by (cases x) (auto simp: WolfSshTerminalReadKey_def MappedKey_table CopyKeySequence_ok typed_bytes_def)
  qed
next
  case False
  then have m: "MappedKey (ApplicationCursor t) scan \<noteq> None \<or> ch \<noteq> 0" by (simp add: typed_bytes_Nil)
  then show ?thesis
    using False ReadKey_ok [of status ch t scan capacity buf] assms typed_bytes_eq [OF m]
    by (auto simp: read_result_def Let_def)
qed

end
