(* ===== verification/Compat.thy ===== *)
theory Compat
  imports Prelude
begin

text \<open>
  UefiCompat.c: what wolfSSL and wolfSSH expect of a C runtime. The allocator keeps a header with a
  signature and the size in front of every block; it is modelled on a pool that maps the address
  of every allocated block to its header and payload. The string functions work on arrays of
  bytes, and leave them only as \<open>None\<close>.
\<close>

section \<open>The allocator\<close>

record WOLF_ALLOC_HEADER =
  Signature :: "64 word"
  Size :: UINTN

definition WOLF_ALLOC_SIGNATURE :: "64 word" where  \<comment> \<open>SIGNATURE_64 of WSSHALLC\<close>
  "WOLF_ALLOC_SIGNATURE = 0x434C4C4148535357"

abbreviation (input) MAX_UINTN :: nat where "MAX_UINTN \<equiv> 18446744073709551615"
abbreviation (input) header_size :: nat where "header_size \<equiv> 16"  \<comment> \<open>sizeof (WOLF_ALLOC_HEADER)\<close>

text \<open>
  The pool: the allocated blocks by address that are large enough to be read with a header. The first
  16 bytes of such a block are its header; the rest is its payload. The null pointer is 0.

  \<open>AllocatePool\<close> is EDK2's: a parameter that gives, for the pool and a size, the address and the
  unspecified bytes of a new block, or nothing. The block may be of any size. Writing the header to one
  that is smaller leaves it: \<open>None\<close>.
\<close>

type_synonym pool = "UINTN \<rightharpoonup> WOLF_ALLOC_HEADER \<times> UINT8 list"
type_synonym allocate_pool = "pool \<Rightarrow> UINTN \<Rightarrow> (UINTN \<times> UINT8 list) option"

definition UefiCompatAllocate :: "allocate_pool \<Rightarrow> UINTN \<Rightarrow> pool \<Rightarrow> (UINTN \<times> pool) option" where
  "UefiCompatAllocate AllocatePool size' p =
     (if size' > MAX_UINTN - header_size then Some (0, p)
      else case AllocatePool p (uadd header_size size') of
        None \<Rightarrow> Some (0, p)
      | Some (header, bytes) \<Rightarrow>
          if length bytes < header_size then None
          else Some (uadd header header_size,
            p(header \<mapsto> (\<lparr>Signature = WOLF_ALLOC_SIGNATURE, Size = size'\<rparr>, drop header_size bytes))))"

text \<open>
  Reading the header of a pointer that does not point behind a header of an allocated block is an
  access to memory the program does not own: \<open>None\<close>. \<open>FreePool\<close> takes the block out of the pool.
\<close>

definition UefiCompatFree :: "UINTN \<Rightarrow> pool \<Rightarrow> pool option" where
  "UefiCompatFree buf p =
     (if buf = 0 then Some p
      else do {
        let header = usub buf header_size;
        (h, contents) \<leftarrow> p header;
        if Signature h \<noteq> WOLF_ALLOC_SIGNATURE then Some p
        else do {
          let p = p(header \<mapsto> (h\<lparr>Signature := 0\<rparr>, contents));
          Some (p(header := None)) } })"

definition UefiCompatReallocate :: "allocate_pool \<Rightarrow> UINTN \<Rightarrow> UINTN \<Rightarrow> pool \<Rightarrow> (UINTN \<times> pool) option" where
  "UefiCompatReallocate AllocatePool buf newSize p =
     (if buf = 0 then UefiCompatAllocate AllocatePool newSize p
      else if newSize = 0 then do { p \<leftarrow> UefiCompatFree buf p; Some (0, p) }
      else do {
        let oldHeader = usub buf header_size;
        (h, contents) \<leftarrow> p oldHeader;
        if Signature h \<noteq> WOLF_ALLOC_SIGNATURE then Some (0, p)
        else do {
          (newBuffer, p) \<leftarrow> UefiCompatAllocate AllocatePool newSize p;
          if newBuffer = 0 then Some (0, p)
          else do {
            let copySize = min (Size h) newSize;
            (h', new) \<leftarrow> p (usub newBuffer header_size);
            (_, old) \<leftarrow> p oldHeader;
            new \<leftarrow> CopyMem new 0 old 0 copySize;
            let p = p(usub newBuffer header_size \<mapsto> (h', new));
            p \<leftarrow> UefiCompatFree buf p;
            Some (newBuffer, p) } } })"

text \<open>
  What \<open>AllocatePool\<close> documents: a block of the size asked for, whatever it is, at an address that is
  not null and below the end of memory, apart from all other blocks.
\<close>

definition apart :: "pool \<Rightarrow> UINTN \<Rightarrow> UINTN \<Rightarrow> bool" where
  "apart p a n \<longleftrightarrow> (\<forall>b h d. p b = Some (h, d) \<longrightarrow> a + n \<le> b \<or> b + header_size + length d \<le> a)"

definition pool_contract :: "allocate_pool \<Rightarrow> bool" where
  "pool_contract alloc \<longleftrightarrow> (\<forall>p n a bytes. alloc p n = Some (a, bytes) \<longrightarrow>
     0 < a \<and> a + n < 2 ^ 64 \<and> length bytes = n \<and> p a = None \<and> apart p a n)"

text \<open>The blocks this allocator has made: they carry the signature and their true size.\<close>

definition wf_pool :: "pool \<Rightarrow> bool" where
  "wf_pool p \<longleftrightarrow> (\<forall>a h d. p a = Some (h, d) \<longrightarrow> 0 < a \<and> a + header_size + length d < 2 ^ 64 \<and>
     (Signature h = WOLF_ALLOC_SIGNATURE \<longrightarrow> Size h = length d))"

lemma wf_pool_update:
  assumes "wf_pool p" and "0 < a" and "a + header_size + length d < 2 ^ 64"
    and "Signature h = WOLF_ALLOC_SIGNATURE \<longrightarrow> Size h = length d"
  shows "wf_pool (p(a \<mapsto> (h, d)))"
  using assms by (auto simp: wf_pool_def)

text \<open>The bytes behind a pointer that this allocator handed out.\<close>

definition buffer_at :: "pool \<Rightarrow> UINTN \<Rightarrow> UINT8 list option" where
  "buffer_at p buf = (if buf = 0 then None else case p (usub buf header_size) of
     Some (h, d) \<Rightarrow> if Signature h = WOLF_ALLOC_SIGNATURE then Some d else None
   | None \<Rightarrow> None)"

lemma buffer_atE:
  assumes "buffer_at p buf = Some d"
  obtains h where "buf \<noteq> 0" "p (usub buf header_size) = Some (h, d)" "Signature h = WOLF_ALLOC_SIGNATURE"
  using assms by (auto simp: buffer_at_def split: if_splits option.splits prod.splits)

lemma header_of:
  assumes "0 < a" and "a + 16 < 2 ^ 64"
  shows "uadd a 16 = a + 16" and "usub (a + 16) 16 = a" and "uadd a 16 \<noteq> 0"
  using assms by simp_all

text \<open>The pointer is null exactly when the size overflows with the header or the pool grants nothing.\<close>

definition allocated :: "allocate_pool \<Rightarrow> UINTN \<Rightarrow> pool \<Rightarrow> UINTN \<Rightarrow> pool \<Rightarrow> bool" where
  "allocated alloc n p buf p' \<longleftrightarrow> wf_pool p' \<and>
     (if 2 ^ 64 \<le> n + 16 \<or> alloc p (n + 16) = None then buf = 0 \<and> p' = p
      else buf \<noteq> 0 \<and> buf = usub buf 16 + 16 \<and> p (usub buf 16) = None \<and> apart p (usub buf 16) (16 + n) \<and>
        (\<exists>d. length d = n \<and> buffer_at p' buf = Some d \<and>
           p' = p(usub buf 16 \<mapsto> (\<lparr>Signature = WOLF_ALLOC_SIGNATURE, Size = n\<rparr>, d))))"

lemma Allocate_ok:
  assumes c: "pool_contract alloc" and wf: "wf_pool p" and n: "n < 2 ^ 64"
  shows "ok (UefiCompatAllocate alloc n p) (\<lambda>(buf, p'). allocated alloc n p buf p')"
proof (cases "2 ^ 64 \<le> n + 16 \<or> alloc p (n + 16) = None")
  case True
  have "UefiCompatAllocate alloc n p = Some (0, p)"
  proof (cases "n > MAX_UINTN - header_size")
    case False
    then have "uadd 16 n = n + 16" "alloc p (n + 16) = None" using True by simp_all
    then show ?thesis by (simp add: UefiCompatAllocate_def)
  qed (simp add: UefiCompatAllocate_def)
  then show ?thesis using True wf by (simp add: allocated_def)
next
  case False
  then obtain a bytes where a: "alloc p (n + 16) = Some (a, bytes)" by auto
  have b: "0 < a" "a + (n + 16) < 2 ^ 64" "length bytes = n + 16" "p a = None" "apart p a (n + 16)"
    using c a unfolding pool_contract_def by blast+
  let ?d = "drop 16 bytes"
  let ?p = "p(a \<mapsto> (\<lparr>Signature = WOLF_ALLOC_SIGNATURE, Size = n\<rparr>, ?d))"
  have small: "\<not> n > MAX_UINTN - header_size" and add: "uadd 16 n = n + 16" using False by simp_all
  have "a + 16 < 2 ^ 64" using b(2) by linarith
  note h = header_of [OF b(1) this]
  have eq: "UefiCompatAllocate alloc n p = Some (a + 16, ?p)"
    using small b(3) by (simp add: UefiCompatAllocate_def add a h(1))
  have "wf_pool ?p" using wf b by (auto simp: wf_pool_def)
  moreover have "buffer_at ?p (a + 16) = Some ?d" by (simp add: buffer_at_def h)
  ultimately show ?thesis
    using False b h unfolding eq by (auto simp: allocated_def add.commute)
qed

lemma Free_ok:
  assumes wf: "wf_pool p" and b: "buffer_at p buf = Some d"
  shows "UefiCompatFree buf p = Some (p(usub buf 16 := None)) \<and> wf_pool (p(usub buf 16 := None))"
proof -
  obtain h where "buf \<noteq> 0" "p (usub buf 16) = Some (h, d)" "Signature h = WOLF_ALLOC_SIGNATURE"
    using b by (rule buffer_atE)
  then show ?thesis using wf by (auto simp: UefiCompatFree_def wf_pool_def)
qed

lemma Reallocate_ok:
  assumes c: "pool_contract alloc" and wf: "wf_pool p" and b: "buffer_at p buf = Some d"
    and n: "0 < n" "n < 2 ^ 64"
  shows "ok (UefiCompatReallocate alloc buf n p) (\<lambda>(buf', p'). wf_pool p' \<and>
    (buf' = 0 \<and> p' = p \<or>
     (\<exists>d'. buffer_at p' buf' = Some d' \<and> length d' = n \<and> usub buf' 16 \<noteq> usub buf 16 \<and>
        take (min (length d) n) d' = take (min (length d) n) d \<and>
        (\<forall>a. a \<noteq> usub buf 16 \<and> a \<noteq> usub buf' 16 \<longrightarrow> p' a = p a) \<and>
        p (usub buf' 16) = None \<and> p' (usub buf 16) = None)))"
proof -
  let ?a = "usub buf 16"
  obtain h where h: "buf \<noteq> 0" "p ?a = Some (h, d)" "Signature h = WOLF_ALLOC_SIGNATURE"
    using b by (rule buffer_atE)
  have size: "Size h = length d" using wf h by (auto simp: wf_pool_def)
  obtain buf' p1 where al: "UefiCompatAllocate alloc n p = Some (buf', p1)" and A: "allocated alloc n p buf' p1"
    using Allocate_ok [OF c wf n(2)] by (auto elim: okE)
  show ?thesis
  proof (cases "buf' = 0")
    case True
    then have "p1 = p" using A by (auto simp: allocated_def split: if_splits)
    then show ?thesis using h n al True wf by (simp add: UefiCompatReallocate_def)
  next
    case False
    let ?b = "usub buf' 16"
    obtain e where e: "length e = n" "p1 = p(?b \<mapsto> (\<lparr>Signature = WOLF_ALLOC_SIGNATURE, Size = n\<rparr>, e))"
      "p ?b = None" "wf_pool p1"
      using A False by (auto simp: allocated_def split: if_splits)
    have ne: "?a \<noteq> ?b" using h(2) e(3) by auto
    let ?m = "min (length d) n"
    let ?e = "take ?m d @ drop ?m e"
    have cp: "CopyMem e 0 d 0 ?m = Some ?e" using e(1) by (simp add: CopyMem_def)
    let ?p2 = "p1(?b \<mapsto> (\<lparr>Signature = WOLF_ALLOC_SIGNATURE, Size = n\<rparr>, ?e))"
    have "p1 ?b = Some (\<lparr>Signature = WOLF_ALLOC_SIGNATURE, Size = n\<rparr>, e)" by (simp add: e(2))
    then have "0 < ?b \<and> ?b + 16 + length e < 2 ^ 64" using e(4) unfolding wf_pool_def by blast
    then have wf2: "wf_pool ?p2" using wf_pool_update [OF e(4)] e(1) by simp
    have "buffer_at ?p2 buf = Some d" using h ne e(2) by (simp add: buffer_at_def)
    note F = Free_ok [OF wf2 this]
    have "UefiCompatReallocate alloc buf n p = Some (buf', ?p2(?a := None))"
      using h n al False e(2) ne cp F size by (simp add: UefiCompatReallocate_def)
    moreover have "buffer_at (?p2(?a := None)) buf' = Some ?e"
      using False ne by (simp add: buffer_at_def)
    ultimately show ?thesis using F e ne by auto
  qed
qed

section \<open>The wrappers\<close>

definition UefiWolfAllocate :: "allocate_pool \<Rightarrow> UINTN \<Rightarrow> pool \<Rightarrow> (UINTN \<times> pool) option" where
  "UefiWolfAllocate AllocatePool size' p = UefiCompatAllocate AllocatePool size' p"

definition UefiWolfFree :: "UINTN \<Rightarrow> pool \<Rightarrow> pool option" where
  "UefiWolfFree buf p = UefiCompatFree buf p"

definition UefiWolfReallocate :: "allocate_pool \<Rightarrow> UINTN \<Rightarrow> UINTN \<Rightarrow> pool \<Rightarrow> (UINTN \<times> pool) option" where
  "UefiWolfReallocate AllocatePool buf size' p = UefiCompatReallocate AllocatePool buf size' p"

section \<open>Memory functions\<close>

definition memcpy :: "UINT8 list \<Rightarrow> UINT8 list \<Rightarrow> UINTN \<Rightarrow> UINT8 list option" where
  "memcpy dest src len = CopyMem dest 0 src 0 len"

text \<open>\<open>memmove\<close> inside one array: its operands may overlap.\<close>

definition memmove :: "UINT8 list \<Rightarrow> UINTN \<Rightarrow> UINTN \<Rightarrow> UINTN \<Rightarrow> UINT8 list option" where
  "memmove mem dest src len = CopyMem mem dest mem src len"

definition memset :: "UINT8 list \<Rightarrow> int \<Rightarrow> UINTN \<Rightarrow> UINT8 list option" where
  "memset buf v len =
     (if len \<le> length buf then Some (replicate len (word_of_int v) @ drop len buf) else None)"

function MemcmpLoop :: "UINT8 list \<Rightarrow> UINT8 list \<Rightarrow> UINTN \<Rightarrow> UINTN \<Rightarrow> int option" where
  "MemcmpLoop left right len index =
     (if index < len then do {
        l \<leftarrow> aget left index;
        r \<leftarrow> aget right index;
        if l \<noteq> r then Some (uint l - uint r)
        else MemcmpLoop left right len (Suc index) }
      else Some 0)"
  by pat_completeness auto
termination
  by (relation "measure (\<lambda>(left, right, len, index). len - index)") auto

definition memcmp :: "UINT8 list \<Rightarrow> UINT8 list \<Rightarrow> UINTN \<Rightarrow> int option" where
  "memcmp first second len = MemcmpLoop first second len 0"

section \<open>String functions\<close>

text \<open>
  A string is an array that should contain a terminator. A loop reads \<open>*First\<close> at the index
  reached so far; the arrays have finite length, so every loop ends, in the worst case with \<open>None\<close>.
\<close>

function StrlenLoop :: "UINT8 list \<Rightarrow> UINTN \<Rightarrow> UINTN option" where
  "StrlenLoop s i =
     (if i < length s then (if s ! i \<noteq> 0 then StrlenLoop s (Suc i) else Some i) else None)"
  by pat_completeness auto
termination
  by (relation "measure (\<lambda>(s, i). length s - i)") auto

definition strlen :: "UINT8 list \<Rightarrow> UINTN option" where
  "strlen s = StrlenLoop s 0"

function StrcmpLoop :: "UINT8 list \<Rightarrow> UINT8 list \<Rightarrow> UINTN \<Rightarrow> int option" where
  "StrcmpLoop first second i =
     (if i < length first \<and> i < length second then
        (if first ! i \<noteq> 0 \<and> first ! i = second ! i then StrcmpLoop first second (Suc i)
         else Some (uint (first ! i) - uint (second ! i)))
      else None)"
  by pat_completeness auto
termination
  by (relation "measure (\<lambda>(first, second, i). length first - i)") auto

definition strcmp :: "UINT8 list \<Rightarrow> UINT8 list \<Rightarrow> int option" where
  "strcmp first second = StrcmpLoop first second 0"

text \<open>When \<open>Length\<close> reaches 0 the code returns 0 without reading another character.\<close>

fun StrncmpLoop :: "UINT8 list \<Rightarrow> UINT8 list \<Rightarrow> UINTN \<Rightarrow> UINTN \<Rightarrow> int option" where
  "StrncmpLoop first second i 0 = Some 0"
| "StrncmpLoop first second i (Suc len) = do {
     a \<leftarrow> aget first i;
     b \<leftarrow> aget second i;
     if a \<noteq> 0 \<and> a = b then StrncmpLoop first second (Suc i) len
     else Some (uint a - uint b) }"

definition strncmp :: "UINT8 list \<Rightarrow> UINT8 list \<Rightarrow> UINTN \<Rightarrow> int option" where
  "strncmp first second len = StrncmpLoop first second 0 len"

fun StrncpyCopy :: "UINT8 list \<Rightarrow> UINT8 list \<Rightarrow> UINTN \<Rightarrow> UINTN \<Rightarrow> (UINT8 list \<times> UINTN \<times> UINTN) option" where
  "StrncpyCopy dest src i 0 = Some (dest, i, 0)"
| "StrncpyCopy dest src i (Suc len) = do {
     c \<leftarrow> aget src i;
     if c \<noteq> 0 then do { dest \<leftarrow> aset dest i c; StrncpyCopy dest src (Suc i) len }
     else Some (dest, i, Suc len) }"

fun StrncpyPad :: "UINT8 list \<Rightarrow> UINTN \<Rightarrow> UINTN \<Rightarrow> UINT8 list option" where
  "StrncpyPad dest i 0 = Some dest"
| "StrncpyPad dest i (Suc len) = do { dest \<leftarrow> aset dest i 0; StrncpyPad dest (Suc i) len }"

definition strncpy :: "UINT8 list \<Rightarrow> UINT8 list \<Rightarrow> UINTN \<Rightarrow> UINT8 list option" where
  "strncpy dest src len = do {
     (dest, i, rest) \<leftarrow> StrncpyCopy dest src 0 len;
     StrncpyPad dest i rest }"

fun StrncatCopy :: "UINT8 list \<Rightarrow> UINTN \<Rightarrow> UINT8 list \<Rightarrow> UINTN \<Rightarrow> UINTN \<Rightarrow> (UINT8 list \<times> UINTN) option" where
  "StrncatCopy dest d src i 0 = Some (dest, d)"
| "StrncatCopy dest d src i (Suc len) = do {
     c \<leftarrow> aget src i;
     if c \<noteq> 0 then do { dest \<leftarrow> aset dest d c; StrncatCopy dest (Suc d) src (Suc i) len }
     else Some (dest, d) }"

definition strncat :: "UINT8 list \<Rightarrow> UINT8 list \<Rightarrow> UINTN \<Rightarrow> UINT8 list option" where
  "strncat dest src len = do {
     d \<leftarrow> strlen dest;
     (dest, d) \<leftarrow> StrncatCopy dest d src 0 len;
     aset dest d 0 }"

declare MemcmpLoop.simps [simp del] StrlenLoop.simps [simp del] StrcmpLoop.simps [simp del]

section \<open>What the string functions compute\<close>

text \<open>Byte strings in lexicographic order, a prefix before its extensions.\<close>

fun bytes_less :: "UINT8 list \<Rightarrow> UINT8 list \<Rightarrow> bool" where
  "bytes_less xs [] = False"
| "bytes_less [] (y # ys) = True"
| "bytes_less (x # xs) (y # ys) = (x < y \<or> x = y \<and> bytes_less xs ys)"

definition orders :: "int \<Rightarrow> UINT8 list \<Rightarrow> UINT8 list \<Rightarrow> bool" where
  "orders v xs ys \<longleftrightarrow> (v = 0 \<longleftrightarrow> xs = ys) \<and> (v < 0 \<longleftrightarrow> bytes_less xs ys)"

lemma orders_Cons [simp]: "orders v (x # xs) (x # ys) = orders v xs ys"
  by (simp add: orders_def)

lemma orders_Nil [simp]: "orders 0 [] []"
  by (simp add: orders_def)

lemma orders_diff: "x \<noteq> y \<Longrightarrow> orders (uint x - uint y) (x # xs) (y # ys)"
  by (auto simp: orders_def word_less_def word_uint_eq_iff)

text \<open>Two texts that differ in their next character, one of them possibly at its end.\<close>

lemma orders_heads:
  assumes "\<not> (x \<noteq> 0 \<and> x = y)"
  shows "orders (uint x - uint y) (take (Suc n) (if x = 0 then [] else x # xs))
    (take (Suc n) (if y = 0 then [] else y # ys))"
proof -
  have pos: "0 < uint z \<longleftrightarrow> z \<noteq> 0" for z :: UINT8
    by (metis less_le uint_0_iff unsigned_greater_eq)
  consider "x = 0" "y = 0" | "x = 0" "y \<noteq> 0" | "x \<noteq> 0" "y = 0" | "x \<noteq> 0" "y \<noteq> 0" by blast
  then show ?thesis
  proof cases
    case 4
    then show ?thesis using assms orders_diff by simp
  qed (use pos [of x] pos [of y] in \<open>simp_all add: orders_def\<close>)
qed

lemma MemcmpLoop_ok:
  assumes "len \<le> length l" and "len \<le> length r"
  shows "ok (MemcmpLoop l r len i) (\<lambda>v. orders v (drop i (take len l)) (drop i (take len r)))"
  using assms
proof (induction l r len i rule: MemcmpLoop.induct)
  case (1 l r len i)
  show ?case
  proof (cases "i < len")
    case True
    then have d: "drop i (take len l) = l ! i # drop (Suc i) (take len l)"
      "drop i (take len r) = r ! i # drop (Suc i) (take len r)"
      using "1.prems" by (simp_all add: Cons_nth_drop_Suc [symmetric])
    show ?thesis
    proof (cases "l ! i = r ! i")
      case same: True
      then show ?thesis using "1.IH" [OF True, of "l ! i" "r ! i"] True "1.prems"
        by (simp add: MemcmpLoop.simps [of l] d)
    next
      case False
      then show ?thesis using True "1.prems" by (simp add: MemcmpLoop.simps [of l] d orders_diff)
    qed
  next
    case False
    then show ?thesis using "1.prems" by (simp add: MemcmpLoop.simps [of l])
  qed
qed

lemma memcmp_ok:
  "len \<le> length l \<Longrightarrow> len \<le> length r \<Longrightarrow> ok (memcmp l r len) (\<lambda>v. orders v (take len l) (take len r))"
  using MemcmpLoop_ok [of len l r 0] by (simp add: memcmp_def)

lemma StrlenLoop_ok:
  assumes "i \<le> length (cstr s)" and "0 \<in> set s"
  shows "StrlenLoop s i = Some (length (cstr s))"
  using assms
proof (induction s i rule: StrlenLoop.induct)
  case (1 s i)
  note e = cstr_end [OF "1.prems"(2)]
  show ?case
  proof (cases "i = length (cstr s)")
    case True
    then show ?thesis using e by (simp add: StrlenLoop.simps [of s])
  next
    case False
    then have i: "i < length (cstr s)" using "1.prems" by simp
    then have "i < length s" "s ! i \<noteq> 0" using e cstr_nth [OF i] by simp_all
    then show ?thesis using "1.IH" "1.prems" i by (simp add: StrlenLoop.simps [of s i])
  qed
qed

lemma strlen_ok: "0 \<in> set s \<Longrightarrow> strlen s = Some (length (cstr s))"
  by (simp add: strlen_def StrlenLoop_ok)

text \<open>The text of a string from an index on, one character at a time.\<close>

lemma cstr_drop:
  assumes "i < length s"
  shows "cstr (drop i s) = (if s ! i = 0 then [] else s ! i # cstr (drop (Suc i) s))"
  unfolding Cons_nth_drop_Suc [OF assms, symmetric] by (simp add: cstr_def)

lemma strncmp_loop_ok:
  assumes "0 \<in> set (drop i a)" and "0 \<in> set (drop i b)"
  shows "ok (StrncmpLoop a b i len) (\<lambda>v. orders v (take len (cstr (drop i a))) (take len (cstr (drop i b))))"
  using assms
proof (induction len arbitrary: i)
  case 0
  then show ?case by simp
next
  case (Suc len)
  have i: "i < length a" "i < length b" using Suc.prems by (auto intro: ccontr)
  have nxt: "s ! i \<noteq> 0 \<Longrightarrow> 0 \<in> set (drop i s) \<Longrightarrow> 0 \<in> set (drop (Suc i) s)" if "i < length s" for s :: "UINT8 list"
    using Cons_nth_drop_Suc [OF that] by (metis set_ConsD)
  show ?case
  proof (cases "a ! i \<noteq> 0 \<and> a ! i = b ! i")
    case True
    then show ?thesis using Suc.IH [of "Suc i"] nxt [OF i(1)] nxt [OF i(2)] Suc.prems i
      by (simp add: cstr_drop)
  next
    case False
    then show ?thesis using orders_heads [OF False] i
      by (simp add: cstr_drop [OF i(1)] cstr_drop [OF i(2)] if_not_P [OF False] del: take_Suc_Cons)
  qed
qed

lemma strncmp_ok:
  "0 \<in> set a \<Longrightarrow> 0 \<in> set b \<Longrightarrow> ok (strncmp a b len) (\<lambda>v. orders v (take len (cstr a)) (take len (cstr b)))"
  using strncmp_loop_ok [of 0 a b len] by (simp add: strncmp_def)

text \<open>\<open>strcmp\<close> is \<open>strncmp\<close> with a bound that is never reached.\<close>

lemma StrcmpLoop_bound:
  "i \<le> length a \<Longrightarrow> length a < i + len \<Longrightarrow> StrcmpLoop a b i = StrncmpLoop a b i len"
proof (induction len arbitrary: i)
  case 0
  then show ?case by simp
next
  case (Suc len)
  then show ?case by (simp add: StrcmpLoop.simps [of a b i] aget_def)
qed

lemma strcmp_ok:
  assumes "0 \<in> set a" and "0 \<in> set b"
  shows "ok (strcmp a b) (\<lambda>v. orders v (cstr a) (cstr b))"
proof -
  let ?n = "Suc (length a + length b)"
  have "strcmp a b = strncmp a b ?n"
    using StrcmpLoop_bound [of 0 a ?n b] by (simp add: strcmp_def strncmp_def)
  moreover have "take ?n (cstr a) = cstr a" "take ?n (cstr b) = cstr b"
    using cstr_length [of a] cstr_length [of b] by simp_all
  ultimately show ?thesis using strncmp_ok [OF assms, of ?n] by simp
qed

lemma StrncpyCopy_ok:
  assumes "0 \<in> set (drop i src)" and "i + len \<le> length dest"
  shows "StrncpyCopy dest src i len =
    (let n = length (take len (cstr (drop i src)))
     in Some (take i dest @ take len (cstr (drop i src)) @ drop (i + n) dest, i + n, len - n))"
  using assms
proof (induction len arbitrary: i dest)
  case 0
  then show ?case by simp
next
  case (Suc len)
  have i: "i < length src" using Suc.prems by (auto intro: ccontr)
  show ?case
  proof (cases "src ! i = 0")
    case True
    then show ?thesis using i by (simp add: cstr_drop)
  next
    case False
    have "0 \<in> set (drop (Suc i) src)"
      using Suc.prems(1) False Cons_nth_drop_Suc [OF i] by (metis set_ConsD)
    moreover have "Suc i + len \<le> length (dest[i := src ! i])" "i < length dest" using Suc.prems(2) by simp_all
    moreover have "take (Suc i) (dest[i := src ! i]) = take i dest @ [src ! i]"
      using Suc.prems(2) by (simp add: take_Suc_conv_app_nth)
    ultimately show ?thesis using Suc.IH [of "Suc i" "dest[i := src ! i]"] False i
      by (simp add: cstr_drop [OF i] Let_def)
  qed
qed

lemma StrncpyPad_ok:
  "i + len \<le> length dest \<Longrightarrow> StrncpyPad dest i len = Some (take i dest @ replicate len 0 @ drop (i + len) dest)"
proof (induction len arbitrary: i dest)
  case (Suc len)
  have "take (Suc i) (dest[i := 0]) = take i dest @ [0]"
    using Suc.prems by (simp add: take_Suc_conv_app_nth)
  then show ?case using Suc.IH [of "Suc i" "dest[i := 0]"] Suc.prems by simp
qed simp

lemma strncpy_ok:
  assumes "0 \<in> set src" and "len \<le> length dest"
  shows "strncpy dest src len = Some (take len (cstr src) @ replicate (len - length (cstr src)) 0 @ drop len dest)"
proof -
  let ?n = "min len (length (cstr src))"
  have "StrncpyCopy dest src 0 len = Some (take len (cstr src) @ drop ?n dest, ?n, len - ?n)"
    using StrncpyCopy_ok [of 0 src len dest] assms by (simp add: Let_def min.commute)
  moreover have "StrncpyPad (take len (cstr src) @ drop ?n dest) ?n (len - ?n) =
      Some (take len (cstr src) @ replicate (len - ?n) 0 @ drop len dest)"
    using assms(2) by (subst StrncpyPad_ok) (simp_all add: min_def)
  moreover have "len - ?n = len - length (cstr src)" by simp
  ultimately show ?thesis by (simp add: strncpy_def)
qed

lemma StrncatCopy_ok:
  assumes "0 \<in> set (drop i src)" and "d + length (take len (cstr (drop i src))) \<le> length dest"
  shows "StrncatCopy dest d src i len =
    (let n = length (take len (cstr (drop i src)))
     in Some (take d dest @ take len (cstr (drop i src)) @ drop (d + n) dest, d + n))"
  using assms
proof (induction len arbitrary: i d dest)
  case 0
  then show ?case by simp
next
  case (Suc len)
  have i: "i < length src" using Suc.prems by (auto intro: ccontr)
  show ?case
  proof (cases "src ! i = 0")
    case True
    then show ?thesis using i by (simp add: cstr_drop)
  next
    case False
    have d: "d < length dest" "Suc d + length (take len (cstr (drop (Suc i) src))) \<le> length (dest[d := src ! i])"
      using Suc.prems(2) False by (simp_all add: cstr_drop [OF i])
    moreover have "0 \<in> set (drop (Suc i) src)"
      using Suc.prems(1) False Cons_nth_drop_Suc [OF i] by (metis set_ConsD)
    moreover have "take (Suc d) (dest[d := src ! i]) = take d dest @ [src ! i]"
      using d(1) by (simp add: take_Suc_conv_app_nth)
    ultimately show ?thesis using Suc.IH [of "Suc i" "Suc d" "dest[d := src ! i]"] False i
      by (simp add: cstr_drop [OF i] Let_def)
  qed
qed

lemma cstr_append_end: "0 \<notin> set xs \<Longrightarrow> cstr (xs @ 0 # ys) = xs"
  by (simp add: cstr_def takeWhile_append)

lemma cstr_prefix: "cstr s = take (length (cstr s)) s"
  by (simp add: cstr_def takeWhile_eq_take [symmetric])

lemma strncat_ok:
  assumes "0 \<in> set dest" and "0 \<in> set src"
    and "length (cstr dest) + length (take len (cstr src)) < length dest"
  shows "ok (strncat dest src len) (\<lambda>r. length r = length dest \<and> 0 \<in> set r \<and>
    cstr r = cstr dest @ take len (cstr src))"
proof -
  let ?d = "length (cstr dest)" and ?x = "take len (cstr src)"
  let ?e = "?d + length ?x"
  have "StrncatCopy dest ?d src 0 len = Some (take ?d dest @ ?x @ drop ?e dest, ?e)"
    using StrncatCopy_ok [of 0 src ?d len dest] assms by (simp add: Let_def)
  moreover have "take ?d dest = cstr dest" by (rule cstr_prefix [symmetric])
  moreover have "drop ?e dest = dest ! ?e # drop (Suc ?e) dest" using assms(3) by (rule Cons_nth_drop_Suc [symmetric])
  ultimately have "strncat dest src len = Some (cstr dest @ ?x @ 0 # drop (Suc ?e) dest)"
    using assms(3) by (simp add: strncat_def strlen_ok [OF assms(1)] list_update_append)
  moreover have "0 \<notin> set (cstr dest @ ?x)"
    using cstr_nonzero [of 0 dest] cstr_nonzero [of 0 src] by (auto dest: in_set_takeD)
  then have "cstr ((cstr dest @ ?x) @ 0 # drop (Suc ?e) dest) = cstr dest @ ?x" by (rule cstr_append_end)
  ultimately show ?thesis using assms(3) by simp
qed

section \<open>Terminal size and random numbers\<close>

text \<open>
  \<open>wolfSSH_UEFI_GetTerminalInfo\<close> with none of its pointers null: \<open>mode\<close> is \<open>None\<close> when the system
  table has no console or the console no mode, and otherwise what \<open>QueryMode\<close> returns. The result
  is width, height, pixel width, pixel height and terminal type.
\<close>

abbreviation (input) MAX_UINT32 :: nat where "MAX_UINT32 \<equiv> 4294967295"

definition wolfSSH_UEFI_GetTerminalInfo ::
  "(EFI_STATUS \<times> UINTN \<times> UINTN) option \<Rightarrow> nat \<times> nat \<times> nat \<times> nat \<times> string" where
  "wolfSSH_UEFI_GetTerminalInfo mode =
     (let info = (80, 25, 0, 0, ''xterm-256color'')
      in case mode of
        None \<Rightarrow> info
      | Some (status, columns, rows) \<Rightarrow>
          if \<not> EFI_ERROR status \<and> columns \<noteq> 0 \<and> rows \<noteq> 0 \<and> columns \<le> MAX_UINT32 \<and> rows \<le> MAX_UINT32
          then (columns mod 2 ^ 32, rows mod 2 ^ 32, 0, 0, ''xterm-256color'')
          else info)"

text \<open>
  The random number generator. \<open>mRng\<close> is the cached protocol, \<open>locate\<close> the result of
  \<open>LocateProtocol\<close> and \<open>GetRNG\<close> the protocol's function; the result is the value returned, the
  cache, and the bytes written when there are any.
\<close>

definition UefiRandomGenerateBlock ::
  "EFI_STATUS \<times> 'p \<Rightarrow> ('p \<Rightarrow> UINTN \<Rightarrow> EFI_STATUS \<times> UINT8 list) \<Rightarrow> 'p option \<Rightarrow> bool \<Rightarrow> nat \<Rightarrow>
   int \<times> 'p option \<times> UINT8 list option" where
  "UefiRandomGenerateBlock locate GetRNG mRng outputNull size' =
     (if outputNull \<and> size' \<noteq> 0 then (-1, mRng, None)
      else
        let found = (case mRng of
              Some rng \<Rightarrow> Some rng
            | None \<Rightarrow> (case locate of (status, rng) \<Rightarrow> if EFI_ERROR status then None else Some rng))
        in case found of
          None \<Rightarrow> (-1, mRng, None)
        | Some rng \<Rightarrow> (case GetRNG rng size' of (status, bytes) \<Rightarrow>
            (if EFI_ERROR status then -1 else 0, Some rng, Some bytes)))"

section \<open>Properties\<close>

text \<open>
  C36. Allocating: a size that would overflow with the header is refused, although the pool may grant
  the small block of the wrapped size, and so is one that the pool does not grant; then the pool is as
  before. Otherwise the wrapper returns a pointer behind a new header to a block of exactly the
  size asked for, apart from every other block, and changes nothing else. It never writes outside a
  block.
\<close>

theorem allocate_fresh:
  assumes "pool_contract alloc" and "wf_pool p" and "n < 2 ^ 64"
  shows "ok (UefiCompatAllocate alloc n p) (\<lambda>(buf, p'). wf_pool p' \<and>
    (if 2 ^ 64 \<le> n + 16 \<or> alloc p (n + 16) = None then buf = 0 \<and> p' = p
     else buf \<noteq> 0 \<and> buf = usub buf 16 + 16 \<and> p (usub buf 16) = None \<and> apart p (usub buf 16) (16 + n) \<and>
       (\<exists>d. length d = n \<and> buffer_at p' buf = Some d \<and>
          p' = p(usub buf 16 \<mapsto> (\<lparr>Signature = WOLF_ALLOC_SIGNATURE, Size = n\<rparr>, d)))))"
  using Allocate_ok [OF assms] unfolding allocated_def .

text \<open>A pool that grants one block of up to 1024 bytes at address 64, for the witnesses.\<close>

definition one_block :: allocate_pool where
  "one_block p n = (if n \<le> 1024 \<and> p = Map.empty then Some (64, replicate n 0) else None)"

lemma one_block_contract: "pool_contract one_block"
  by (auto simp: pool_contract_def one_block_def apart_def split: if_splits)

lemma wf_empty: "wf_pool Map.empty"
  by (simp add: wf_pool_def)

theorem allocate_fresh_witness:
  "ok (UefiCompatAllocate one_block 8 Map.empty) (\<lambda>(buf, p'). buf \<noteq> 0 \<and> wf_pool p') \<and>
    ok (UefiCompatAllocate one_block 18446744073709551615 Map.empty) (\<lambda>(buf, p'). buf = 0 \<and> p' = Map.empty) \<and>
    one_block Map.empty (uadd 16 18446744073709551615) \<noteq> None"
proof (intro conjI)
  show "ok (UefiCompatAllocate one_block 8 Map.empty) (\<lambda>(buf, p'). buf \<noteq> 0 \<and> wf_pool p')"
    by (rule ok_mono [OF allocate_fresh [OF one_block_contract wf_empty]]) (auto simp: one_block_def split: if_splits)
  show "ok (UefiCompatAllocate one_block 18446744073709551615 Map.empty) (\<lambda>(buf, p'). buf = 0 \<and> p' = Map.empty)"
    by (rule ok_mono [OF allocate_fresh [OF one_block_contract wf_empty]]) auto
  show "one_block Map.empty (uadd 16 18446744073709551615) \<noteq> None" by (simp add: one_block_def uadd_def)
qed

text \<open>
  C37. Freeing: a pointer the allocator handed out gives back its block and nothing else, the null
  pointer does nothing, and so does a pointer behind a header without the signature.
\<close>

theorem free_exact:
  assumes "wf_pool p"
  shows "UefiCompatFree 0 p = Some p \<and>
    (\<forall>buf d. buffer_at p buf = Some d \<longrightarrow>
       UefiCompatFree buf p = Some (p(usub buf 16 := None)) \<and> wf_pool (p(usub buf 16 := None))) \<and>
    (\<forall>buf h d. p (usub buf 16) = Some (h, d) \<and> Signature h \<noteq> WOLF_ALLOC_SIGNATURE \<longrightarrow>
       UefiCompatFree buf p = Some p)"
  using Free_ok [OF assms] by (auto simp: UefiCompatFree_def)

definition two_blocks :: pool where
  "two_blocks = [64 \<mapsto> (\<lparr>Signature = WOLF_ALLOC_SIGNATURE, Size = 2\<rparr>, [1, 2]), 128 \<mapsto> (\<lparr>Signature = 0, Size = 0\<rparr>, [])]"

lemma two_blocks_wf: "wf_pool two_blocks"
  by (auto simp: two_blocks_def wf_pool_def WOLF_ALLOC_SIGNATURE_def split: if_splits)

theorem free_exact_witness:
  "UefiCompatFree 80 two_blocks = Some (two_blocks(64 := None)) \<and> UefiCompatFree 144 two_blocks = Some two_blocks"
proof -
  have "buffer_at two_blocks 80 = Some [1, 2]" by (simp add: buffer_at_def two_blocks_def)
  moreover have "two_blocks (usub 144 16) = Some (\<lparr>Signature = 0, Size = 0\<rparr>, [])" by (simp add: two_blocks_def)
  ultimately show ?thesis using free_exact [OF two_blocks_wf] by (simp add: WOLF_ALLOC_SIGNATURE_def)
qed

text \<open>
  C38. Reallocating to a positive size: null and the old block untouched, or a new block of
  the new size that starts with the old contents, as far as both sizes reach; the old block is
  gone and every other block is as before. No byte outside either block is read or written.
\<close>

theorem reallocate_preserves:
  assumes "pool_contract alloc" and "wf_pool p" and "buffer_at p buf = Some d" and "0 < n" and "n < 2 ^ 64"
  shows "ok (UefiCompatReallocate alloc buf n p) (\<lambda>(buf', p'). wf_pool p' \<and>
    (buf' = 0 \<and> p' = p \<or>
     (\<exists>d'. buffer_at p' buf' = Some d' \<and> length d' = n \<and> usub buf' 16 \<noteq> usub buf 16 \<and>
        take (min (length d) n) d' = take (min (length d) n) d \<and>
        (\<forall>a. a \<noteq> usub buf 16 \<and> a \<noteq> usub buf' 16 \<longrightarrow> p' a = p a) \<and>
        p (usub buf' 16) = None \<and> p' (usub buf 16) = None)))"
  by (rule Reallocate_ok [OF assms])

definition next_block :: allocate_pool where
  "next_block p n = (if n \<le> 1024 \<and> p = two_blocks then Some (4096, replicate n 0) else None)"

lemma next_block_contract: "pool_contract next_block"
  by (auto simp: pool_contract_def next_block_def apart_def two_blocks_def split: if_splits)

theorem reallocate_preserves_witness:
  "ok (UefiCompatReallocate next_block 80 5 two_blocks) (\<lambda>(buf', p'). wf_pool p' \<and>
    (buf' = 0 \<and> p' = two_blocks \<or>
     (\<exists>d'. buffer_at p' buf' = Some d' \<and> length d' = 5 \<and> usub buf' 16 \<noteq> usub 80 16 \<and>
        take (min (length [1, 2 :: UINT8]) 5) d' = take (min (length [1, 2 :: UINT8]) 5) [1, 2] \<and>
        (\<forall>a. a \<noteq> usub 80 16 \<and> a \<noteq> usub buf' 16 \<longrightarrow> p' a = two_blocks a) \<and>
        two_blocks (usub buf' 16) = None \<and> p' (usub 80 16) = None)))"
  by (rule reallocate_preserves [OF next_block_contract two_blocks_wf])
    (simp_all add: buffer_at_def two_blocks_def)

text \<open>
  C39. The string functions agree with their C contracts on terminated strings: the length is that
  of the text, comparisons order texts as lists of unsigned bytes, \<open>memcmp\<close> does so for arrays,
  \<open>strncpy\<close> writes exactly its length, padded with zeros, and \<open>strncat\<close> appends and terminates
  when there is room. None of them leaves its arrays.
\<close>

theorem string_functions:
  assumes "0 \<in> set a" and "0 \<in> set b"
  shows "strlen a = Some (length (cstr a)) \<and>
    ok (strcmp a b) (\<lambda>v. orders v (cstr a) (cstr b)) \<and>
    ok (strncmp a b n) (\<lambda>v. orders v (take n (cstr a)) (take n (cstr b))) \<and>
    (n \<le> length a \<and> n \<le> length b \<longrightarrow> ok (memcmp a b n) (\<lambda>v. orders v (take n a) (take n b))) \<and>
    (n \<le> length a \<longrightarrow>
       strncpy a b n = Some (take n (cstr b) @ replicate (n - length (cstr b)) 0 @ drop n a)) \<and>
    (length (cstr a) + length (take n (cstr b)) < length a \<longrightarrow>
       ok (strncat a b n) (\<lambda>r. length r = length a \<and> 0 \<in> set r \<and> cstr r = cstr a @ take n (cstr b)))"
  using strlen_ok [OF assms(1)] strcmp_ok [OF assms] strncmp_ok [OF assms] memcmp_ok [of n a b]
    strncpy_ok [OF assms(2)] strncat_ok [OF assms] by blast

theorem string_functions_witness:
  "strlen [0x61, 0, 7] = Some 1 \<and> ok (strcmp [0x61, 0, 7] [0x62, 0]) (\<lambda>v. v < 0) \<and>
    strncpy [0x61, 0, 7] [0x62, 0] 2 = Some [0x62, 0, 7]"
proof -
  have c: "cstr [0x61, 0, 7] = [0x61]" "cstr [0x62, 0] = [0x62]" by (simp_all add: cstr_def)
  have z: "0 \<in> set [0x61, 0, 7 :: UINT8]" "0 \<in> set [0x62, 0 :: UINT8]" by simp_all
  have l: "v < 0" if "orders v [0x61] [0x62]" for v using that by (simp add: orders_def)
  show ?thesis using string_functions [OF z, of 2] unfolding c
    by (auto simp: numeral_2_eq_2 [symmetric] elim!: ok_mono intro: l)
qed

end
