(* ===== verification/Session.thy ===== *)
theory Session
  imports Auth Tcp4_Open Term_Keys Compat
begin

text \<open>
  Main.c: the interactive session between the user's console and the remote terminal, and the
  program's entry point. wolfSSH is a parameter: each of its functions is an interaction that may call
  the four callbacks of the application any finite number of times, in any order, before it
  answers. What the program prints is not modelled.
\<close>

section \<open>wolfSSH\<close>

text \<open>
  The codes of \<open>wolfssh/error.h\<close> that the program tests for; the last constructor stands for every
  other one. They are distinct, \<open>WS_SUCCESS\<close> is 0 and the others are negative.
\<close>

datatype WS_CODE =
    WS_SUCCESS
  | WS_WANT_READ
  | WS_WANT_WRITE
  | WS_WINDOW_FULL
  | WS_REKEYING
  | WS_EXTDATA
  | WS_EOF
  | WS_CHANNEL_CLOSED
  | WS_SOCKET_ERROR_E
  | WS_OTHER nat

datatype 'a interaction =
    Answer 'a
  | OnReceive nat "CBIO \<times> UINT8 list \<Rightarrow> 'a interaction"
  | OnSend "UINT8 list" "CBIO \<Rightarrow> 'a interaction"
  | OnHostKey "UINT8 list" "int \<Rightarrow> 'a interaction"
  | OnUserAuth AUTH_TYPE "USERAUTH_RESULT \<Rightarrow> 'a interaction"

text \<open>
  The functions of the library, over the state \<open>'ssh\<close> behind a \<open>WOLFSSH\<close> pointer. A function that
  transfers data answers a code or what it transferred, which may be nothing; the result 0 is the code
  \<open>WS_SUCCESS\<close> as well as a transfer of nothing, and the code treats both alike.
\<close>

record 'ssh WOLFSSH =
  wolfSSH_stream_read :: "nat \<Rightarrow> 'ssh \<Rightarrow> ((WS_CODE + UINT8 list) \<times> 'ssh) interaction"
  wolfSSH_extended_data_read :: "nat \<Rightarrow> 'ssh \<Rightarrow> ((WS_CODE + UINT8 list) \<times> 'ssh) interaction"
  wolfSSH_stream_send :: "UINT8 list \<Rightarrow> 'ssh \<Rightarrow> ((WS_CODE + nat) \<times> 'ssh) interaction"
  wolfSSH_connect :: "'ssh \<Rightarrow> (WS_CODE \<times> 'ssh) interaction"
  wolfSSH_worker :: "'ssh \<Rightarrow> (WS_CODE \<times> 'ssh) interaction"
  wolfSSH_shutdown :: "'ssh \<Rightarrow> (WS_CODE \<times> 'ssh) interaction"
  wolfSSH_get_error :: "'ssh \<Rightarrow> WS_CODE"

text \<open>What surrounds the program, and the number of turns given to the loops that may not end.\<close>

record ENVIRONMENT =
  Firmware :: firmware
  Sha256 :: hash
  Sprint :: print_lib
  Turns :: nat

text \<open>
  Carrying out an interaction: \<open>UefiMain\<close> registered the four callbacks, each with the socket or the
  authentication structure as its context.
\<close>

primrec perform :: "ENVIRONMENT \<Rightarrow> 'a interaction \<Rightarrow> auth \<Rightarrow> ('a \<times> auth) outcome" where
  "perform env (Answer x) a = Returned (x, a)"
| "perform env (OnReceive n k) a =
     andthen (lift (WolfSshTcp4RecvCallback (Firmware env) n (Socket a)))
       (\<lambda>(res, bytes, s). perform env (k (res, bytes)) (a\<lparr>Socket := s\<rparr>))"
| "perform env (OnSend bytes k) a =
     andthen (lift (WolfSshTcp4SendCallback (Firmware env) bytes (Socket a)))
       (\<lambda>(res, s). perform env (k res) (a\<lparr>Socket := s\<rparr>))"
| "perform env (OnHostKey key k) a =
     andthen (WolfSshHostKeyCallback (Sha256 env) (Firmware env) (Turns env) key a)
       (\<lambda>(res, a). perform env (k res) a)"
| "perform env (OnUserAuth authType k) a =
     andthen (WolfSshUserAuthCallback (Firmware env) (Turns env) authType a)
       (\<lambda>(res, a). perform env (k res) a)"

type_synonym 'ssh link = "'ssh \<times> auth"

definition use_ssh ::
  "ENVIRONMENT \<Rightarrow> ('ssh \<Rightarrow> ('a \<times> 'ssh) interaction) \<Rightarrow> 'ssh link \<Rightarrow> ('a \<times> 'ssh link) outcome" where
  "use_ssh env f = (\<lambda>(ssh, a). andthen (perform env (f ssh) a) (\<lambda>((x, ssh), a). Returned (x, ssh, a)))"

section \<open>Sending and connecting\<close>

definition IsRetryableError :: "WS_CODE \<Rightarrow> bool" where
  "IsRetryableError error \<longleftrightarrow> error = WS_WANT_READ \<or> error = WS_WANT_WRITE \<or>
     error = WS_WINDOW_FULL \<or> error = WS_REKEYING"

definition poll_and_stall :: "ENVIRONMENT \<Rightarrow> 'ssh link \<Rightarrow> 'ssh link outcome" where
  "poll_and_stall env = (\<lambda>(ssh, a). lift (do {
     s \<leftarrow> WolfSshTcp4Poll (Firmware env) (Socket a);
     s \<leftarrow> invoke (Firmware env) (Stall 5000) s;
     Some (ssh, a\<lparr>Socket := s\<rparr>) }))"

function SendLoop ::
  "ENVIRONMENT \<Rightarrow> 'ssh WOLFSSH \<Rightarrow> UINT8 list \<Rightarrow> nat \<Rightarrow> nat \<Rightarrow> 'ssh link \<Rightarrow> (EFI_STATUS \<times> 'ssh link) outcome" where
  "SendLoop env lib bytes offset retry l =
     (if offset < length bytes then
        andthen (use_ssh env (wolfSSH_stream_send lib (drop offset bytes)) l) (\<lambda>(res, l).
          case res of
            Inr (Suc n) \<Rightarrow> SendLoop env lib bytes (offset + Suc n) 0 l
          | _ \<Rightarrow>
            let error = wolfSSH_get_error lib (fst l)
            in if \<not> IsRetryableError error \<or> retry + 1 > 2000 then Returned (EFI_DEVICE_ERROR, l)
               else andthen (if error = WS_REKEYING then use_ssh env (wolfSSH_worker lib) l
                             else Returned (WS_SUCCESS, l)) (\<lambda>(_, l).
                 andthen (poll_and_stall env l) (\<lambda>l.
                   SendLoop env lib bytes offset (retry + 1) l)))
      else Returned (EFI_SUCCESS, l))"
  by pat_completeness auto
termination
  by (relation "measures [\<lambda>(env, lib, bytes, offset, retry, l). length bytes - offset,
    \<lambda>(env, lib, bytes, offset, retry, l). 2000 - retry]") auto

declare SendLoop.simps [simp del]

definition SendAll ::
  "ENVIRONMENT \<Rightarrow> 'ssh WOLFSSH \<Rightarrow> UINT8 list \<Rightarrow> 'ssh link \<Rightarrow> (EFI_STATUS \<times> 'ssh link) outcome" where
  "SendAll env lib bytes l = SendLoop env lib bytes 0 0 l"

text \<open>The retries left are counted down.\<close>

fun ConnectLoop :: "ENVIRONMENT \<Rightarrow> 'ssh WOLFSSH \<Rightarrow> nat \<Rightarrow> 'ssh link \<Rightarrow> (EFI_STATUS \<times> 'ssh link) outcome" where
  "ConnectLoop env lib 0 l = Returned (EFI_TIMEOUT, l)"
| "ConnectLoop env lib (Suc retries) l =
     andthen (use_ssh env (wolfSSH_connect lib) l) (\<lambda>(code, l).
       if code = WS_SUCCESS then Returned (EFI_SUCCESS, l)
       else if \<not> IsRetryableError (wolfSSH_get_error lib (fst l)) then Returned (EFI_PROTOCOL_ERROR, l)
       else andthen (poll_and_stall env l) (ConnectLoop env lib retries))"

definition ConnectWolfSsh :: "ENVIRONMENT \<Rightarrow> 'ssh WOLFSSH \<Rightarrow> 'ssh link \<Rightarrow> (EFI_STATUS \<times> 'ssh link) outcome" where
  "ConnectWolfSsh env lib l = ConnectLoop env lib 12000 l"

fun ShutdownLoop :: "ENVIRONMENT \<Rightarrow> 'ssh WOLFSSH \<Rightarrow> nat \<Rightarrow> 'ssh link \<Rightarrow> 'ssh link outcome" where
  "ShutdownLoop env lib 0 l = Returned l"
| "ShutdownLoop env lib (Suc retries) l =
     andthen (use_ssh env (wolfSSH_shutdown lib) l) (\<lambda>(code, l).
       if code = WS_SUCCESS then Returned l
       else if \<not> IsRetryableError (wolfSSH_get_error lib (fst l)) then Returned l
       else andthen (poll_and_stall env l) (ShutdownLoop env lib retries))"

definition BestEffortShutdown :: "ENVIRONMENT \<Rightarrow> 'ssh WOLFSSH \<Rightarrow> 'ssh link \<Rightarrow> 'ssh link outcome" where
  "BestEffortShutdown env lib l = ShutdownLoop env lib 200 l"

section \<open>The interactive session\<close>

definition DrainExtendedData ::
  "ENVIRONMENT \<Rightarrow> 'ssh WOLFSSH \<Rightarrow> term_state \<times> 'ssh link \<Rightarrow> (EFI_STATUS \<times> term_state \<times> 'ssh link) outcome" where
  "DrainExtendedData env lib = repeat (Turns env) (\<lambda>(t, l).
     andthen (use_ssh env (wolfSSH_extended_data_read lib 1024) l) (\<lambda>(res, l).
       case res of
         Inr bytes \<Rightarrow>
           if bytes = [] then Returned (Inr (EFI_SUCCESS, t, l))
           else andthen (lift (WolfSshTerminalFeed (Sprint env) t bytes)) (\<lambda>t. Returned (Inl (t, l)))
       | Inl code \<Rightarrow> Returned (Inr (if code = WS_SUCCESS \<or> IsRetryableError (wolfSSH_get_error lib (fst l)) then EFI_SUCCESS
                                else EFI_DEVICE_ERROR, t, l))))"

text \<open>The local variables of \<open>RunInteractiveSession\<close> that live across its loops.\<close>

record 'ssh SESSION =
  Terminal :: term_state
  Link :: "'ssh link"
  SessionStatus :: EFI_STATUS
  Finished :: bool
  Activity :: bool

text \<open>One read of the burst; \<open>Inl\<close> continues the burst and \<open>Inr\<close> breaks out of it.\<close>

definition ReadOnce ::
  "ENVIRONMENT \<Rightarrow> 'ssh WOLFSSH \<Rightarrow> 'ssh SESSION \<Rightarrow> ('ssh SESSION + 'ssh SESSION) outcome" where
  "ReadOnce env lib st =
     andthen (use_ssh env (wolfSSH_stream_read lib 4096) (Link st)) (\<lambda>(res, l).
       let st = st\<lparr>Link := l\<rparr>;
           error = wolfSSH_get_error lib (fst l);
           read = (case res of Inr bytes \<Rightarrow> bytes | Inl _ \<Rightarrow> [])
       in if read \<noteq> [] then
            andthen (lift (WolfSshTerminalFeed (Sprint env) (Terminal st) read)) (\<lambda>t.
              Returned (Inl (st\<lparr>Terminal := t, Activity := True\<rparr>)))
          else if res = Inl WS_EXTDATA \<or> error = WS_EXTDATA then
            andthen (DrainExtendedData env lib (Terminal st, l)) (\<lambda>(status, t, l).
              Returned (Inl (st\<lparr>Terminal := t, Link := l, SessionStatus := status,
                Finished := (if EFI_ERROR status then True else Finished st), Activity := True\<rparr>)))
          else if res = Inl WS_EOF \<or> error = WS_EOF \<or> error = WS_CHANNEL_CLOSED \<or> error = WS_SOCKET_ERROR_E then
            Returned (Inr (st\<lparr>Finished := True\<rparr>))
          else if error = WS_REKEYING then
            andthen (use_ssh env (wolfSSH_worker lib) l) (\<lambda>(_, l).
              Returned (Inl (st\<lparr>Link := l, Activity := True\<rparr>)))
          else if error = WS_WANT_READ \<or> error = WS_WANT_WRITE \<or> res = Inr [] \<or> res = Inl WS_SUCCESS then
            Returned (Inr st)
          else Returned (Inr (st\<lparr>SessionStatus := EFI_PROTOCOL_ERROR, Finished := True\<rparr>)))"

fun ReadBurst :: "ENVIRONMENT \<Rightarrow> 'ssh WOLFSSH \<Rightarrow> nat \<Rightarrow> 'ssh SESSION \<Rightarrow> 'ssh SESSION outcome" where
  "ReadBurst env lib 0 st = Returned st"
| "ReadBurst env lib (Suc n) st =
     andthen (ReadOnce env lib st) (\<lambda>r. case r of Inl st \<Rightarrow> ReadBurst env lib n st | Inr st \<Rightarrow> Returned st)"

definition ReplyLoop :: "ENVIRONMENT \<Rightarrow> 'ssh WOLFSSH \<Rightarrow> 'ssh SESSION \<Rightarrow> 'ssh SESSION outcome" where
  "ReplyLoop env lib = repeat (Turns env) (\<lambda>st.
     andthen (lift (WolfSshTerminalTakeResponse (Terminal st) 128)) (\<lambda>(reply, t).
       let st = st\<lparr>Terminal := t\<rparr>
       in if reply = [] then Returned (Inr st)
          else andthen (SendAll env lib reply (Link st)) (\<lambda>(status, l).
            let st = st\<lparr>Link := l, SessionStatus := status\<rparr>
            in if EFI_ERROR status then Returned (Inr (st\<lparr>Finished := True\<rparr>))
               else Returned (Inl st))))"

text \<open>
  One key; the terminal only uses the first \<open>KeyLength\<close> bytes of the buffer, which it wrote. The
  session's socket is the context of the console call.
\<close>

definition KeyTurn ::
  "ENVIRONMENT \<Rightarrow> 'ssh WOLFSSH \<Rightarrow> 'ssh SESSION \<Rightarrow> ('ssh SESSION + 'ssh SESSION) outcome" where
  "KeyTurn env lib st =
     (if Finished st then Returned (Inr st)
      else case Link st of (ssh, a) \<Rightarrow>
        andthen (lift (call (Firmware env) ReadKeyStroke (Socket a))) (\<lambda>(r, s).
        andthen (lift (WolfSshTerminalReadKey (Terminal st) (replicate 16 0) 16 (Status r)
                   (fst (KeyStroke r)) (snd (KeyStroke r)))) (\<lambda>(status, keyLength, localExit, buf).
          let st = st\<lparr>Link := (ssh, a\<lparr>Socket := s\<rparr>), SessionStatus := status\<rparr>
          in if status = EFI_NOT_READY then Returned (Inr (st\<lparr>SessionStatus := EFI_SUCCESS\<rparr>))
             else if EFI_ERROR status then Returned (Inr (st\<lparr>Finished := True\<rparr>))
             else if localExit then Returned (Inr (st\<lparr>Finished := True\<rparr>))
             else if keyLength \<noteq> 0 then
               andthen (SendAll env lib (take keyLength buf) (Link st)) (\<lambda>(status, l).
                 let st = st\<lparr>Link := l, SessionStatus := status\<rparr>
                 in if EFI_ERROR status then Returned (Inr (st\<lparr>Finished := True\<rparr>))
                    else Returned (Inl (st\<lparr>Activity := True\<rparr>)))
             else Returned (Inl st))))"

definition KeyLoop :: "ENVIRONMENT \<Rightarrow> 'ssh WOLFSSH \<Rightarrow> 'ssh SESSION \<Rightarrow> 'ssh SESSION outcome" where
  "KeyLoop env lib = repeat (Turns env) (KeyTurn env lib)"

text \<open>One turn of the session's main loop.\<close>

definition SessionTurn :: "ENVIRONMENT \<Rightarrow> 'ssh WOLFSSH \<Rightarrow> 'ssh SESSION \<Rightarrow> ('ssh SESSION + 'ssh SESSION) outcome" where
  "SessionTurn env lib st =
     (if Finished st then Returned (Inr st)
      else case Link st of (ssh, a) \<Rightarrow>
        andthen (lift (WolfSshTcp4Poll (Firmware env) (Socket a))) (\<lambda>s.
        andthen (ReadBurst env lib 32 (st\<lparr>Activity := False, Link := (ssh, a\<lparr>Socket := s\<rparr>)\<rparr>)) (\<lambda>st.
        andthen (if Activity st then lift (WolfSshTerminalFlush (Terminal st)) else Returned (Terminal st)) (\<lambda>t.
        andthen (ReplyLoop env lib (st\<lparr>Terminal := t\<rparr>)) (\<lambda>st.
        andthen (KeyLoop env lib st) (\<lambda>st.
          if \<not> Finished st \<and> \<not> Activity st then
            (case Link st of (ssh, a) \<Rightarrow>
               andthen (lift (invoke (Firmware env) (Stall 5000) (Socket a))) (\<lambda>s.
                 Returned (Inl (st\<lparr>Link := (ssh, a\<lparr>Socket := s\<rparr>)\<rparr>))))
          else Returned (Inl st)))))))"

text \<open>The result holds the console calls and freed blocks of the terminal, when there was one.\<close>

definition RunInteractiveSession ::
  "ENVIRONMENT \<Rightarrow> 'ssh WOLFSSH \<Rightarrow> FIRMWARE \<Rightarrow> 'ssh link \<Rightarrow>
   (EFI_STATUS \<times> (CONSOLE_CALL list \<times> POOL_BLOCK option list) \<times> 'ssh link) outcome" where
  "RunInteractiveSession env lib f l =
     andthen (lift (WolfSshTerminalCreate f)) (\<lambda>created. case created of
       NotCreated calls freed \<Rightarrow> Returned (EFI_OUT_OF_RESOURCES, (calls, freed), l)
     | CreatedTerminal t \<Rightarrow>
         andthen (repeat (Turns env) (SessionTurn env lib)
           \<lparr>Terminal = t, Link = l, SessionStatus = EFI_SUCCESS, Finished = False, Activity = False\<rparr>) (\<lambda>st.
         andthen (lift (WolfSshTerminalFlush (Terminal st))) (\<lambda>t.
           let (calls, freed) = WolfSshTerminalDestroy True (DefaultForeground t) (DefaultBackground t) (\<lambda>_. True)
           in Returned (SessionStatus st, (ConOut t @ calls, freed), Link st))))"

section \<open>The program\<close>

text \<open>
  What \<open>UefiMain\<close> depends on besides: the command line, the random number generator, the start-up
  functions of wolfSSH with their results, and the console.
\<close>

record 'ssh PROGRAM =
  Env :: ENVIRONMENT
  Lib :: "'ssh WOLFSSH"
  Ip4 :: ip4_parser
  ShellStatus :: EFI_STATUS
  Arguments :: "CHAR16 list list"
  Rng :: "EFI_STATUS \<times> (UINTN \<Rightarrow> EFI_STATUS \<times> UINT8 list)"
  InitResult :: WS_CODE
  ContextCreated :: bool
  SshCreated :: "'ssh option"
  SetUsername :: "UINT8 list \<Rightarrow> 'ssh \<Rightarrow> WS_CODE \<times> 'ssh"
  SetChannelType :: "'ssh \<Rightarrow> WS_CODE \<times> 'ssh"
  Console :: FIRMWARE

text \<open>
  The calls that create and free the objects of the library and the clearing of the password, in the
  order they are made. A call that creates an object is recorded when it fails as well.
\<close>

datatype LIBRARY_CALL = Init | NewContext | NewSsh | FreeSsh | FreeContext | ClearPassword | LibraryCleanup

definition InitialSocket :: tcp4 where
  "InitialSocket = ZeroSocket \<lparr>Controller = 0, Child = 0, Binding = 0, Protocol = 0, RxEvent = 0, TxEvent = 0,
     RxDone = False, TxDone = False, RxTokenStatus = EFI_SUCCESS, TxTokenStatus = EFI_SUCCESS,
     RxDataLength = 0, RxBuffer = [], RxOffset = 0, RxLength = 0, RxActive = False, EndOfStream = False,
     LastRxStatus = EFI_SUCCESS, ConnectDone = False, ConnectTokenStatus = EFI_SUCCESS, Log = []\<rparr>"

definition InitialAuth :: "WOLFSSH_UEFI_OPTIONS \<Rightarrow> auth" where
  "InitialAuth opts = \<lparr>Options = opts, Socket = InitialSocket, HostKeyChecked = False,
     HostKeyAccepted = False, PasswordPrompted = False\<rparr>"

text \<open>
  The label \<open>Cleanup\<close>. The library is always initialised there, so the last call is unconditional.
\<close>

definition CleanUp ::
  "'ssh PROGRAM \<Rightarrow> EFI_STATUS \<Rightarrow> bool \<Rightarrow> 'ssh option \<Rightarrow> auth \<Rightarrow> LIBRARY_CALL list \<Rightarrow>
   (EFI_STATUS \<times> auth option \<times> LIBRARY_CALL list) outcome" where
  "CleanUp p status context ssh a calls =
     andthen (case ssh of None \<Rightarrow> Returned (a, calls)
       | Some h \<Rightarrow> andthen (BestEffortShutdown (Env p) (Lib p) (h, a)) (\<lambda>(_, a). Returned (a, calls @ [FreeSsh])))
     (\<lambda>(a, calls).
       let calls = (if context then calls @ [FreeContext] else calls)
       in andthen (if Protocol (Socket a) \<noteq> 0 then lift (WolfSshTcp4Close (Firmware (Env p)) True (Socket a))
                   else Returned (Socket a)) (\<lambda>s.
            Returned (status, Some (a\<lparr>Socket := s, Options := (Options a)\<lparr>Password := replicate 256 0\<rparr>\<rparr>),
              calls @ [ClearPassword, LibraryCleanup])))"

text \<open>From the creation of the SSH object on.\<close>

definition RunSsh ::
  "'ssh PROGRAM \<Rightarrow> 'ssh \<Rightarrow> auth \<Rightarrow> LIBRARY_CALL list \<Rightarrow> (EFI_STATUS \<times> auth option \<times> LIBRARY_CALL list) outcome" where
  "RunSsh p ssh a calls =
     (let (code, ssh) = SetUsername p (cstr (Username (Options a))) ssh
      in if code \<noteq> WS_SUCCESS then CleanUp p EFI_INVALID_PARAMETER True (Some ssh) a calls
      else let (code, ssh) = SetChannelType p ssh
      in if code \<noteq> WS_SUCCESS then CleanUp p EFI_PROTOCOL_ERROR True (Some ssh) a calls
      else andthen (ConnectWolfSsh (Env p) (Lib p) (ssh, a)) (\<lambda>(status, ssh, a).
        if EFI_ERROR status then CleanUp p status True (Some ssh) a calls
        else andthen (RunInteractiveSession (Env p) (Lib p) (Console p) (ssh, a)) (\<lambda>(status, _, ssh, a).
          CleanUp p status True (Some ssh) a calls)))"

text \<open>The result: the status, the program's data unless the arguments were refused, the library calls.\<close>

definition UefiMain :: "'ssh PROGRAM \<Rightarrow> (EFI_STATUS \<times> auth option \<times> LIBRARY_CALL list) outcome" where
  "UefiMain p =
     andthen (lift (WolfSshParseArguments (Ip4 p) (ShellStatus p) (Arguments p))) (\<lambda>parsed. case parsed of
       Inl _ \<Rightarrow> Returned (EFI_INVALID_PARAMETER, None, [])
     | Inr opts \<Rightarrow>
         let a = InitialAuth opts
         in if Help opts then Returned (EFI_SUCCESS, Some a, [])
         else if fst (UefiRandomGenerateBlock (fst (Rng p), ()) (\<lambda>_. snd (Rng p)) None False 16) \<noteq> 0 then
           Returned (EFI_UNSUPPORTED, Some a, [])
         else if InitResult p \<noteq> WS_SUCCESS then Returned (EFI_DEVICE_ERROR, Some a, [Init])
         else if SelfTest opts then
           andthen (lift (WolfSshTerminalSelfTest (Sprint (Env p)) (Console p))) (\<lambda>(status, _).
             CleanUp p status False None a [Init])
         else
           andthen (lift (WolfSshTcp4Connect (Firmware (Env p)) (Address opts) (Port opts) (Socket a)))
             (\<lambda>(status, s).
              let a = a\<lparr>Socket := s\<rparr>
              in if EFI_ERROR status then CleanUp p status False None a [Init]
              else if \<not> ContextCreated p then CleanUp p EFI_OUT_OF_RESOURCES False None a [Init, NewContext]
              else case SshCreated p of
                None \<Rightarrow> CleanUp p EFI_OUT_OF_RESOURCES True None a [Init, NewContext, NewSsh]
              | Some ssh \<Rightarrow> RunSsh p ssh a [Init, NewContext, NewSsh]))"

end
