(* ===== verification/Session_Safe.thy ===== *)
theory Session_Safe
  imports Session
begin

text \<open>
  Safety of the whole program: whatever wolfSSH, the firmware and the user do within the contracts, no
  definition of Main.c faults, the invariants of the terminal, the socket and the options hold
  throughout, and the program gives back what it acquired.
\<close>

section \<open>The invariant of a connection\<close>

definition env_ok :: "ENVIRONMENT \<Rightarrow> bool" where
  "env_ok env \<longleftrightarrow> conforming (Firmware env) \<and> hash_spec (Sha256 env)"

text \<open>\<open>base\<close> is the socket as it was connected.\<close>

definition app_inv :: "tcp4 \<Rightarrow> auth \<Rightarrow> bool" where
  "app_inv base a \<longleftrightarrow> (\<exists>d. auth_inv d a) \<and> kept_open base (Socket a)"

definition link_inv :: "tcp4 \<Rightarrow> 'ssh link \<Rightarrow> bool" where
  "link_inv base l \<longleftrightarrow> app_inv base (snd l)"

definition session_inv :: "tcp4 \<Rightarrow> 'ssh SESSION \<Rightarrow> bool" where
  "session_inv base st \<longleftrightarrow> wf_term (Terminal st) \<and> link_inv base (Link st)"

lemma link_inv_pair [simp]: "link_inv base (ssh, a) = app_inv base a"
  by (simp add: link_inv_def)

lemma app_inv_socket:
  assumes "app_inv base a" and "streaming d s" and "kept_open (Socket a) s"
  shows "app_inv base (a\<lparr>Socket := s\<rparr>)"
  using assms kept_open_trans by (auto simp: app_inv_def auth_inv_def)

lemma app_inv_stream: "app_inv base a \<Longrightarrow> \<exists>d. streaming d (Socket a)"
  by (auto simp: app_inv_def auth_inv_def)

text \<open>
  Once the host key was judged and the password obtained, nothing waits for the user any more.
  \<open>alive live\<close> adds this to the invariant when \<open>live\<close> is true; then every interaction ends.
\<close>

definition settled :: "auth \<Rightarrow> bool" where
  "settled a \<longleftrightarrow> HostKeyChecked a \<and> (HavePassword (Options a) \<or> PasswordPrompted a)"

definition alive :: "bool \<Rightarrow> tcp4 \<Rightarrow> auth \<Rightarrow> bool" where
  "alive live base a \<longleftrightarrow> app_inv base a \<and> (live \<longrightarrow> settled a)"

lemma alive_safe [simp]: "alive False base a = app_inv base a"
  by (simp add: alive_def)

lemma alive_inv: "alive live base a \<Longrightarrow> app_inv base a"
  by (simp add: alive_def)

lemma alive_socket:
  "alive live base a \<Longrightarrow> streaming d s \<Longrightarrow> kept_open (Socket a) s \<Longrightarrow> alive live base (a\<lparr>Socket := s\<rparr>)"
  using app_inv_socket by (simp add: alive_def settled_def)

lemma settled_host: "settled a \<Longrightarrow> \<exists>res. WolfSshHostKeyCallback sha256 fw turns key a = Returned (res, a)"
  by (simp add: settled_def WolfSshHostKeyCallback_def)

lemma settled_user:
  "settled a \<Longrightarrow> wf_options (Options a) \<Longrightarrow> \<exists>res. WolfSshUserAuthCallback fw turns authType a = Returned (res, a)"
  by (auto simp: settled_def WolfSshUserAuthCallback_def GivePassword_ok)

section \<open>Every interaction of wolfSSH\<close>

lemma host_key_alive:
  assumes "env_ok env" and "alive live base a"
  shows "holds live (WolfSshHostKeyCallback (Sha256 env) (Firmware env) turns key a)
    (\<lambda>(res, a'). alive live base a')"
proof (cases live)
  case True
  then obtain res where "WolfSshHostKeyCallback (Sha256 env) (Firmware env) turns key a = Returned (res, a)"
    using assms(2) settled_host [of a "Sha256 env" "Firmware env" turns key] by (auto simp: alive_def)
  then show ?thesis using assms(2) by simp
next
  case False
  obtain d where "auth_inv d a" using assms(2) by (auto simp: alive_def app_inv_def)
  then show ?thesis
    using False HostKey_ok [of "Firmware env" "Sha256 env" d a turns key] assms
    by (auto simp: env_ok_def app_inv_def holds_safe elim!: safe_mono intro: kept_open_trans)
qed

lemma user_auth_alive:
  assumes "env_ok env" and "alive live base a"
  shows "holds live (WolfSshUserAuthCallback (Firmware env) turns authType a) (\<lambda>(res, a'). alive live base a')"
proof -
  obtain d where d: "auth_inv d a" using assms(2) by (auto simp: alive_def app_inv_def)
  show ?thesis
  proof (cases live)
    case True
    then obtain res where "WolfSshUserAuthCallback (Firmware env) turns authType a = Returned (res, a)"
      using assms(2) d settled_user [of a "Firmware env" turns authType] by (auto simp: alive_def auth_inv_def)
    then show ?thesis using assms(2) by simp
  next
    case False
    then show ?thesis
      using UserAuth_ok [OF _ d, of "Firmware env" turns authType] assms
      by (auto simp: env_ok_def app_inv_def holds_safe elim!: safe_mono intro: kept_open_trans)
  qed
qed

lemma perform_alive:
  assumes "env_ok env" and "alive live base a"
  shows "holds live (perform env t a) (\<lambda>(x, a'). alive live base a')"
  using assms(2)
proof (induction t arbitrary: a)
  case (Answer x)
  then show ?case by simp
next
  case (OnReceive n k)
  obtain d where d: "streaming d (Socket a)" using app_inv_stream [OF alive_inv [OF OnReceive.prems]] by blast
  obtain res bytes s where s: "WolfSshTcp4RecvCallback (Firmware env) n (Socket a) = Some (res, bytes, s)"
    "streaming (d @ bytes) s" "kept_open (Socket a) s"
    using Recv_kept [OF _ d, of "Firmware env" n] assms(1) by (auto simp: ok_def env_ok_def)
  then show ?case using OnReceive.IH alive_socket [OF OnReceive.prems s(2,3)] by simp
next
  case (OnSend bytes k)
  obtain d where d: "streaming d (Socket a)" using app_inv_stream [OF alive_inv [OF OnSend.prems]] by blast
  obtain res s where s: "WolfSshTcp4SendCallback (Firmware env) bytes (Socket a) = Some (res, s)"
    "streaming d s" "kept_open (Socket a) s"
    using Send_kept [OF _ d, of "Firmware env" bytes] assms(1) by (auto simp: ok_def env_ok_def)
  then show ?case using OnSend.IH alive_socket [OF OnSend.prems s(2,3)] by simp
next
  case (OnHostKey key k)
  show ?case unfolding perform.simps holds_andthen
    by (rule holds_mono [OF host_key_alive [OF assms(1) OnHostKey.prems]]) (auto intro: OnHostKey.IH)
next
  case (OnUserAuth authType k)
  show ?case unfolding perform.simps holds_andthen
    by (rule holds_mono [OF user_auth_alive [OF assms(1) OnUserAuth.prems]]) (auto intro: OnUserAuth.IH)
qed

text \<open>The same of a link: \<open>link_inv\<close> is the case without \<open>live\<close>.\<close>

definition link_alive :: "bool \<Rightarrow> tcp4 \<Rightarrow> 'ssh link \<Rightarrow> bool" where
  "link_alive live base l \<longleftrightarrow> alive live base (snd l)"

lemma link_alive_safe [simp]: "link_alive False base = link_inv base"
  by (simp add: link_alive_def link_inv_def fun_eq_iff)

lemma use_ssh_alive:
  assumes "env_ok env" and "link_alive live base l"
  shows "holds live (use_ssh env f l) (\<lambda>(x, l'). link_alive live base l')"
  using perform_alive [OF assms(1), of live base "snd l" "f (fst l)"] assms(2)
  by (auto simp: use_ssh_def link_alive_def case_prod_unfold elim!: holds_mono)

lemma poll_and_stall_alive:
  assumes "env_ok env" and "link_alive live base l"
  shows "holds live (poll_and_stall env l) (\<lambda>l'. link_alive live base l' \<and> fst l' = fst l)"
proof -
  obtain ssh a where l: "l = (ssh, a)" by (cases l)
  have fw: "conforming (Firmware env)" using assms(1) by (simp add: env_ok_def)
  have a: "alive live base a" using assms(2) l by (simp add: link_alive_def)
  obtain d where d: "streaming d (Socket a)" using app_inv_stream [OF alive_inv [OF a]] by blast
  obtain s1 where s1: "WolfSshTcp4Poll (Firmware env) (Socket a) = Some s1" "streaming d s1" "kept_open (Socket a) s1"
    using Poll_kept [OF fw d] by (auto simp: ok_def)
  obtain s2 where s2: "invoke (Firmware env) (Stall 5000) s1 = Some s2" "streaming d s2" "kept_open s1 s2"
    using call_kept [OF fw s1(2), of "Stall 5000"] by (auto simp: ok_def rx_neutral_def invoke_def)
  show ?thesis
    using l s1(1) s2(1) alive_socket [OF a s2(2) kept_open_trans [OF s1(3) s2(3)]]
    by (simp add: poll_and_stall_def link_alive_def)
qed

lemma use_ssh_ok: "env_ok env \<Longrightarrow> link_inv base l \<Longrightarrow> safe (use_ssh env f l) (\<lambda>(x, l'). link_inv base l')"
  using use_ssh_alive [of env False base l f] by (simp add: holds_safe)

lemma poll_and_stall_ok: "env_ok env \<Longrightarrow> link_inv base l \<Longrightarrow> safe (poll_and_stall env l) (link_inv base)"
  using poll_and_stall_alive [of env False base l] by (auto simp: holds_safe elim!: safe_mono)

section \<open>Loops over wolfSSH\<close>

text \<open>
  The rule for the sending loop: \<open>I offset\<close> is an assertion that the three operations of its body
  keep, and the loop ends when everything is sent or gives up before.
\<close>

lemma SendLoop_rule:
  assumes send: "\<And>offset l. offset < length bytes \<Longrightarrow> I offset l \<Longrightarrow>
      holds live (use_ssh env (wolfSSH_stream_send lib (drop offset bytes)) l) (\<lambda>(res, l').
        case res of Inr n \<Rightarrow> I (offset + n) l' | Inl _ \<Rightarrow> I offset l')"
    and worker: "\<And>offset l. I offset l \<Longrightarrow> holds live (use_ssh env (wolfSSH_worker lib) l) (\<lambda>(code, l'). I offset l')"
    and poll: "\<And>offset l. I offset l \<Longrightarrow> holds live (poll_and_stall env l) (I offset)"
    and "I offset l"
  shows "holds live (SendLoop env lib bytes offset retry l) (\<lambda>(status, l'). \<exists>n. I n l' \<and>
    (if length bytes \<le> n then status = EFI_SUCCESS else status = EFI_DEVICE_ERROR))"
  using send worker poll assms(4)
proof (induction env lib bytes offset retry l rule: SendLoop.induct)
  case (1 env lib bytes offset retry l)
  define Q where "Q = (\<lambda>(status, l'). \<exists>n. I n l' \<and>
    (if length bytes \<le> n then status = EFI_SUCCESS else status = EFI_DEVICE_ERROR))"
  let ?rest = "\<lambda>l. let error = wolfSSH_get_error lib (fst l)
    in if \<not> IsRetryableError error \<or> retry + 1 > 2000 then Returned (EFI_DEVICE_ERROR, l)
       else andthen (if error = WS_REKEYING then use_ssh env (wolfSSH_worker lib) l
                     else Returned (WS_SUCCESS, l)) (\<lambda>(_, l).
         andthen (poll_and_stall env l) (\<lambda>l. SendLoop env lib bytes offset (retry + 1) l))"
  have "holds live (SendLoop env lib bytes offset retry l) Q"
  proof (cases "offset < length bytes")
    case False
    then show ?thesis using "1.prems" by (subst SendLoop.simps) (auto simp: Q_def)
  next
    case True
    have rest: "holds live (?rest l1) Q" if l1: "I offset l1" for l1
    proof (cases "\<not> IsRetryableError (wolfSSH_get_error lib (fst l1)) \<or> retry + 1 > 2000")
      case True
      then show ?thesis using l1 \<open>offset < length bytes\<close> by (auto simp: Let_def Q_def intro!: exI [of _ offset])
    next
      case False
      have next_turn: "holds live (SendLoop env lib bytes offset (retry + 1) l2) Q" if "I offset l2" for l2
        unfolding Q_def by (rule "1.IH"(1) [OF True refl refl False]) (rule "1.prems" that | assumption)+
      have "holds live (if wolfSSH_get_error lib (fst l1) = WS_REKEYING then use_ssh env (wolfSSH_worker lib) l1
          else Returned (WS_SUCCESS, l1)) (\<lambda>(code, l'). I offset l')"
        using l1 "1.prems"(2) [OF l1] by simp
      then have "holds live (if wolfSSH_get_error lib (fst l1) = WS_REKEYING then use_ssh env (wolfSSH_worker lib) l1
          else Returned (WS_SUCCESS, l1)) (\<lambda>(code, l'). holds live (andthen (poll_and_stall env l')
            (\<lambda>l. SendLoop env lib bytes offset (retry + 1) l)) Q)"
        by (rule holds_mono) (use next_turn in \<open>auto intro!: holds_mono [OF "1.prems"(3)]\<close>)
      then show ?thesis using False by (simp add: Let_def case_prod_unfold)
    qed
    have sent: "holds live (SendLoop env lib bytes (offset + Suc n) 0 l1) Q" if "I (offset + Suc n) l1" for n l1
      unfolding Q_def by (rule "1.IH"(3) [OF True refl refl]) (rule "1.prems" that | assumption)+
    have eq: "SendLoop env lib bytes offset retry l =
        andthen (use_ssh env (wolfSSH_stream_send lib (drop offset bytes)) l) (\<lambda>(res, l).
          case res of Inr (Suc n) \<Rightarrow> SendLoop env lib bytes (offset + Suc n) 0 l | _ \<Rightarrow> ?rest l)"
      using True by (subst SendLoop.simps) simp
    show ?thesis unfolding eq holds_andthen
    proof (rule holds_mono [OF "1.prems"(1) [OF True "1.prems"(4)]], goal_cases)
      case (1 x)
      obtain res l1 where x: "x = (res, l1)" by (cases x)
      show ?case
      proof (cases res)
        case (Inl code)
        then show ?thesis using rest 1(2) unfolding x Inl prod.case sum.case by blast
      next
        case (Inr m)
        have I: "I (offset + m) l1" using 1(2) x Inr by simp
        show ?thesis unfolding x Inr prod.case sum.case
          using rest sent I by (cases m) (simp_all only: nat.case add_0_right)
      qed
    qed
  qed
  then show ?case unfolding Q_def .
qed

text \<open>Sending ends whenever nothing waits for the user.\<close>

lemma SendLoop_alive:
  assumes "env_ok env" and "link_alive live base l"
  shows "holds live (SendLoop env lib bytes offset retry l) (\<lambda>(status, l'). link_alive live base l')"
  by (rule holds_mono [OF SendLoop_rule [where I = "\<lambda>_ l. link_alive live base l"]])
    (use assms(2) in \<open>auto split: sum.split intro!: holds_mono [OF use_ssh_alive [OF assms(1)]]
      holds_mono [OF poll_and_stall_alive [OF assms(1)]]\<close>)

lemma SendLoop_ok:
  "env_ok env \<Longrightarrow> link_inv base l \<Longrightarrow> safe (SendLoop env lib bytes offset retry l) (\<lambda>(status, l'). link_inv base l')"
  using SendLoop_alive [of env False base l] by (simp add: holds_safe)

lemma ConnectLoop_ok:
  assumes "env_ok env" and "link_inv base l"
  shows "safe (ConnectLoop env lib retries l) (\<lambda>(status, l'). link_inv base l')"
  using assms(2)
proof (induction retries arbitrary: l)
  case (Suc retries)
  show ?case unfolding ConnectLoop.simps safe_andthen
    by (rule safe_mono [OF use_ssh_ok [OF assms(1) Suc.prems]])
      (auto intro!: safe_mono [OF poll_and_stall_ok [OF assms(1)]] Suc.IH)
qed simp

lemma ShutdownLoop_ok:
  assumes "env_ok env" and "link_inv base l"
  shows "safe (ShutdownLoop env lib retries l) (link_inv base)"
  using assms(2)
proof (induction retries arbitrary: l)
  case (Suc retries)
  show ?case unfolding ShutdownLoop.simps safe_andthen
    by (rule safe_mono [OF use_ssh_ok [OF assms(1) Suc.prems]])
      (auto intro!: safe_mono [OF poll_and_stall_ok [OF assms(1)]] Suc.IH)
qed simp

lemma Drain_ok:
  assumes "env_ok env" and "wf_term t" and "link_inv base l"
  shows "safe (DrainExtendedData env lib (t, l)) (\<lambda>(status, t', l'). wf_term t' \<and> link_inv base l')"
  unfolding DrainExtendedData_def
proof (rule safe_repeat [where I = "\<lambda>(t, l). wf_term t \<and> link_inv base l"], goal_cases)
  case (2 st)
  obtain t l where st: "st = (t, l)" "wf_term t" "link_inv base l" using 2 by (cases st) auto
  have feed: "ok (WolfSshTerminalFeed (Sprint env) t bytes) wf_term" for bytes
    using Feed_kept [OF st(2)] by (rule ok_mono) (auto dest: keptD)
  show ?case unfolding st(1) prod.case safe_andthen
    by (rule safe_mono [OF use_ssh_ok [OF assms(1) st(3)]])
      (use st(2) feed in \<open>auto split: sum.splits elim!: ok_mono\<close>)
qed (use assms in auto)

section \<open>The session\<close>

lemma session_inv_update [simp]:
  "session_inv base (st\<lparr>SessionStatus := status\<rparr>) = session_inv base st"
  "session_inv base (st\<lparr>Finished := b\<rparr>) = session_inv base st"
  "session_inv base (st\<lparr>Activity := b\<rparr>) = session_inv base st"
  by (simp_all add: session_inv_def)

lemma session_inv_link: "session_inv base st \<Longrightarrow> link_inv base l \<Longrightarrow> session_inv base (st\<lparr>Link := l\<rparr>)"
  and session_inv_terminal: "session_inv base st \<Longrightarrow> wf_term t \<Longrightarrow> session_inv base (st\<lparr>Terminal := t\<rparr>)"
  and session_invD: "session_inv base st \<Longrightarrow> wf_term (Terminal st)" "session_inv base st \<Longrightarrow> link_inv base (Link st)"
  by (simp_all add: session_inv_def)

lemma Feed_safe: "wf_term t \<Longrightarrow> ok (WolfSshTerminalFeed sprint t bytes) wf_term"
  using Feed_kept [of t sprint bytes] by (auto elim!: ok_mono dest: keptD)

lemma Flush_safe: "wf_term t \<Longrightarrow> ok (WolfSshTerminalFlush t) wf_term"
  using Flush_ok [of t] by (auto elim!: ok_mono)

lemma ReadOnce_ok:
  assumes "env_ok env" and "session_inv base st"
  shows "safe (ReadOnce env lib st) (\<lambda>r. case r of Inl st' \<Rightarrow> session_inv base st' | Inr st' \<Rightarrow> session_inv base st')"
  unfolding ReadOnce_def safe_andthen
proof (rule safe_mono [OF use_ssh_ok [OF assms(1) session_invD(2) [OF assms(2)]]], goal_cases)
  case (1 x)
  then obtain res l where x: "x = (res, l)" and l: "link_inv base l" by (cases x) auto
  note wf = session_invD(1) [OF assms(2)]
  have st: "session_inv base (st\<lparr>Link := l\<rparr>)" by (rule session_inv_link [OF assms(2) l])
  show ?case unfolding x prod.case Let_def
    using st l wf
    by (auto intro!: ok_mono [OF Feed_safe] safe_mono [OF Drain_ok [OF assms(1) wf l]]
      safe_mono [OF use_ssh_ok [OF assms(1) l]] simp: session_inv_def)
qed

lemma ReadBurst_ok:
  assumes "env_ok env" and "session_inv base st"
  shows "safe (ReadBurst env lib n st) (session_inv base)"
  using assms(2)
proof (induction n arbitrary: st)
  case (Suc n)
  show ?case unfolding ReadBurst.simps safe_andthen
    by (rule safe_mono [OF ReadOnce_ok [OF assms(1) Suc.prems]]) (auto split: sum.splits intro: Suc.IH)
qed simp

lemma SendAll_ok:
  assumes "env_ok env" and "link_inv base l"
  shows "safe (SendAll env lib bytes l) (\<lambda>(status, l'). link_inv base l')"
  unfolding SendAll_def by (rule SendLoop_ok [OF assms])

lemma ReplyLoop_ok:
  assumes "env_ok env" and "session_inv base st"
  shows "safe (ReplyLoop env lib st) (session_inv base)"
  unfolding ReplyLoop_def
proof (rule safe_repeat [where I = "session_inv base"], rule assms(2), goal_cases)
  case (1 st)
  have take: "ok (WolfSshTerminalTakeResponse (Terminal st) 128) (\<lambda>(reply, t). wf_term t)"
    using TakeResponse_ok [OF session_invD(1) [OF 1], of 128] by (auto elim!: ok_mono dest: goodD)
  show ?case unfolding safe_andthen safe_lift
  proof (rule ok_mono [OF take], goal_cases)
    case (1 x)
    then obtain reply t where x: "x = (reply, t)" and t: "wf_term t" by (cases x) auto
    have st: "session_inv base (st\<lparr>Terminal := t\<rparr>)" using \<open>session_inv base st\<close> t by (rule session_inv_terminal)
    show ?case unfolding x prod.case Let_def
      using st session_inv_link [OF st]
      by (auto intro!: safe_mono [OF SendAll_ok [OF assms(1)]] simp: session_inv_def)
  qed
qed

lemma MappedKey_short: "MappedKey app scan = Some mapped \<Longrightarrow> length mapped \<le> 16"
  by (auto simp: MappedKey_def ascii_def Let_def split: if_splits)

lemma ReadKey_safe:
  "ok (WolfSshTerminalReadKey t (replicate 16 0) 16 status scan ch)
    (\<lambda>(status, len, localExit, buf). len \<le> 16 \<and> length buf = 16)"
proof (cases "EFI_ERROR status \<or> ch = 0x1d \<or> MappedKey (ApplicationCursor t) scan = None \<and> ch = 0")
  case True
  then show ?thesis by (auto simp: WolfSshTerminalReadKey_def split: option.splits)
next
  case False
  have "length (key_bytes (ApplicationCursor t) scan ch) \<le> 16"
    using MappedKey_short [of "ApplicationCursor t" scan]
    by (auto simp: key_bytes_def utf8_def split: option.splits)
  then show ?thesis
    using False ReadKey_ok [of status ch t scan 16 "replicate 16 0"]
    by (auto simp: read_result_def)
qed

lemma call_link:
  assumes "env_ok env" and "app_inv base a" and "rx_neutral c" and "plain_call c"
  shows "ok (call (Firmware env) c (Socket a)) (\<lambda>(r, s). app_inv base (a\<lparr>Socket := s\<rparr>))"
proof -
  obtain d where d: "streaming d (Socket a)" using app_inv_stream [OF assms(2)] by blast
  have fw: "conforming (Firmware env)" using assms(1) by (simp add: env_ok_def)
  show ?thesis
    by (rule ok_mono [OF call_kept [OF fw d assms(3,4)]]) (auto intro: app_inv_socket [OF assms(2)])
qed

lemma KeyTurn_ok:
  assumes "env_ok env" and "session_inv base st"
  shows "safe (KeyTurn env lib st) (\<lambda>r. case r of Inl st' \<Rightarrow> session_inv base st' | Inr st' \<Rightarrow> session_inv base st')"
proof (cases "Finished st")
  case True
  then show ?thesis using assms(2) by (simp add: KeyTurn_def)
next
  case False
  obtain ssh a where link: "Link st = (ssh, a)" by (cases "Link st")
  have a: "app_inv base a" using session_invD(2) [OF assms(2)] link by simp
  have call: "ok (call (Firmware env) ReadKeyStroke (Socket a)) (\<lambda>(r, s). app_inv base (a\<lparr>Socket := s\<rparr>))"
    by (rule call_link [OF assms(1) a]) (simp_all add: rx_neutral_def plain_call_def)
  have eq: "KeyTurn env lib st =
        andthen (lift (call (Firmware env) ReadKeyStroke (Socket a))) (\<lambda>(r, s).
        andthen (lift (WolfSshTerminalReadKey (Terminal st) (replicate 16 0) 16 (Status r)
                   (fst (KeyStroke r)) (snd (KeyStroke r)))) (\<lambda>(status, keyLength, localExit, buf).
          let st = st\<lparr>Link := (ssh, a\<lparr>Socket := s\<rparr>), SessionStatus := status\<rparr>
          in if status = EFI_NOT_READY then Returned (Inr (st\<lparr>SessionStatus := EFI_SUCCESS\<rparr>))
             else if EFI_ERROR status then Returned (Inr (st\<lparr>Finished := True\<rparr>))
             else if localExit then Returned (Inr (st\<lparr>Finished := True\<rparr>))
             else if keyLength \<noteq> 0 then
               andthen (SendAll env lib (take keyLength buf) (Link st)) (\<lambda>(status, l).
                 let st = st\<lparr>Link := l, SessionStatus := status\<rparr>
                 in if EFI_ERROR status then Returned (Inr (st\<lparr>Finished := True\<rparr>))
                    else Returned (Inl (st\<lparr>Activity := True\<rparr>)))
             else Returned (Inl st)))"
    using False link by (simp add: KeyTurn_def)
  show ?thesis unfolding eq safe_andthen safe_lift
  proof (rule ok_mono [OF call], goal_cases)
    case (1 x)
    then obtain r s where x: "x = (r, s)" and s: "app_inv base (a\<lparr>Socket := s\<rparr>)" by (cases x) auto
    have st: "session_inv base (st\<lparr>Link := (ssh, a\<lparr>Socket := s\<rparr>)\<rparr>)"
      using session_inv_link [OF assms(2)] s by simp
    show ?case unfolding x prod.case safe_andthen safe_lift
    proof (rule ok_mono [OF ReadKey_safe], goal_cases)
      case (1 y)
      obtain status len ex buf where y: "y = (status, len, ex, buf)" by (cases y) auto
      show ?case unfolding y prod.case Let_def
        using st s by (auto intro!: safe_mono [OF SendAll_ok [OF assms(1)]] simp: session_inv_def)
    qed
  qed
qed

lemma KeyLoop_ok:
  assumes "env_ok env" and "session_inv base st"
  shows "safe (KeyLoop env lib st) (session_inv base)"
  unfolding KeyLoop_def by (rule safe_repeat [where I = "session_inv base"]) (rule assms(2), rule KeyTurn_ok [OF assms(1)])

lemma SessionTurn_ok:
  assumes "env_ok env" and "session_inv base st"
  shows "safe (SessionTurn env lib st) (\<lambda>r. case r of Inl st' \<Rightarrow> session_inv base st' | Inr st' \<Rightarrow> session_inv base st')"
proof (cases "Finished st")
  case True
  then show ?thesis using assms(2) by (simp add: SessionTurn_def)
next
  case False
  obtain ssh a where link: "Link st = (ssh, a)" by (cases "Link st")
  have fw: "conforming (Firmware env)" using assms(1) by (simp add: env_ok_def)
  have a: "app_inv base a" using session_invD(2) [OF assms(2)] link by simp
  obtain d where d: "streaming d (Socket a)" using app_inv_stream [OF a] by blast
  obtain s where s: "WolfSshTcp4Poll (Firmware env) (Socket a) = Some s" "streaming d s" "kept_open (Socket a) s"
    using Poll_kept [OF fw d] by (auto simp: ok_def)
  let ?st = "st\<lparr>Activity := False, Link := (ssh, a\<lparr>Socket := s\<rparr>)\<rparr>"
  have st: "session_inv base ?st"
    using assms(2) app_inv_socket [OF a s(2,3)] by (simp add: session_inv_def)
  have wait: "safe (if \<not> Finished st' \<and> \<not> Activity st' then
        (case Link st' of (ssh, a) \<Rightarrow>
           andthen (lift (invoke (Firmware env) (Stall 5000) (Socket a))) (\<lambda>s.
             Returned (Inl (st'\<lparr>Link := (ssh, a\<lparr>Socket := s\<rparr>)\<rparr>))))
      else Returned (Inl st'))
      (\<lambda>r. case r of Inl st' \<Rightarrow> session_inv base st' | Inr st' \<Rightarrow> session_inv base st')"
    if st': "session_inv base st'" for st' :: "'a SESSION"
  proof -
    obtain ssh' a' where l: "Link st' = (ssh', a')" by (cases "Link st'")
    have "app_inv base a'" using session_invD(2) [OF st'] l by simp
    then have "ok (call (Firmware env) (Stall 5000) (Socket a')) (\<lambda>(r, s). app_inv base (a'\<lparr>Socket := s\<rparr>))"
      by (rule call_link [OF assms(1)]) (simp_all add: rx_neutral_def)
    then show ?thesis using st' l
      by (auto simp: invoke_ok_iff session_inv_def elim!: ok_mono)
  qed
  have flush: "safe (if Activity st' then lift (WolfSshTerminalFlush (Terminal st')) else Returned (Terminal st')) wf_term"
    if "session_inv base st'" for st' :: "'a SESSION"
    using Flush_safe [OF session_invD(1) [OF that]] session_invD(1) [OF that] by simp
  have eq: "SessionTurn env lib st =
      andthen (ReadBurst env lib 32 ?st) (\<lambda>st.
      andthen (if Activity st then lift (WolfSshTerminalFlush (Terminal st)) else Returned (Terminal st)) (\<lambda>t.
      andthen (ReplyLoop env lib (st\<lparr>Terminal := t\<rparr>)) (\<lambda>st.
      andthen (KeyLoop env lib st) (\<lambda>st.
        if \<not> Finished st \<and> \<not> Activity st then
          (case Link st of (ssh, a) \<Rightarrow>
             andthen (lift (invoke (Firmware env) (Stall 5000) (Socket a))) (\<lambda>s.
               Returned (Inl (st\<lparr>Link := (ssh, a\<lparr>Socket := s\<rparr>)\<rparr>))))
        else Returned (Inl st)))))"
    using False link s(1) by (simp add: SessionTurn_def)
  show ?thesis unfolding eq safe_andthen
  proof (rule safe_mono [OF ReadBurst_ok [OF assms(1) st]], goal_cases)
    case (1 s1)
    show ?case
    proof (rule safe_mono [OF flush [OF 1(2)]], goal_cases)
      case (1 t)
      have "session_inv base (s1\<lparr>Terminal := t\<rparr>)"
        using \<open>session_inv base s1\<close> 1(2) by (rule session_inv_terminal)
      then show ?case
        by (intro safe_mono [OF ReplyLoop_ok [OF assms(1)]] safe_mono [OF KeyLoop_ok [OF assms(1)]] wait)
    qed
  qed
qed

lemma RunSession_ok:
  assumes "env_ok env" and "pool_spec f" and "link_inv base l"
  shows "safe (RunInteractiveSession env lib f l) (\<lambda>(status, (calls, freed), l').
    link_inv base l' \<and> (ConOutPresent f \<and> pool_grants f \<longrightarrow> distinct freed \<and> set freed = Some ` UNIV))"
proof -
  show ?thesis unfolding RunInteractiveSession_def safe_andthen safe_lift
  proof (rule ok_mono [OF Create_wf [OF assms(2)]], goal_cases)
    case (1 created)
    show ?case
    proof (cases created)
      case (NotCreated calls freed)
      then show ?thesis using 1(2) assms(3) by auto
    next
      case (CreatedTerminal t)
      then have t: "wf_term t" using 1(2) by simp
      let ?st = "\<lparr>Terminal = t, Link = l, SessionStatus = EFI_SUCCESS, Finished = False, Activity = False\<rparr>"
      have st: "session_inv base ?st" using t assms(3) by (simp add: session_inv_def)
      have run: "safe (repeat (Turns env) (SessionTurn env lib) ?st) (session_inv base)"
        by (rule safe_repeat [where I = "session_inv base"]) (rule st, rule SessionTurn_ok [OF assms(1)])
      show ?thesis unfolding CreatedTerminal CREATED.case safe_andthen
      proof (rule safe_mono [OF run], goal_cases)
        case (1 st)
        show ?case unfolding safe_lift
          by (rule ok_mono [OF Flush_safe [OF session_invD(1) [OF 1(2)]]])
            (use Destroy_all session_invD(2) [OF 1(2)] in \<open>simp add: case_prod_unfold Let_def\<close>)
      qed
    qed
  qed
qed

section \<open>The whole program\<close>

text \<open>
  What the program leaves behind: everything the firmware handed out was given back. The calls to the
  library are properly nested: what a call created, if it succeeded, is opened by it and must be closed
  by the call that \<open>undo\<close> names, the most recent one first; nothing else may be freed and nothing may
  stay open.
\<close>

definition given_back :: "tcp4 \<Rightarrow> bool" where
  "given_back s \<longleftrightarrow> acquired (Log s) = released (Log s) \<and> owned s = {#} \<and> Protocol s = 0"

fun undo :: "'ssh PROGRAM \<Rightarrow> LIBRARY_CALL \<Rightarrow> LIBRARY_CALL option" where
  "undo p Init = (if InitResult p = WS_SUCCESS then Some LibraryCleanup else None)"
| "undo p NewContext = (if ContextCreated p then Some FreeContext else None)"
| "undo p NewSsh = (if SshCreated p = None then None else Some FreeSsh)"
| "undo p _ = None"

fun unwind :: "'ssh PROGRAM \<Rightarrow> LIBRARY_CALL list \<Rightarrow> LIBRARY_CALL list \<Rightarrow> LIBRARY_CALL list option" where
  "unwind p open [] = Some open"
| "unwind p open (c # cs) =
     (if c \<in> {FreeSsh, FreeContext, LibraryCleanup} then
        (case open of [] \<Rightarrow> None | f # open' \<Rightarrow> if f = c then unwind p open' cs else None)
      else unwind p (case undo p c of Some f \<Rightarrow> f # open | None \<Rightarrow> open) cs)"

definition calls_clean :: "'ssh PROGRAM \<Rightarrow> LIBRARY_CALL list \<Rightarrow> bool" where
  "calls_clean p calls \<longleftrightarrow> unwind p [] calls = Some [] \<and>
     (LibraryCleanup \<in> set calls \<longrightarrow> ClearPassword \<in> set (takeWhile (\<lambda>c. c \<noteq> LibraryCleanup) calls))"

definition left_clean :: "'ssh PROGRAM \<Rightarrow> EFI_STATUS \<times> auth option \<times> LIBRARY_CALL list \<Rightarrow> bool" where
  "left_clean p = (\<lambda>(status, a, calls). calls_clean p calls \<and>
     (\<forall>a'. a = Some a' \<longrightarrow> given_back (Socket a') \<and>
        (LibraryCleanup \<in> set calls \<longrightarrow> Password (Options a') = replicate 256 0)))"

text \<open>The paths of the program once the library is initialised.\<close>

lemma calls_clean_paths:
  assumes "InitResult p = WS_SUCCESS"
  shows "calls_clean p [Init, ClearPassword, LibraryCleanup]"
    and "\<not> ContextCreated p \<Longrightarrow> calls_clean p [Init, NewContext, ClearPassword, LibraryCleanup]"
    and "ContextCreated p \<Longrightarrow> SshCreated p = None \<Longrightarrow>
      calls_clean p [Init, NewContext, NewSsh, FreeContext, ClearPassword, LibraryCleanup]"
    and "ContextCreated p \<Longrightarrow> SshCreated p = Some ssh \<Longrightarrow>
      calls_clean p [Init, NewContext, NewSsh, FreeSsh, FreeContext, ClearPassword, LibraryCleanup]"
  using assms by (simp_all add: calls_clean_def)

lemma given_back_fresh: "fresh s \<Longrightarrow> balanced {#} s \<Longrightarrow> given_back s"
  by (simp add: fresh_def given_back_def balanced_def)

lemma CleanUp_unconnected:
  assumes "fresh (Socket a)" and "balanced {#} (Socket a)"
    and "calls_clean p (calls @ (if context then [FreeContext] else []) @ [ClearPassword, LibraryCleanup])"
  shows "safe (CleanUp p status context None a calls) (left_clean p)"
  using assms given_back_fresh [OF assms(1,2)]
  by (auto simp: CleanUp_def left_clean_def fresh_def Let_def)

lemma close_connected:
  assumes "conforming fw" and "app_inv base a" and "connected base" and "balanced {#} base"
  shows "ok (WolfSshTcp4Close fw True (Socket a)) given_back" and "Protocol (Socket a) \<noteq> 0"
proof -
  have k: "kept_open base (Socket a)" using assms(2) by (simp add: app_inv_def)
  have c: "connected (Socket a)" "balanced {#} (Socket a)"
    using kept_open_connected [OF k] kept_open_balanced [OF k] assms(3,4) by simp_all
  then show "Protocol (Socket a) \<noteq> 0" by (simp add: connected_def)
  obtain d where d: "streaming d (Socket a)" using app_inv_stream [OF assms(2)] by blast
  have "ok (WolfSshTcp4Close fw True (Socket a)) (\<lambda>s'. s' = ZeroSocket s' \<and>
      balanced {#} s' \<and> RxToken \<notin> outstanding (Log s'))"
    by (rule Close_ok [OF assms(1) streaming_buffer [OF d] c(2)]) (use c(1) in \<open>simp_all add: connected_def\<close>)
  then show "ok (WolfSshTcp4Close fw True (Socket a)) given_back"
    by (rule ok_mono) (auto intro: given_back_fresh closed_fresh)
qed

lemma CleanUp_connected:
  assumes "env_ok (Env p)" and "app_inv base a" and "connected base" and "balanced {#} base"
    and "calls_clean p (calls @ [FreeSsh, FreeContext, ClearPassword, LibraryCleanup])"
  shows "safe (CleanUp p status True (Some ssh) a calls) (left_clean p)"
proof -
  have fw: "conforming (Firmware (Env p))" using assms(1) by (simp add: env_ok_def)
  have shut: "safe (BestEffortShutdown (Env p) (Lib p) (ssh, a)) (link_inv base)"
    unfolding BestEffortShutdown_def by (rule ShutdownLoop_ok [OF assms(1)]) (use assms(2) in simp)
  show ?thesis unfolding CleanUp_def option.case safe_andthen
  proof (rule safe_mono [OF shut], goal_cases)
    case (1 l)
    obtain ssh' a' where l: "l = (ssh', a')" by (cases l)
    have a': "app_inv base a'" using 1(2) l by simp
    show ?case using l assms(5) close_connected [OF fw a' assms(3,4)] by (auto simp: Let_def left_clean_def elim!: ok_mono)
  qed
qed

lemma CleanUp_late:
  assumes "conforming (Firmware (Env p))" and "app_inv base a" and "connected base" and "balanced {#} base"
    and "calls_clean p (calls @ (if c then [FreeContext] else []) @ [ClearPassword, LibraryCleanup])"
  shows "safe (CleanUp p status c None a calls) (left_clean p)"
  using close_connected [OF assms(1-4)] assms(5)
  by (auto simp: CleanUp_def Let_def left_clean_def elim!: ok_mono)

lemma RunSsh_ok:
  assumes "env_ok (Env p)" and "app_inv base a" and "connected base" and "balanced {#} base"
    and "pool_spec (Console p)" and "calls_clean p (calls @ [FreeSsh, FreeContext, ClearPassword, LibraryCleanup])"
  shows "safe (RunSsh p ssh a calls) (left_clean p)"
proof -
  note clean = CleanUp_connected [OF assms(1) _ assms(3,4,6)]
  have connect: "safe (ConnectWolfSsh (Env p) (Lib p) (ssh', a)) (\<lambda>(status, l). link_inv base l)" for ssh'
    unfolding ConnectWolfSsh_def by (rule ConnectLoop_ok [OF assms(1)]) (use assms(2) in simp)
  have rest: "safe (andthen (ConnectWolfSsh (Env p) (Lib p) (ssh', a)) (\<lambda>(status, ssh, a).
        if EFI_ERROR status then CleanUp p status True (Some ssh) a calls
        else andthen (RunInteractiveSession (Env p) (Lib p) (Console p) (ssh, a)) (\<lambda>(status, _, ssh, a).
          CleanUp p status True (Some ssh) a calls))) (left_clean p)" for ssh'
    unfolding safe_andthen
  proof (rule safe_mono [OF connect], goal_cases)
    case (1 x)
    obtain status ssh1 a1 where x: "x = (status, ssh1, a1)" by (cases x) auto
    have a1: "app_inv base a1" using 1(2) x by simp
    have l1: "link_inv base (ssh1, a1)" using a1 by simp
    have run: "safe (RunInteractiveSession (Env p) (Lib p) (Console p) (ssh1, a1))
        (\<lambda>x. safe ((\<lambda>(status, _, ssh, a). CleanUp p status True (Some ssh) a calls) x) (left_clean p))"
      by (rule safe_mono [OF RunSession_ok [OF assms(1,5) l1]]) (auto intro: clean)
    show ?case unfolding x using clean [OF a1] run by simp
  qed
  show ?thesis using clean [OF assms(2)] rest by (simp add: RunSsh_def Let_def split: prod.split)
qed

lemma InitialSocket_ok: "fresh InitialSocket" "balanced {#} InitialSocket"
  by (simp_all add: InitialSocket_def ZeroSocket_def fresh_def wf_buffer_def owned_def balanced_def
    acquired_def released_def)

lemma UefiMain_ok:
  assumes "env_ok (Env p)" and "pool_spec (Console p)"
  shows "safe (UefiMain p) (left_clean p)"
proof -
  have fw: "conforming (Firmware (Env p))" using assms(1) by (simp add: env_ok_def)
  show ?thesis unfolding UefiMain_def safe_andthen safe_lift
  proof (rule ok_mono [OF ParseArguments_ok], goal_cases)
    case (1 parsed)
    show ?case
    proof (cases parsed)
      case (Inl e)
      then show ?thesis by (simp add: left_clean_def calls_clean_def)
    next
      case (Inr opts)
      then have wf: "wf_options opts" using 1(2) by simp
      let ?a = "InitialAuth opts"
      have sock: "Socket ?a = InitialSocket" by (simp add: InitialAuth_def)
      have g: "given_back (Socket ?a)" using given_back_fresh [OF InitialSocket_ok] sock by simp
      have test: "ok (WolfSshTerminalSelfTest (Sprint (Env p)) (Console p)) (\<lambda>x.
          safe ((\<lambda>(status, _). CleanUp p status False None ?a [Init]) x) (left_clean p))" if init: "InitResult p = WS_SUCCESS"
        by (rule ok_mono [OF SelfTest_ok [OF assms(2)]])
          (use InitialSocket_ok sock calls_clean_paths(1) [OF init] in \<open>auto intro!: CleanUp_unconnected\<close>)
      have attempt: "ok (WolfSshTcp4Connect (Firmware (Env p)) (Address opts) (Port opts) (Socket ?a)) (attempted {#})"
        by (rule Connect_ok [OF fw]) (use InitialSocket_ok sock in simp_all)
      have connect: "ok (WolfSshTcp4Connect (Firmware (Env p)) (Address opts) (Port opts) (Socket ?a)) (\<lambda>x.
          safe ((\<lambda>(status, s). let a = ?a\<lparr>Socket := s\<rparr>
              in if EFI_ERROR status then CleanUp p status False None a [Init]
              else if \<not> ContextCreated p then CleanUp p EFI_OUT_OF_RESOURCES False None a [Init, NewContext]
              else case SshCreated p of
                None \<Rightarrow> CleanUp p EFI_OUT_OF_RESOURCES True None a [Init, NewContext, NewSsh]
              | Some ssh \<Rightarrow> RunSsh p ssh a [Init, NewContext, NewSsh]) x) (left_clean p))"
        if init: "InitResult p = WS_SUCCESS"
      proof (rule ok_mono [OF attempt], goal_cases)
        case (1 x)
        obtain status s where x: "x = (status, s)" by (cases x)
        show ?case
        proof (cases "EFI_ERROR status")
          case True
          then have "fresh s" "balanced {#} s" using 1(2) x by (auto simp: attempted_def)
          then show ?thesis using x True calls_clean_paths(1) [OF init] by (auto simp: Let_def intro!: CleanUp_unconnected)
        next
          case False
          then obtain d where d: "streaming d s" "connected s" "balanced {#} s"
            using 1(2) x by (auto simp: attempted_def)
          let ?s = "?a\<lparr>Socket := s\<rparr>"
          have s: "app_inv s ?s" using d(1) wf by (auto simp: app_inv_def auth_inv_def InitialAuth_def)
          have failed: "safe (CleanUp p status' c None ?s calls) (left_clean p)"
            if "calls_clean p (calls @ (if c then [FreeContext] else []) @ [ClearPassword, LibraryCleanup])"
            for status' c calls
            using that CleanUp_late [OF fw s d(2,3)] by simp
          show ?thesis using x False RunSsh_ok [OF assms(1) s d(2,3) assms(2)] calls_clean_paths [OF init]
            by (auto simp: Let_def split: option.split intro!: failed)
        qed
      qed
      have early: "calls_clean p []" "InitResult p \<noteq> WS_SUCCESS \<Longrightarrow> calls_clean p [Init]"
        by (simp_all add: calls_clean_def)
      show ?thesis using Inr g test connect early by (simp add: left_clean_def Let_def)
    qed
  qed
qed

text \<open>
  The way out when there are no random numbers passes the label by: the password of the command line
  stays in memory.
\<close>

lemma UefiMain_without_random:
  assumes "WolfSshParseArguments (Ip4 p) (ShellStatus p) (Arguments p) = Some (Inr opts)" and "\<not> Help opts"
    and "EFI_ERROR (fst (Rng p))"
  shows "UefiMain p = Returned (EFI_UNSUPPORTED, Some (InitialAuth opts), [])"
  using assms by (simp add: UefiMain_def UefiRandomGenerateBlock_def Let_def)

end
