(* ===== verification/Session_Data.thy ===== *)
theory Session_Data
  imports Session_Safe
begin

text \<open>
  The data of a session: everything handed to \<open>SendAll\<close> is sent once and in order, and everything
  wolfSSH delivers reaches the terminal emulator once and in order.
\<close>

section \<open>What wolfSSH promises of its data\<close>

text \<open>A property of every answer an interaction can end with.\<close>

primrec answers :: "('a \<Rightarrow> bool) \<Rightarrow> 'a interaction \<Rightarrow> bool" where
  "answers P (Answer x) = P x"
| "answers P (OnReceive n k) = (\<forall>r. answers P (k r))"
| "answers P (OnSend bytes k) = (\<forall>r. answers P (k r))"
| "answers P (OnHostKey key k) = (\<forall>r. answers P (k r))"
| "answers P (OnUserAuth authType k) = (\<forall>r. answers P (k r))"

lemma perform_answers: "answers P t \<Longrightarrow> perform env t a = Returned (x, a') \<Longrightarrow> P x"
  by (induction t arbitrary: a) (fastforce simp: andthen_Returned)+

text \<open>
  The documented behaviour of the data functions. \<open>accepted\<close> are the bytes taken for sending so far
  and \<open>delivered\<close> those handed out; sending takes a prefix of what it is given, reading adds what it
  returns, and the worker does neither.
\<close>

definition sends :: "'ssh WOLFSSH \<Rightarrow> ('ssh \<Rightarrow> UINT8 list) \<Rightarrow> bool" where
  "sends lib accepted \<longleftrightarrow> (\<forall>ssh bytes.
     answers (\<lambda>(res, ssh'). case res of
         Inr n \<Rightarrow> n \<le> length bytes \<and> accepted ssh' = accepted ssh @ take n bytes
       | Inl _ \<Rightarrow> accepted ssh' = accepted ssh) (wolfSSH_stream_send lib bytes ssh) \<and>
     answers (\<lambda>(_, ssh'). accepted ssh' = accepted ssh) (wolfSSH_worker lib ssh))"

definition delivers :: "'ssh WOLFSSH \<Rightarrow> ('ssh \<Rightarrow> UINT8 list) \<Rightarrow> bool" where
  "delivers lib delivered \<longleftrightarrow> (\<forall>ssh n.
     answers (\<lambda>(res, ssh'). delivered ssh' = delivered ssh @ (case res of Inr bytes \<Rightarrow> bytes | Inl _ \<Rightarrow> []))
       (wolfSSH_stream_read lib n ssh) \<and>
     answers (\<lambda>(res, ssh'). delivered ssh' = delivered ssh @ (case res of Inr bytes \<Rightarrow> bytes | Inl _ \<Rightarrow> []))
       (wolfSSH_extended_data_read lib n ssh) \<and>
     answers (\<lambda>(_, ssh'). delivered ssh' = delivered ssh) (wolfSSH_worker lib ssh))"

lemma use_ssh_answers:
  assumes "env_ok env" and "link_alive live base l" and "answers P (f (fst l))"
  shows "holds live (use_ssh env f l) (\<lambda>(x, l'). link_alive live base l' \<and> P (x, fst l'))"
proof -
  have "\<forall>x a'. perform env (f (fst l)) (snd l) = Returned (x, a') \<longrightarrow> P x"
    using perform_answers [OF assms(3)] by blast
  then show ?thesis using perform_alive [OF assms(1), of live base "snd l" "f (fst l)"] assms(2)
    by (cases "perform env (f (fst l)) (snd l)") (auto simp: use_ssh_def link_alive_def case_prod_unfold)
qed

lemmas use_ssh_safe = use_ssh_answers [where live = False, unfolded holds_safe link_alive_safe]

section \<open>Sending\<close>

text \<open>
  Sending \<open>bytes\<close> adds all of them to what was accepted before, or fails after a proper prefix.
\<close>

definition sent_up_to :: "('ssh \<Rightarrow> UINT8 list) \<Rightarrow> UINT8 list \<Rightarrow> UINT8 list \<Rightarrow> EFI_STATUS \<times> 'ssh link \<Rightarrow> bool" where
  "sent_up_to accepted before bytes = (\<lambda>(status, l).
     status = EFI_SUCCESS \<and> accepted (fst l) = before @ bytes \<or>
     status = EFI_DEVICE_ERROR \<and> (\<exists>n < length bytes. accepted (fst l) = before @ take n bytes))"

lemma SendAll_sends:
  assumes "env_ok env" and "sends lib accepted" and "link_alive live base l"
  shows "holds live (SendAll env lib bytes l) (\<lambda>(status, l'). link_alive live base l' \<and>
    sent_up_to accepted (accepted (fst l)) bytes (status, l'))"
proof -
  let ?I = "\<lambda>n l'. link_alive live base l' \<and> n \<le> length bytes \<and> accepted (fst l') = accepted (fst l) @ take n bytes"
  have send: "holds live (use_ssh env (wolfSSH_stream_send lib (drop offset bytes)) l1) (\<lambda>(res, l').
        case res of Inr n \<Rightarrow> ?I (offset + n) l' | Inl _ \<Rightarrow> ?I offset l')"
    if I: "?I offset l1" and lt: "offset < length bytes" for offset l1
  proof -
    have ans: "answers (\<lambda>(res, ssh'). case res of
         Inr n \<Rightarrow> n \<le> length (drop offset bytes) \<and> accepted ssh' = accepted (fst l1) @ take n (drop offset bytes)
       | Inl _ \<Rightarrow> accepted ssh' = accepted (fst l1)) (wolfSSH_stream_send lib (drop offset bytes) (fst l1))"
      using assms(2) unfolding sends_def by blast
    show ?thesis
      by (rule holds_mono [OF use_ssh_answers [OF assms(1) conjunct1 [OF I],
            where f = "wolfSSH_stream_send lib (drop offset bytes)", OF ans]])
        (use I lt in \<open>auto simp: take_add split: sum.splits\<close>)
  qed
  have worker: "holds live (use_ssh env (wolfSSH_worker lib) l1) (\<lambda>(code, l'). ?I offset l')" if I: "?I offset l1" for offset l1
  proof -
    have ans: "answers (\<lambda>(_, ssh'). accepted ssh' = accepted (fst l1)) (wolfSSH_worker lib (fst l1))"
      using assms(2) by (simp add: sends_def)
    show ?thesis
      by (rule holds_mono [OF use_ssh_answers [OF assms(1) conjunct1 [OF I], where f = "wolfSSH_worker lib", OF ans]])
        (use I in auto)
  qed
  have poll: "holds live (poll_and_stall env l1) (?I offset)" if I: "?I offset l1" for offset l1
    by (rule holds_mono [OF poll_and_stall_alive [OF assms(1) conjunct1 [OF I]]]) (use I in auto)
  have "holds live (SendLoop env lib bytes 0 0 l) (\<lambda>(status, l'). \<exists>n. ?I n l' \<and>
      (if length bytes \<le> n then status = EFI_SUCCESS else status = EFI_DEVICE_ERROR))"
    by (rule SendLoop_rule [where I = ?I]) (rule send worker poll | assumption | use assms(3) in simp)+
  then show ?thesis unfolding SendAll_def
    by (rule holds_mono) (auto simp: sent_up_to_def not_le split: if_splits)
qed

section \<open>Replies and keys\<close>

text \<open>The state of a session whose interactions end when \<open>live\<close> is true.\<close>

definition session_alive :: "bool \<Rightarrow> tcp4 \<Rightarrow> 'ssh SESSION \<Rightarrow> bool" where
  "session_alive live base st \<longleftrightarrow> wf_term (Terminal st) \<and> link_alive live base (Link st)"

text \<open>
  The loop for the emulator's replies sends all that are pending and leaves none, or the session ends
  with an error after a prefix. Two turns suffice.
\<close>

definition replied :: "('ssh \<Rightarrow> UINT8 list) \<Rightarrow> 'ssh SESSION \<Rightarrow> 'ssh SESSION \<Rightarrow> bool" where
  "replied accepted st st' \<longleftrightarrow> pending (Terminal st') = [] \<and>
     (Finished st' = Finished st \<and> accepted (fst (Link st')) = accepted (fst (Link st)) @ pending (Terminal st) \<or>
      Finished st' \<and> EFI_ERROR (SessionStatus st') \<and> (\<exists>n < length (pending (Terminal st)).
        accepted (fst (Link st')) = accepted (fst (Link st)) @ take n (pending (Terminal st))))"

lemma ReplyLoop_replies:
  assumes "env_ok env" and "sends lib accepted" and "session_alive live base st" and "2 \<le> Turns env"
  shows "holds live (ReplyLoop env lib st) (\<lambda>st'. session_alive live base st' \<and> replied accepted st st')"
  unfolding ReplyLoop_def
proof (rule holds_repeat [where weight = "\<lambda>st'. if pending (Terminal st') = [] then 0 else 1"
      and I = "\<lambda>st'. session_alive live base st' \<and> Finished st' = Finished st \<and>
        (st' = st \<or> pending (Terminal st') = [] \<and>
         accepted (fst (Link st')) = accepted (fst (Link st)) @ pending (Terminal st))"], goal_cases)
  case (3 s1)
  have wf: "wf_term (Terminal s1)" and alive: "link_alive live base (Link s1)"
    using 3 by (simp_all add: session_alive_def)
  obtain t where t: "WolfSshTerminalTakeResponse (Terminal s1) 128 = Some (pending (Terminal s1), t)"
    "wf_term t" "pending t = []"
    using TakeResponse_ok [OF wf, of 128] wf_replies_le [OF wf]
    by (auto simp: ok_def pending_def dest: goodD)
  show ?case
  proof (cases "pending (Terminal s1) = []")
    case True
    then show ?thesis using 3 t alive by (auto simp: Let_def session_alive_def replied_def)
  next
    case False
    then have st: "s1 = st" using 3 by auto
    have link: "link_alive live base (Link st)" using alive st by simp
    show ?thesis using False t unfolding st
      by (auto simp: Let_def session_alive_def replied_def sent_up_to_def
        intro!: holds_mono [OF SendAll_sends [OF assms(1,2) link]])
  qed
qed (use assms in auto)

text \<open>A reply that is sent replaces the status of the session, also one that reports an error.\<close>

lemma ReplyLoop_status:
  assumes "WolfSshTerminalTakeResponse (Terminal st) 128 = Some (reply, t)" and "reply \<noteq> []"
    and "SendAll env lib reply (Link st) = Returned (EFI_SUCCESS, l)"
    and "WolfSshTerminalTakeResponse t 128 = Some ([], t')" and "Turns env = Suc (Suc n)"
  shows "ReplyLoop env lib st = Returned (st\<lparr>Terminal := t', Link := l, SessionStatus := EFI_SUCCESS\<rparr>)"
  using assms by (simp add: ReplyLoop_def Let_def)

text \<open>
  What a turn of the key loop does with a key: Ctrl-] ends the session and sends nothing; every other
  key with bytes to send sends them.
\<close>

lemma KeyTurn_eq:
  assumes "\<not> Finished st" and "Link st = (ssh, a)" and "call (Firmware env) ReadKeyStroke (Socket a) = Some (r, s)"
    and "\<not> EFI_ERROR (Status r)"
  shows "snd (KeyStroke r) = 0x1d \<Longrightarrow> KeyTurn env lib st = Returned (Inr (st\<lparr>Link := (ssh, a\<lparr>Socket := s\<rparr>),
      SessionStatus := EFI_SUCCESS, Finished := True\<rparr>))"
    and "snd (KeyStroke r) \<noteq> 0x1d \<Longrightarrow>
      MappedKey (ApplicationCursor (Terminal st)) (fst (KeyStroke r)) \<noteq> None \<or> snd (KeyStroke r) \<noteq> 0 \<Longrightarrow>
      KeyTurn env lib st =
        andthen (SendAll env lib (key_bytes (ApplicationCursor (Terminal st)) (fst (KeyStroke r)) (snd (KeyStroke r)))
            (ssh, a\<lparr>Socket := s\<rparr>)) (\<lambda>(status, l).
          let st = st\<lparr>Link := l, SessionStatus := status\<rparr>
          in if EFI_ERROR status then Returned (Inr (st\<lparr>Finished := True\<rparr>))
             else Returned (Inl (st\<lparr>Activity := True\<rparr>)))"
proof -
  let ?bytes = "key_bytes (ApplicationCursor (Terminal st)) (fst (KeyStroke r)) (snd (KeyStroke r))"
  show "KeyTurn env lib st = Returned (Inr (st\<lparr>Link := (ssh, a\<lparr>Socket := s\<rparr>),
      SessionStatus := EFI_SUCCESS, Finished := True\<rparr>))" if "snd (KeyStroke r) = 0x1d"
    using assms that by (simp add: KeyTurn_def WolfSshTerminalReadKey_def Let_def)
  assume k: "snd (KeyStroke r) \<noteq> 0x1d"
    "MappedKey (ApplicationCursor (Terminal st)) (fst (KeyStroke r)) \<noteq> None \<or> snd (KeyStroke r) \<noteq> 0"
  have len: "length ?bytes \<le> 16" "?bytes \<noteq> []"
    using MappedKey_short [of "ApplicationCursor (Terminal st)" "fst (KeyStroke r)"]
    by (auto simp: key_bytes_def utf8_def MappedKey_def ascii_def Let_def split: option.splits if_splits)
  have key: "WolfSshTerminalReadKey (Terminal st) (replicate 16 0) 16 (Status r) (fst (KeyStroke r)) (snd (KeyStroke r)) =
      Some (EFI_SUCCESS, length ?bytes, False, ?bytes @ drop (length ?bytes) (replicate 16 0))"
    using ReadKey_ok [OF assms(4) k, of 16 "replicate 16 0"] len by (simp add: read_result_def)
  show "KeyTurn env lib st = andthen (SendAll env lib ?bytes (ssh, a\<lparr>Socket := s\<rparr>)) (\<lambda>(status, l).
          let st = st\<lparr>Link := l, SessionStatus := status\<rparr>
          in if EFI_ERROR status then Returned (Inr (st\<lparr>Finished := True\<rparr>))
             else Returned (Inl (st\<lparr>Activity := True\<rparr>)))"
    using assms key len by (simp add: KeyTurn_def Let_def)
qed

text \<open>A key without bytes is dropped, and the loop waits for the next turn of the session.\<close>

lemma KeyTurn_unmapped:
  assumes "\<not> Finished st" and "Link st = (ssh, a)" and "call (Firmware env) ReadKeyStroke (Socket a) = Some (r, s)"
    and "\<not> EFI_ERROR (Status r)" and "snd (KeyStroke r) = 0"
    and "MappedKey (ApplicationCursor (Terminal st)) (fst (KeyStroke r)) = None"
  shows "KeyTurn env lib st = Returned (Inr (st\<lparr>Link := (ssh, a\<lparr>Socket := s\<rparr>), SessionStatus := EFI_SUCCESS\<rparr>))"
  using assms by (simp add: KeyTurn_def WolfSshTerminalReadKey_def Let_def)

text \<open>What became of a key that has bytes to send.\<close>

definition key_sent :: "('ssh \<Rightarrow> UINT8 list) \<Rightarrow> UINT8 list \<Rightarrow> 'ssh SESSION \<Rightarrow> 'ssh SESSION + 'ssh SESSION \<Rightarrow> bool" where
  "key_sent accepted bytes st = (\<lambda>r. case r of
       Inl st' \<Rightarrow> \<not> Finished st' \<and> accepted (fst (Link st')) = accepted (fst (Link st)) @ bytes
     | Inr st' \<Rightarrow> Finished st' \<and> EFI_ERROR (SessionStatus st') \<and>
         (\<exists>n < length bytes. accepted (fst (Link st')) = accepted (fst (Link st)) @ take n bytes))"

lemma KeyTurn_sends:
  assumes "env_ok env" and "sends lib accepted" and "session_alive live base st" and "\<not> Finished st"
    and "Link st = (ssh, a)" and r: "r = Firmware env (Log (Socket a)) ReadKeyStroke" and "\<not> EFI_ERROR (Status r)"
  defines "app \<equiv> ApplicationCursor (Terminal st)" and "scan \<equiv> fst (KeyStroke r)" and "ch \<equiv> snd (KeyStroke r)"
  shows "if ch = 0x1d then \<exists>st'. KeyTurn env lib st = Returned (Inr st') \<and>
        Finished st' \<and> SessionStatus st' = EFI_SUCCESS \<and> fst (Link st') = ssh
      else if ch = 0 \<and> MappedKey app scan = None then \<exists>st'. KeyTurn env lib st = Returned (Inr st') \<and>
        \<not> Finished st' \<and> SessionStatus st' = EFI_SUCCESS \<and> fst (Link st') = ssh
      else holds live (KeyTurn env lib st) (key_sent accepted (key_bytes app scan ch) st)"
proof -
  have a: "alive live base a" using assms(3,5) by (simp add: session_alive_def link_alive_def)
  obtain d where d: "streaming d (Socket a)" using app_inv_stream [OF alive_inv [OF a]] by blast
  have fw: "conforming (Firmware env)" using assms(1) by (simp add: env_ok_def)
  obtain s where s: "call (Firmware env) ReadKeyStroke (Socket a) = Some (r, s)" "streaming d s" "kept_open (Socket a) s"
    using call_kept [OF fw d, of ReadKeyStroke] r by (auto simp: ok_def rx_neutral_def plain_call_def)
  have link: "link_alive live base (ssh, a\<lparr>Socket := s\<rparr>)"
    using alive_socket [OF a s(2,3)] by (simp add: link_alive_def)
  note key = KeyTurn_eq [where lib = lib, OF assms(4,5) s(1) assms(7)]
    and none = KeyTurn_unmapped [where lib = lib, OF assms(4,5) s(1) assms(7)]
  show ?thesis
  proof (cases "ch = 0x1d \<or> ch = 0 \<and> MappedKey app scan = None")
    case True
    then show ?thesis using key(1) none assms(4) by (auto simp: app_def scan_def ch_def)
  next
    case False
    then have "KeyTurn env lib st = andthen (SendAll env lib (key_bytes app scan ch) (ssh, a\<lparr>Socket := s\<rparr>)) (\<lambda>(status, l).
          let st = st\<lparr>Link := l, SessionStatus := status\<rparr>
          in if EFI_ERROR status then Returned (Inr (st\<lparr>Finished := True\<rparr>))
             else Returned (Inl (st\<lparr>Activity := True\<rparr>)))"
      using key(2) unfolding app_def scan_def ch_def by blast
    then show ?thesis using False assms(4,5)
      by (auto simp: Let_def key_sent_def sent_up_to_def intro!: holds_mono [OF SendAll_sends [OF assms(1,2) link]])
  qed
qed

section \<open>Displaying\<close>

text \<open>The emulator got exactly the data delivered between two states, in order.\<close>

definition shown_to ::
  "print_lib \<Rightarrow> ('ssh \<Rightarrow> UINT8 list) \<Rightarrow> 'ssh \<times> term_state \<Rightarrow> 'ssh \<times> term_state \<Rightarrow> bool" where
  "shown_to sprint delivered = (\<lambda>(ssh, t) (ssh', t'). \<exists>bytes. delivered ssh' = delivered ssh @ bytes \<and>
     WolfSshTerminalFeed sprint t bytes = Some t')"

lemma shown_to_refl: "delivered ssh' = delivered ssh \<Longrightarrow> shown_to sprint delivered (ssh, t) (ssh', t)"
  by (auto simp: shown_to_def WolfSshTerminalFeed_def intro!: exI [of _ "[]"])

lemma shown_to_trans:
  "shown_to sprint delivered x y \<Longrightarrow> shown_to sprint delivered y z \<Longrightarrow> shown_to sprint delivered x z"
  by (fastforce simp: shown_to_def Feed_append)

lemma shown_to_feed:
  "delivered ssh' = delivered ssh @ bytes \<Longrightarrow> WolfSshTerminalFeed sprint t bytes = Some t' \<Longrightarrow>
   shown_to sprint delivered (ssh, t) (ssh', t')"
  by (auto simp: shown_to_def)

lemma Drain_shows:
  assumes "env_ok env" and "delivers lib delivered" and "wf_term t" and "link_inv base l"
  shows "safe (DrainExtendedData env lib (t, l)) (\<lambda>(status, t', l'). wf_term t' \<and> link_inv base l' \<and>
    shown_to (Sprint env) delivered (fst l, t) (fst l', t'))"
  unfolding DrainExtendedData_def
proof (rule safe_repeat [where I = "\<lambda>(t', l'). wf_term t' \<and> link_inv base l' \<and>
    shown_to (Sprint env) delivered (fst l, t) (fst l', t')"], goal_cases)
  case (2 st)
  obtain t1 l1 where st: "st = (t1, l1)" "wf_term t1" "link_inv base l1"
    "shown_to (Sprint env) delivered (fst l, t) (fst l1, t1)"
    using 2 by (cases st) auto
  have ans: "answers (\<lambda>(res, ssh'). delivered ssh' = delivered (fst l1) @ (case res of Inr bytes \<Rightarrow> bytes | Inl _ \<Rightarrow> []))
       (wolfSSH_extended_data_read lib 1024 (fst l1))"
    using assms(2) unfolding delivers_def by blast
  show ?case unfolding st(1) prod.case safe_andthen
  proof (rule safe_mono [OF use_ssh_safe [OF assms(1) st(3), where f = "wolfSSH_extended_data_read lib 1024", OF ans]], goal_cases)
    case (1 x)
    obtain res l2 where x: "x = (res, l2)" by (cases x)
    have l2: "link_inv base l2" using 1(2) x by simp
    show ?case
    proof (cases res)
      case (Inl code)
      then have "shown_to (Sprint env) delivered (fst l1, t1) (fst l2, t1)"
        using 1(2) x by (intro shown_to_refl) simp
      then show ?thesis using st l2 x Inl shown_to_trans by simp
    next
      case (Inr bytes)
      obtain t2 where t2: "WolfSshTerminalFeed (Sprint env) t1 bytes = Some t2" "wf_term t2"
        using Feed_safe [OF st(2), of "Sprint env" bytes] by (auto simp: ok_def)
      have "shown_to (Sprint env) delivered (fst l1, t1) (fst l2, t2)"
        using 1(2) x Inr t2(1) by (intro shown_to_feed) simp_all
      then have "shown_to (Sprint env) delivered (fst l, t) (fst l2, t2)"
        by (rule shown_to_trans [OF st(4)])
      moreover have "bytes = [] \<Longrightarrow> t2 = t1" using t2(1) by (simp add: WolfSshTerminalFeed_def)
      ultimately show ?thesis using st l2 x Inr t2 by auto
    qed
  qed
qed (use assms in \<open>auto intro: shown_to_refl\<close>)

abbreviation (input) screen :: "'ssh SESSION \<Rightarrow> 'ssh \<times> term_state" where
  "screen st \<equiv> (fst (Link st), Terminal st)"

lemma ReadOnce_shows:
  assumes "env_ok env" and "delivers lib delivered" and "session_inv base st"
  shows "safe (ReadOnce env lib st) (\<lambda>r. case r of
      Inl st' \<Rightarrow> session_inv base st' \<and> shown_to (Sprint env) delivered (screen st) (screen st')
    | Inr st' \<Rightarrow> session_inv base st' \<and> shown_to (Sprint env) delivered (screen st) (screen st'))"
proof -
  have ans: "answers (\<lambda>(res, ssh'). delivered ssh' = delivered (fst (Link st)) @ (case res of Inr bytes \<Rightarrow> bytes | Inl _ \<Rightarrow> []))
       (wolfSSH_stream_read lib 4096 (fst (Link st)))"
    using assms(2) unfolding delivers_def by blast
  have wans: "answers (\<lambda>(_, ssh'). delivered ssh' = delivered (fst l)) (wolfSSH_worker lib (fst l))" for l :: "'a link"
    using assms(2) unfolding delivers_def by blast
  note wf = session_invD(1) [OF assms(3)]
  show ?thesis unfolding ReadOnce_def safe_andthen
  proof (rule safe_mono [OF use_ssh_safe [OF assms(1) session_invD(2) [OF assms(3)], where f = "wolfSSH_stream_read lib 4096", OF ans]], goal_cases)
    case (1 x)
    then obtain res l where x: "x = (res, l)" and l: "link_inv base l"
      and del: "delivered (fst l) = delivered (fst (Link st)) @ (case res of Inr bytes \<Rightarrow> bytes | Inl _ \<Rightarrow> [])"
      by (cases x) auto
    show ?case
    proof (cases "\<exists>b bs. res = Inr (b # bs)")
      case True
      then obtain b bs where res: "res = Inr (b # bs)" by blast
      obtain t where t: "WolfSshTerminalFeed (Sprint env) (Terminal st) (b # bs) = Some t" "wf_term t"
        using Feed_safe [OF wf, of "Sprint env" "b # bs"] by (auto simp: ok_def)
      then show ?thesis using del l x res by (simp add: session_inv_def shown_to_feed)
    next
      case False
      then have empty: "(case res of Inr bytes \<Rightarrow> bytes | Inl _ \<Rightarrow> []) = []"
        by (auto split: sum.split intro: list.exhaust)
      then have "delivered (fst l) = delivered (fst (Link st))" using del by simp
      then have same: "shown_to (Sprint env) delivered (screen st) (fst l, Terminal st)" by (rule shown_to_refl)
      show ?thesis unfolding x prod.case Let_def empty
        using same l wf
        by (auto intro!: safe_mono [OF Drain_shows [OF assms(1,2) wf l]]
          safe_mono [OF use_ssh_safe [OF assms(1) l, where f = "wolfSSH_worker lib", OF wans]] simp: session_inv_def
          intro: shown_to_trans shown_to_refl shown_to_trans [OF same shown_to_refl])
    qed
  qed
qed

lemma ReadBurst_shows:
  assumes "env_ok env" and "delivers lib delivered" and "session_inv base st"
  shows "safe (ReadBurst env lib n st) (\<lambda>st'. session_inv base st' \<and>
    shown_to (Sprint env) delivered (screen st) (screen st'))"
  using assms(3)
proof (induction n arbitrary: st)
  case (Suc n)
  show ?case unfolding ReadBurst.simps safe_andthen
  proof (rule safe_mono [OF ReadOnce_shows [OF assms(1,2) Suc.prems]], goal_cases)
    case (1 r)
    show ?case
    proof (cases r)
      case (Inl st1)
      then have "safe (ReadBurst env lib n st1) (\<lambda>st'. session_inv base st' \<and>
          shown_to (Sprint env) delivered (screen st1) (screen st'))"
        using 1(2) Suc.IH by simp
      then show ?thesis using 1(2) Inl by (auto elim!: safe_mono intro: shown_to_trans)
    next
      case (Inr st1)
      then show ?thesis using 1(2) by simp
    qed
  qed
qed (simp add: shown_to_refl)

end
