(* ===== verification/Tcp4_Channel.thy ===== *)
theory Tcp4_Channel
  imports Tcp4_Open
begin

text \<open>
  The transport as its user sees it: a channel on which receiving, sending and polling are mixed in
  any order, and of which the received bytes come out once and in order.
\<close>

section \<open>The interface\<close>

text \<open>
  \<open>transfers step\<close> carries out a list of operations and collects the bytes they hand out. The contract:
  \<open>inv d s\<close> says that \<open>d\<close> was handed out so far, and then what has \<open>arrived\<close> is \<open>d\<close> and what is \<open>waiting\<close>.
\<close>

fun transfers :: "('op \<Rightarrow> 's \<Rightarrow> ('b list \<times> 's) option) \<Rightarrow> 'op list \<Rightarrow> 's \<Rightarrow> ('b list \<times> 's) option" where
  "transfers step [] s = Some ([], s)"
| "transfers step (op # ops) s = do {
     (bytes, s) \<leftarrow> step op s;
     (more, s) \<leftarrow> transfers step ops s;
     Some (bytes @ more, s) }"

locale byte_channel =
  fixes step :: "'op \<Rightarrow> 's \<Rightarrow> ('b list \<times> 's) option"
    and inv :: "'b list \<Rightarrow> 's \<Rightarrow> bool"
    and arrived :: "'s \<Rightarrow> 'b list"
    and waiting :: "'s \<Rightarrow> 'b list"
  assumes step_keeps: "inv d s \<Longrightarrow> ok (step op s) (\<lambda>(bytes, s'). inv (d @ bytes) s')"
    and all_bytes: "inv d s \<Longrightarrow> arrived s = d @ waiting s"
begin

lemma transfers_keep: "inv d s \<Longrightarrow> ok (transfers step ops s) (\<lambda>(bytes, s'). inv (d @ bytes) s')"
proof (induction ops arbitrary: d s)
  case (Cons op ops)
  obtain bytes s1 where s1: "step op s = Some (bytes, s1)" "inv (d @ bytes) s1"
    using step_keeps [OF Cons.prems, of op] by (auto simp: ok_def)
  then show ?case using Cons.IH [OF s1(2)] by (auto simp: ok_def)
qed simp

lemma nothing_lost:
  "inv d s \<Longrightarrow> ok (transfers step ops s) (\<lambda>(bytes, s'). arrived s' = d @ bytes @ waiting s')"
  by (rule ok_mono [OF transfers_keep]) (auto dest: all_bytes)

end

section \<open>The socket as a channel\<close>

datatype SOCKET_OP = RecvOp nat | SendOp "UINT8 list" | PollOp

fun socket_step :: "firmware \<Rightarrow> SOCKET_OP \<Rightarrow> tcp4 \<Rightarrow> (UINT8 list \<times> tcp4) option" where
  "socket_step fw (RecvOp n) s = map_option (\<lambda>(res, bytes, s'). (bytes, s')) (WolfSshTcp4RecvCallback fw n s)"
| "socket_step fw (SendOp bytes) s = map_option (\<lambda>(res, s'). ([], s')) (WolfSshTcp4SendCallback fw bytes s)"
| "socket_step fw PollOp s = map_option (\<lambda>s'. ([], s')) (WolfSshTcp4Poll fw s)"

definition channel_inv :: "firmware \<Rightarrow> tcp4 \<Rightarrow> UINT8 list \<Rightarrow> tcp4 \<Rightarrow> bool" where
  "channel_inv fw base d s \<longleftrightarrow> conforming fw \<and> streaming d s \<and> kept_open base s"

interpretation socket: byte_channel "socket_step fw" "channel_inv fw base" "\<lambda>s. received (Log s)" unread
  for fw base
proof unfold_locales
  fix d s op
  assume inv: "channel_inv fw base d s"
  then have fw: "conforming fw" and s: "streaming d s" and k: "kept_open base s"
    by (simp_all add: channel_inv_def)
  show "ok (socket_step fw op s) (\<lambda>(bytes, s'). channel_inv fw base (d @ bytes) s')"
    using fw kept_open_trans [OF k]
    by (cases op) (auto simp: channel_inv_def intro!: ok_mono [OF Recv_kept [OF fw s]]
      ok_mono [OF Send_kept [OF fw s]] ok_mono [OF Poll_kept [OF fw s]])
qed (simp add: channel_inv_def streaming_def)

end
