(* ===== verification/Term_Trip.thy ===== *)
theory Term_Trip
  imports Term_Keys
begin

text \<open>
  Round trips through the parser: characters encoded in UTF-8, control sequences printed with
  decimal parameters, the cursor position report, and the operating system commands it skips.
\<close>

section \<open>UTF-8\<close>

lemma Feed_Cons: "WolfSshTerminalFeed sprint t (b # bs) =
    Option.bind (FeedByte sprint t b) (\<lambda>t. WolfSshTerminalFeed sprint t bs)"
  by (simp add: WolfSshTerminalFeed_def)

lemma Feed_Nil [simp]: "WolfSshTerminalFeed sprint t [] = Some t"
  by (simp add: WolfSshTerminalFeed_def)

lemma FeedByte_ground:
  "ParserState t = ParserGround \<Longrightarrow> byte \<noteq> 0x1b \<Longrightarrow> FeedByte sprint t byte = HandleGroundByte t byte"
  by (simp add: FeedByte_def)

text \<open>Lead and continuation bytes, as numbers.\<close>

lemma unat_byte: "n < 256 \<Longrightarrow> unat (of_nat n :: UINT8) = n"
  by (simp add: unsigned_of_nat take_bit_nat_eq_self)

lemma and_high:
  fixes b :: UINT8
  shows "unat (b AND 0xc0) = unat b AND 192" "unat (b AND 0xe0) = unat b AND 224"
    "unat (b AND 0xf0) = unat b AND 240" "unat (b AND 0x3f) = unat b AND 63"
    "unat (b AND 0x1f) = unat b AND 31" "unat (b AND 0x0f) = unat b AND 15"
  by (simp_all only: unsigned_and_eq) simp_all

lemma or_and_nat:
  assumes "b < 2 ^ k" and "m = push_bit k h" and "h AND a = h'"
  shows "(push_bit k a + b) AND m = push_bit k (h' :: nat)"
proof -
  have "b = take_bit k b" using assms(1) by (simp add: take_bit_nat_eq_self)
  then have nb: "bit b i \<Longrightarrow> i < k" for i by (metis bit_take_bit_iff)
  have "push_bit k a + b = push_bit k a OR b" using or_add_nat [OF assms(1)] by simp
  then show ?thesis unfolding assms(2) assms(3) [symmetric]
    by (auto simp: bit_eq_iff bit_simps dest: nb)
qed

lemma mod_shift: "x < m \<Longrightarrow> (x + k * m) mod m = (x :: nat)"
  by simp

lemma and_31_nat: "(n :: nat) AND 31 = n mod 32"
  using take_bit_eq_mask [of 5 n] by (simp add: mask_eq_exp_minus_1 take_bit_eq_mod)

lemma byte_neq: "unat (b :: UINT8) \<noteq> unat c \<Longrightarrow> b \<noteq> c"
  by auto

lemma continuation_byte:
  assumes "x < 64"
  shows "of_nat (128 + x) AND 0xc0 = (0x80 :: UINT8)" and "unat (of_nat (128 + x) AND (0x3f :: UINT8)) = x"
    and "of_nat (128 + x) \<noteq> (0x1b :: UINT8)"
proof -
  let ?b = "of_nat (128 + x) :: UINT8"
  have u: "unat ?b = 128 + x" using assms by (intro unat_byte) simp
  have "(128 + x) AND 192 = 128"
    using or_and_nat [of x 6 192 3 2 2] assms by (simp add: push_bit_eq_mult)
  then have "unat (?b AND 0xc0) = unat (0x80 :: UINT8)" by (simp only: and_high u) simp
  then show "?b AND 0xc0 = 0x80" by (rule unsigned_word_eqI)
  show "unat (?b AND 0x3f) = x" using mod_shift [OF assms, of 2] by (simp only: and_high u and_63_nat) (simp add: add.commute)
  show "?b \<noteq> 0x1b" by (rule byte_neq) (simp only: u, simp)
qed

lemma lead_byte_2:
  assumes "x < 32"
  shows "of_nat (192 + x) AND 0xe0 = (0xc0 :: UINT8)" and "unat (of_nat (192 + x) AND (0x1f :: UINT8)) = x"
    and "unat (of_nat (192 + x) :: UINT8) = 192 + x"
proof -
  let ?b = "of_nat (192 + x) :: UINT8"
  show u: "unat ?b = 192 + x" using assms by (intro unat_byte) simp
  have "(192 + x) AND 224 = 192"
    using or_and_nat [of x 5 224 7 6 6] assms by (simp add: push_bit_eq_mult)
  then have "unat (?b AND 0xe0) = unat (0xc0 :: UINT8)" by (simp only: and_high u) simp
  then show "?b AND 0xe0 = 0xc0" by (rule unsigned_word_eqI)
  show "unat (?b AND 0x1f) = x" using mod_shift [OF assms, of 6] by (simp only: and_high u and_31_nat) (simp add: add.commute)
qed

lemma lead_byte_3:
  assumes "x < 16"
  shows "of_nat (224 + x) AND 0xe0 = (0xe0 :: UINT8)" and "of_nat (224 + x) AND 0xf0 = (0xe0 :: UINT8)"
    and "unat (of_nat (224 + x) AND (0x0f :: UINT8)) = x" and "unat (of_nat (224 + x) :: UINT8) = 224 + x"
proof -
  let ?b = "of_nat (224 + x) :: UINT8"
  show u: "unat ?b = 224 + x" using assms by (intro unat_byte) simp
  have "(224 + x) AND 224 = 224"
    using or_and_nat [of x 5 224 7 7 7] assms by (simp add: push_bit_eq_mult)
  then have "unat (?b AND 0xe0) = unat (0xe0 :: UINT8)" by (simp only: and_high u) simp
  then show "?b AND 0xe0 = 0xe0" by (rule unsigned_word_eqI)
  have "(224 + x) AND 240 = 224"
    using or_and_nat [of x 4 240 15 14 14] assms by (simp add: push_bit_eq_mult)
  then have "unat (?b AND 0xf0) = unat (0xe0 :: UINT8)" by (simp only: and_high u) simp
  then show "?b AND 0xf0 = 0xe0" by (rule unsigned_word_eqI)
  show "unat (?b AND 0x0f) = x" using mod_shift [OF assms, of 14] by (simp only: and_high u and_15) (simp add: add.commute)
qed

text \<open>A lead byte starts a sequence.\<close>

lemma ground_lead:
  assumes "ParserState t = ParserGround" and "Utf8Remaining t = 0"
  shows "x < 32 \<Longrightarrow> FeedByte sprint t (of_nat (192 + x)) =
      Some (t\<lparr>Utf8Remaining := 1, Utf8CodePoint := ucast ((of_nat (192 + x) :: UINT8) AND 0x1f)\<rparr>)"
    and "x < 16 \<Longrightarrow> FeedByte sprint t (of_nat (224 + x)) =
      Some (t\<lparr>Utf8Remaining := 2, Utf8CodePoint := ucast ((of_nat (224 + x) :: UINT8) AND 0x0f)\<rparr>)"
proof -
  have lead: "b \<noteq> 0x1b" "b \<noteq> 0x0d" "b \<noteq> 0x0a" "b \<noteq> 0x08" "b \<noteq> 0x09" "\<not> b < 0x7f"
    if "192 \<le> unat b" for b :: UINT8
    using that by (auto intro!: byte_neq simp: word_less_nat_alt)
  show "FeedByte sprint t (of_nat (192 + x)) =
      Some (t\<lparr>Utf8Remaining := 1, Utf8CodePoint := ucast ((of_nat (192 + x) :: UINT8) AND 0x1f)\<rparr>)"
    if x: "x < 32"
  proof -
    let ?b = "of_nat (192 + x) :: UINT8"
    have "192 \<le> unat ?b" using lead_byte_2(3) [OF x] by simp
    note l = lead [OF this] lead_byte_2(1) [OF x]
    show ?thesis unfolding FeedByte_ground [OF assms(1) l(1)]
      by (subst HandleGroundByte.simps)
        (simp only: l assms(2) simp_thms if_True if_False)
  qed
  show "FeedByte sprint t (of_nat (224 + x)) =
      Some (t\<lparr>Utf8Remaining := 2, Utf8CodePoint := ucast ((of_nat (224 + x) :: UINT8) AND 0x0f)\<rparr>)"
    if x: "x < 16"
  proof -
    let ?b = "of_nat (224 + x) :: UINT8"
    have "192 \<le> unat ?b" using lead_byte_3(4) [OF x] by simp
    note l = lead [OF this] lead_byte_3(1,2) [OF x]
    have ne: "(0xe0 :: UINT8) \<noteq> 0xc0" by simp
    show ?thesis unfolding FeedByte_ground [OF assms(1) l(1)]
      by (subst HandleGroundByte.simps)
        (simp only: l ne assms(2) simp_thms if_True if_False)
  qed
qed

text \<open>A continuation byte, with the value it adds.\<close>

lemma ground_push:
  assumes "wf_term t" and "ParserState t = ParserGround" and "Utf8Remaining t \<noteq> 0" and "x < 64"
  shows "FeedByte sprint t (of_nat (128 + x)) =
    (let t' = t\<lparr>Utf8CodePoint := of_nat (unat (Utf8CodePoint t) * 64 + x),
                Utf8Remaining := Utf8Remaining t - 1\<rparr>
     in if Utf8Remaining t = 1 then EmitCodePoint t' (Utf8CodePoint t') else Some t')"
proof -
  let ?b = "of_nat (128 + x) :: UINT8"
  note c = continuation_byte [OF assms(4)]
  have "unat (Utf8CodePoint (utf8_push t ?b)) = unat (Utf8CodePoint t) * 64 + x"
    using utf8_push_value [OF assms(1,3), of ?b] c(2) by simp
  then have "Utf8CodePoint (utf8_push t ?b) = of_nat (unat (Utf8CodePoint t) * 64 + x)"
    by (metis of_nat_unat ucast_id)
  then have "utf8_push t ?b = t\<lparr>Utf8CodePoint := of_nat (unat (Utf8CodePoint t) * 64 + x),
      Utf8Remaining := Utf8Remaining t - 1\<rparr>" by (simp add: utf8_push_def)
  then show ?thesis
    unfolding FeedByte_ground [OF assms(2) c(3)] ground_continue [OF assms(3) c(1)] by (simp add: Let_def)
qed

definition printable :: "nat \<Rightarrow> bool" where
  "printable n \<longleftrightarrow> n < 0x10000 \<and> \<not> (0xd800 \<le> n \<and> n \<le> 0xdfff) \<and> 0x20 \<le> n \<and> n \<noteq> 0x7f"

text \<open>Feeding the encoding of a BMP character puts that character.\<close>

definition utf8_done :: "nat \<Rightarrow> term_state \<Rightarrow> term_state" where
  "utf8_done n t = (if n < 0x80 then t else t\<lparr>Utf8CodePoint := of_nat n\<rparr>)"

lemma EmitCodePoint_of_nat:
  assumes "printable n"
  shows "EmitCodePoint t (of_nat n) = PutCharacter t (of_nat n)"
proof -
  have n: "n < 2 ^ 32" "n \<noteq> 0" "n \<le> 65535" "\<not> (55296 \<le> n \<and> n \<le> 57343)"
    using assms by (auto simp: printable_def)
  have u: "unat (of_nat n :: UINT32) = n" using n(1) by (simp add: unsigned_of_nat take_bit_nat_eq_self)
  have z: "(of_nat n :: UINT32) \<noteq> 0"
  proof
    assume "(of_nat n :: UINT32) = 0"
    then have "unat (of_nat n :: UINT32) = 0" by simp
    then show False using u n(2) by simp
  qed
  have "\<not> (of_nat n :: UINT32) > 0xffff" "\<not> ((of_nat n :: UINT32) \<ge> 0xd800 \<and> (of_nat n :: UINT32) \<le> 0xdfff)"
    using n(3,4) u by (simp_all add: word_less_nat_alt word_le_nat_alt)
  then have "\<not> (of_nat n = (0 :: UINT32) \<or> of_nat n > (0xffff :: UINT32) \<or>
      (of_nat n \<ge> (0xd800 :: UINT32) \<and> of_nat n \<le> (0xdfff :: UINT32)))"
    using z by blast
  moreover have "ucast (of_nat n :: UINT32) = (of_nat n :: CHAR16)"
    by (rule unsigned_word_eqI [where ?'a = nat])
      (use n(1,3) in \<open>simp add: unsigned_ucast_eq unsigned_of_nat take_bit_nat_eq_self\<close>)
  ultimately show ?thesis unfolding EmitCodePoint_def by (simp only: if_False)
qed

lemma Feed_utf8:
  assumes wf: "wf_term t" and st: "ParserState t = ParserGround" and idle: "Utf8Remaining t = 0"
    and p: "printable n"
  shows "WolfSshTerminalFeed sprint t (utf8 n) = PutCharacter (utf8_done n t) (of_nat n)"
proof -
  have wf_step: "wf_term t'" if "FeedByte sprint s b = Some t'" "wf_term s" for s b t'
    using FeedByte_ok [OF that(2), of sprint b] that(1) by (auto dest: keptD(1))
  have n: "n < 0x10000" "\<not> (0xd800 \<le> n \<and> n \<le> 0xdfff)" "0x20 \<le> n" "n \<noteq> 0x7f"
    using p by (simp_all add: printable_def)
  consider "n < 0x80" | "0x80 \<le> n" "n < 0x800" | "0x800 \<le> n" by linarith
  then show ?thesis
  proof cases
    case 1
    let ?b = "of_nat n :: UINT8"
    have u: "unat ?b = n" using 1 by (intro unat_byte) simp
    have "0x20 \<le> ?b" "?b < 0x7f"
      using 1 n u by (simp_all add: word_less_nat_alt word_le_nat_alt)
    moreover have "?b \<noteq> 0x1b" "?b \<noteq> 0x0d" "?b \<noteq> 0x0a" "?b \<noteq> 0x08" "?b \<noteq> 0x09"
      using n u by (auto intro!: byte_neq)
    moreover have "(ucast ?b :: CHAR16) = of_nat n"
      by (rule unsigned_word_eqI [where ?'a = nat])
        (use 1 in \<open>simp add: unsigned_ucast_eq unsigned_of_nat take_bit_nat_eq_self\<close>)
    ultimately show ?thesis using 1 st idle
      by (simp add: utf8_def utf8_done_def Feed_Cons FeedByte_ground HandleGroundByte.simps)
  next
    case 2
    let ?t1 = "t\<lparr>Utf8Remaining := 1, Utf8CodePoint := ucast ((of_nat (192 + n div 64) :: UINT8) AND 0x1f)\<rparr>"
    have x: "n div 64 < 32" using 2 by simp
    note s1 = ground_lead(1) [OF st idle x, of sprint]
    have cp: "unat (Utf8CodePoint ?t1) = n div 64" using lead_byte_2(2) [OF x] by simp
    have "FeedByte sprint ?t1 (of_nat (128 + n mod 64)) = EmitCodePoint (utf8_done n t) (of_nat n)"
    proof -
      have "utf8_done n t = ?t1\<lparr>Utf8CodePoint := of_nat n, Utf8Remaining := 0\<rparr>"
        using 2 idle by (simp add: utf8_done_def)
      moreover have "unat (Utf8CodePoint ?t1) * 64 + n mod 64 = n" unfolding cp by simp
      ultimately show ?thesis
        using ground_push [OF wf_step [OF s1 wf], of "n mod 64" sprint] st by (simp add: Let_def)
    qed
    then show ?thesis using 2 s1 EmitCodePoint_of_nat [OF p]
      by (simp add: utf8_def Feed_Cons)
  next
    case 3
    let ?t1 = "t\<lparr>Utf8Remaining := 2, Utf8CodePoint := ucast ((of_nat (224 + n div 4096) :: UINT8) AND 0x0f)\<rparr>"
    let ?t2 = "?t1\<lparr>Utf8CodePoint := of_nat (n div 64), Utf8Remaining := 1\<rparr>"
    have x: "n div 4096 < 16" using n by simp
    note s1 = ground_lead(2) [OF st idle x, of sprint]
    have cp: "unat (Utf8CodePoint ?t1) = n div 4096" using lead_byte_3(3) [OF x] by simp
    have s2: "FeedByte sprint ?t1 (of_nat (128 + n div 64 mod 64)) = Some ?t2"
    proof -
      have "n div 4096 * 64 + n div 64 mod 64 = n div 64"
        using div_mult_mod_eq [of "n div 64" 64] by (simp add: div_mult2_eq [symmetric])
      then have "unat (Utf8CodePoint ?t1) * 64 + n div 64 mod 64 = n div 64" unfolding cp .
      then show ?thesis
        using ground_push [OF wf_step [OF s1 wf], of "n div 64 mod 64" sprint] st by (simp add: Let_def)
    qed
    have cp2: "unat (Utf8CodePoint ?t2) = n div 64"
      using n by (simp add: unsigned_of_nat take_bit_nat_eq_self)
    have "FeedByte sprint ?t2 (of_nat (128 + n mod 64)) = EmitCodePoint (utf8_done n t) (of_nat n)"
    proof -
      have "utf8_done n t = ?t2\<lparr>Utf8CodePoint := of_nat n, Utf8Remaining := 0\<rparr>"
        using 3 idle by (simp add: utf8_done_def)
      moreover have "unat (Utf8CodePoint ?t2) * 64 + n mod 64 = n" unfolding cp2 by simp
      ultimately show ?thesis
        using ground_push [OF wf_step [OF s2 wf_step [OF s1 wf]], of "n mod 64" sprint] st
        by (simp add: Let_def)
    qed
    then show ?thesis using 3 s1 s2 EmitCodePoint_of_nat [OF p]
      by (simp add: utf8_def Feed_Cons)
  qed
qed

section \<open>Control sequences with decimal parameters\<close>

fun decimal :: "nat \<Rightarrow> UINT8 list" where
  "decimal n = (if n < 10 then [of_nat (48 + n)] else decimal (n div 10) @ [of_nat (48 + n mod 10)])"

declare decimal.simps [simp del]

fun csi_params :: "nat list \<Rightarrow> UINT8 list" where
  "csi_params [] = []"
| "csi_params [n] = decimal n"
| "csi_params (n # m # ns) = decimal n @ 0x3b # csi_params (m # ns)"

lemma Feed_append':
  "WolfSshTerminalFeed sprint t xs = Some t' \<Longrightarrow>
   WolfSshTerminalFeed sprint t (xs @ ys) = WolfSshTerminalFeed sprint t' ys"
  by (simp add: Feed_append)

lemma Feed_wf:
  "wf_term t \<Longrightarrow> WolfSshTerminalFeed sprint t bs = Some t' \<Longrightarrow> wf_term t'"
  using Feed_kept [of t sprint bs] by (auto dest: keptD(1))

lemma digit_byte:
  assumes "d < 10"
  shows "0x30 \<le> (of_nat (48 + d) :: UINT8)" and "(of_nat (48 + d) :: UINT8) \<le> 0x39"
    and "(of_nat (48 + d) :: UINT8) \<noteq> 0x1b" and "uint (of_nat (48 + d) - 0x30 :: UINT8) = int d"
proof -
  let ?b = "of_nat (48 + d) :: UINT8"
  have u: "unat ?b = 48 + d" using assms by (intro unat_byte) simp
  show le: "0x30 \<le> ?b" "?b \<le> 0x39" unfolding word_le_nat_alt u using assms by simp_all
  show "?b \<noteq> 0x1b" by (rule byte_neq) (simp only: u, simp)
  have "uint ?b = int (48 + d)" using u by (metis uint_nat)
  then show "uint (?b - 0x30) = int d" using uint_digit(1) [OF le] by simp
qed

text \<open>The last parameter, while its digits arrive.\<close>

definition with_last :: "term_state \<Rightarrow> INT32 \<Rightarrow> term_state" where
  "with_last t v = t\<lparr>Parameters := (Parameters t)[ParameterCount t - 1 := v]\<rparr>"

lemma Feed_digit:
  assumes wf: "wf_term t" and st: "ParserState t = ParserCsi" and "d < 10"
  shows "FeedByte sprint t (of_nat (48 + d)) =
    Some (with_last t (digit_value (Parameters t ! (ParameterCount t - 1)) (of_nat (48 + d))))"
  using digit_byte [OF assms(3)] CsiByte_digit [OF wf, of "of_nat (48 + d)"] st
  by (simp add: FeedByte_def with_last_def)

lemma Feed_decimal:
  assumes wf: "wf_term t" and st: "ParserState t = ParserCsi"
    and fresh: "Parameters t ! (ParameterCount t - 1) = -1" and "n \<le> 9999999"
  shows "WolfSshTerminalFeed sprint t (decimal n) = Some (with_last t (int n))"
  using assms(4)
proof (induction n rule: decimal.induct)
  case (1 n)
  show ?case
  proof (cases "n < 10")
    case True
    then show ?thesis
      using Feed_digit [OF wf st True, of sprint] digit_byte(4) [OF True] fresh
      by (simp add: decimal.simps [of n] Feed_Cons digit_value_def)
  next
    case False
    have ih: "WolfSshTerminalFeed sprint t (decimal (n div 10)) = Some (with_last t (int (n div 10)))"
      using "1.IH" [OF False] "1.prems" by simp
    let ?t = "with_last t (int (n div 10))"
    have "ParameterCount t - 1 < length (Parameters t)"
      using wfD(5) [OF wf] by (auto simp: wf_params_def)
    then have last: "Parameters ?t ! (ParameterCount ?t - 1) = int (n div 10)"
      by (simp add: with_last_def)
    have d: "n mod 10 < 10" by simp
    have "int (n div 10) < 1000000" using "1.prems" by simp
    moreover have "int (n div 10) * 10 + int (n mod 10) = int n"
      by (metis div_mult_mod_eq of_nat_add of_nat_mult of_nat_numeral)
    ultimately have v: "digit_value (int (n div 10)) (of_nat (48 + n mod 10)) = int n"
      using digit_byte(4) [OF d] by (simp add: digit_value_def)
    have "with_last ?t v = with_last t v" for v by (simp add: with_last_def)
    moreover have "ParserState ?t = ParserCsi" using st by (simp add: with_last_def)
    ultimately have "FeedByte sprint ?t (of_nat (48 + n mod 10)) = Some (with_last t (int n))"
      using Feed_digit [OF Feed_wf [OF wf ih] _ d, of sprint] unfolding last v by simp
    then show ?thesis using False Feed_append' [OF ih]
      by (simp add: decimal.simps [of n] Feed_Cons)
  qed
qed

text \<open>The state of the parser after the parameters \<open>ns\<close> of a sequence, \<open>m\<close> of which have begun.\<close>

definition csi_state :: "term_state \<Rightarrow> nat list \<Rightarrow> nat \<Rightarrow> term_state" where
  "csi_state t ns m = t\<lparr>ParserState := ParserCsi, Parameters := map int ns @ replicate (16 - length ns) (-1),
     ParameterCount := m, PrivateCsi := False, Utf8Remaining := 0\<rparr>"

lemma csi_state_wf:
  assumes "wf_term t" and "\<forall>n \<in> set ns. n \<le> 9999999" and "1 \<le> m" and "m \<le> 16" and "length ns \<le> 16"
  shows "wf_term (csi_state t ns m)"
  using assms unfolding wf_parts csi_state_def by auto

lemma with_last_csi_state:
  assumes "length ns < 16"
  shows "with_last (csi_state t ns (Suc (length ns))) (int n) = csi_state t (ns @ [n]) (Suc (length ns))"
proof -
  have "replicate (16 - length ns) (-1 :: int) = -1 # replicate (16 - Suc (length ns)) (-1)"
    using assms by (metis Suc_diff_Suc replicate_Suc)
  then show ?thesis by (simp add: with_last_def csi_state_def list_update_append)
qed

lemma Feed_params:
  assumes wf: "wf_term t" and "ns \<noteq> []" and "length pre + length ns \<le> 16"
    and "\<forall>n \<in> set (pre @ ns). n \<le> 9999999"
  shows "WolfSshTerminalFeed sprint (csi_state t pre (Suc (length pre))) (csi_params ns) =
    Some (csi_state t (pre @ ns) (length pre + length ns))"
  using assms(2-)
proof (induction ns arbitrary: pre rule: csi_params.induct)
  case 1
  then show ?case by simp
next
  case (2 n)
  have l: "length pre < 16" "n \<le> 9999999" using 2 by simp_all
  have "wf_term (csi_state t pre (Suc (length pre)))"
    by (rule csi_state_wf [OF wf]) (use 2 in simp_all)
  then show ?case
    using Feed_decimal [of "csi_state t pre (Suc (length pre))" n sprint] l
      with_last_csi_state [OF l(1), of t n]
    by (simp add: csi_state_def nth_append)
next
  case (3 n m ns)
  have l: "length pre < 16" "n \<le> 9999999" "Suc (length pre) < 16" using 3 by simp_all
  let ?t = "csi_state t (pre @ [n]) (Suc (length pre))"
  have wf1: "wf_term (csi_state t pre (Suc (length pre)))"
    by (rule csi_state_wf [OF wf]) (use 3 in simp_all)
  have wf2: "wf_term ?t" by (rule csi_state_wf [OF wf]) (use 3 in simp_all)
  have s1: "WolfSshTerminalFeed sprint (csi_state t pre (Suc (length pre))) (decimal n) = Some ?t"
    using Feed_decimal [OF wf1, of n sprint] l with_last_csi_state [OF l(1), of t n]
    by (simp add: csi_state_def nth_append)
  have "16 - Suc (length pre) = Suc (14 - length pre)" using l by simp
  then have "replicate (16 - Suc (length pre)) (-1 :: int) = -1 # replicate (14 - length pre) (-1)"
    by (simp only: replicate_Suc)
  then have "(Parameters ?t)[ParameterCount ?t := -1] = Parameters ?t"
    by (simp add: csi_state_def list_update_append)
  then have s2: "FeedByte sprint ?t 0x3b = Some (csi_state t (pre @ [n]) (Suc (length (pre @ [n]))))"
    using CsiByte_next [OF wf2, of sprint] l by (simp add: FeedByte_def csi_state_def)
  show ?case
    using "3.IH" [of "pre @ [n]"] "3.prems" s2 Feed_append' [OF s1] by (simp add: Feed_Cons)
qed

text \<open>A complete control sequence is one call of \<open>HandleCsi\<close> with its parameters in place.\<close>

definition csi_sequence :: "nat list \<Rightarrow> UINT8 \<Rightarrow> UINT8 list" where
  "csi_sequence ns final = 0x1b # 0x5b # csi_params ns @ [final]"

definition outside_osc :: "term_state \<Rightarrow> bool" where
  "outside_osc t \<longleftrightarrow> ParserState t \<noteq> ParserOsc \<and> ParserState t \<noteq> ParserOscEscape"

lemma Feed_escape:
  assumes "outside_osc t"
  shows "WolfSshTerminalFeed sprint t (0x1b # bs) =
    WolfSshTerminalFeed sprint (t\<lparr>ParserState := ParserEscape, Utf8Remaining := 0\<rparr>) bs"
  using assms by (simp add: Feed_Cons FeedByte_def outside_osc_def)

lemma Feed_csi:
  assumes wf: "wf_term t" and out: "outside_osc t" and ns: "ns \<noteq> []" "length ns \<le> 16"
    "\<forall>n \<in> set ns. n \<le> 9999999" and final: "0x40 \<le> final" "final \<le> 0x7e"
  shows "WolfSshTerminalFeed sprint t (csi_sequence ns final) =
    map_option (\<lambda>t. t\<lparr>ParserState := ParserGround\<rparr>) (HandleCsi sprint (csi_state t ns (length ns)) final)"
proof -
  let ?t0 = "t\<lparr>ParserState := ParserEscape, Utf8Remaining := 0\<rparr>"
  have "length (Parameters ?t0) = 16" using wf by simp
  then have open_csi: "FeedByte sprint ?t0 0x5b = Some (csi_state t [] (Suc 0))"
    by (simp add: FeedByte_def EscapeByte_def ResetParser_eq reset_parser_def csi_state_def)
  have params: "WolfSshTerminalFeed sprint (csi_state t [] (Suc 0)) (csi_params ns) =
      Some (csi_state t ns (length ns))"
    using Feed_params [OF wf ns(1), of "[]" sprint] ns by simp
  have wf': "wf_term (csi_state t ns (length ns))"
    by (rule csi_state_wf [OF wf ns(3)]) (use ns in \<open>auto simp: Suc_le_eq\<close>)
  have "final \<noteq> 0x1b" using final(1) by auto
  then have "FeedByte sprint (csi_state t ns (length ns)) final =
      CsiByte sprint (csi_state t ns (length ns)) final"
    by (simp add: FeedByte_def csi_state_def)
  then show ?thesis
    unfolding csi_sequence_def Feed_escape [OF out] CsiByte_final [OF wf' final, symmetric]
    by (simp add: Feed_Cons [of _ ?t0] open_csi Feed_append' [OF params])
      (simp add: Feed_Cons)
qed

lemma csi_state_sel [simp]:
  "Rows (csi_state t ns m) = Rows t" "Columns (csi_state t ns m) = Columns t"
  "Row (csi_state t ns m) = Row t" "Column (csi_state t ns m) = Column t"
  "pending (csi_state t ns m) = pending t" "ReplyLength (csi_state t ns m) = ReplyLength t"
  "Replies (csi_state t ns m) = Replies t" "WrapPending (csi_state t ns m) = WrapPending t"
  by (simp_all add: csi_state_def pending_def)

lemma param_csi_state:
  "i < length ns \<Longrightarrow> m = length ns \<Longrightarrow> param (csi_state t ns m) i d = int (ns ! i)"
  by (simp add: param_def csi_state_def nth_append)

lemma count_csi_state:
  "i < length ns \<Longrightarrow> m = length ns \<Longrightarrow> 0 < ns ! i \<Longrightarrow> count_of (csi_state t ns m) i = ns ! i"
  by (simp add: count_of_def param_csi_state)

text \<open>CUP, the cursor position, on a screen of any size.\<close>

definition parsed :: "term_state \<Rightarrow> nat list \<Rightarrow> term_state" where
  "parsed t ns = (csi_state t ns (length ns))\<lparr>ParserState := ParserGround, WrapPending := False\<rparr>"

lemma Feed_cup:
  assumes wf: "wf_term t" and out: "outside_osc t"
    and rc: "0 < r" "0 < c" "r \<le> 9999999" "c \<le> 9999999"
  shows "WolfSshTerminalFeed sprint t (csi_sequence [r, c] 0x48) =
    Some ((parsed t [r, c])\<lparr>Row := min (Rows t - 1) (r - 1), Column := min (Columns t - 1) (c - 1)\<rparr>)"
proof -
  let ?t = "csi_state t [r, c] 2"
  have wf': "wf_term ?t" by (rule csi_state_wf [OF wf]) (use rc in simp_all)
  have len: "length [r, c] = 2" by simp
  have cnt: "count_of ?t 0 = r" "count_of ?t 1 = c" using rc count_csi_state [of _ "[r, c]" 2 t] by simp_all
  have cnt': "count_of (?t\<lparr>WrapPending := False\<rparr>) i = count_of ?t i" for i
    by (simp add: count_of_def param_def)
  have wf'': "wf_term (?t\<lparr>WrapPending := False\<rparr>)" using wf' by simp
  have u: "usub r 1 = r - 1" "usub c 1 = c - 1" "usub (Rows t) 1 = Rows t - 1"
    "usub (Columns t) 1 = Columns t - 1" using rc wf_bounds [OF wf] by simp_all
  have "HandleCsi sprint ?t 0x48 = Some (?t\<lparr>WrapPending := False,
      Row := min (Rows t - 1) (r - 1), Column := min (Columns t - 1) (c - 1)\<rparr>)"
    unfolding HandleCsi_def NonZeroParameter_eq [OF wf'] NonZeroParameter_eq [OF wf''] bind.bind_lunit
      Let_def cnt' cnt
    using u by (simp add: csi_state_def)
  moreover have "(?t\<lparr>WrapPending := False, Row := min (Rows t - 1) (r - 1),
      Column := min (Columns t - 1) (c - 1)\<rparr>)\<lparr>ParserState := ParserGround\<rparr> =
      (parsed t [r, c])\<lparr>Row := min (Rows t - 1) (r - 1), Column := min (Columns t - 1) (c - 1)\<rparr>"
    by (simp add: parsed_def numeral_2_eq_2)
  moreover have "WolfSshTerminalFeed sprint t (csi_sequence [r, c] 0x48) =
      map_option (\<lambda>t. t\<lparr>ParserState := ParserGround\<rparr>) (HandleCsi sprint ?t 0x48)"
    using Feed_csi [OF wf out, of "[r, c]" "0x48" sprint, unfolded len] rc by simp
  ultimately show ?thesis by simp
qed

section \<open>The cursor position report\<close>

text \<open>What EDK2 documents of \<open>AsciiSPrint\<close> for the one format used: \<open>%u\<close> prints in decimal.\<close>

definition prints_position :: "print_lib \<Rightarrow> bool" where
  "prints_position sprint \<longleftrightarrow> (\<forall>a b. sprint 32 position_format [a, b] =
     0x1b # 0x5b # decimal (unat a) @ 0x3b # decimal (unat b) @ [0x52])"

lemma Feed_report:
  assumes wf: "wf_term t" and out: "outside_osc t" and print: "prints_position sprint"
  shows "ok (WolfSshTerminalFeed sprint t (csi_sequence [6] 0x6e)) (\<lambda>t'. kept t t' \<and>
    pending t' = take 128 (pending t @ csi_sequence [Row t + 1, Column t + 1] 0x52))"
proof -
  let ?t = "csi_state t [6] 1"
  let ?t' = "?t\<lparr>WrapPending := False\<rparr>"
  have wf': "wf_term ?t" by (rule csi_state_wf [OF wf]) simp_all
  have wf'': "wf_term ?t'" using wf' by simp
  have p: "param ?t' 0 0 = 6" by (simp add: param_def csi_state_def)
  note b = wf_bounds [OF wf]
  have u: "uadd (Row t) 1 = Row t + 1" "uadd (Column t) 1 = Column t + 1" using b by simp_all
  have small: "unat (of_nat (Row t + 1) :: UINT32) = Row t + 1"
    "unat (of_nat (Column t + 1) :: UINT32) = Column t + 1"
    using b by (simp_all add: unsigned_of_nat take_bit_nat_eq_self del: of_nat_Suc of_nat_add)
  let ?reply = "csi_sequence [Row t + 1, Column t + 1] 0x52"
  have reply: "sprint 32 position_format [of_nat (uadd (Row t) 1), of_nat (uadd (Column t) 1)] = ?reply"
    unfolding u
    using print [unfolded prints_position_def, rule_format, of "of_nat (Row t + 1)" "of_nat (Column t + 1)",
        unfolded small]
    by (simp add: csi_sequence_def)
  have eq: "HandleCsi sprint ?t 0x6e = QueueReply ?t' ?reply (length ?reply)"
    unfolding HandleCsi_def NonZeroParameter_eq [OF wf'] Parameter_eq [OF wf''] bind.bind_lunit Let_def p
    using reply by (simp add: csi_state_def)
  have "ok (HandleCsi sprint ?t 0x6e) (\<lambda>t1. pending t1 = take 128 (pending t @ ?reply))"
    unfolding eq using QueueReply_ok [OF wf'' order_refl, of ?reply]
    by (elim ok_mono) (simp add: pending_def csi_state_def)
  then have "ok (WolfSshTerminalFeed sprint t (csi_sequence [6] 0x6e))
      (\<lambda>t'. pending t' = take 128 (pending t @ ?reply))"
    using Feed_csi [OF wf out, of "[6]" "0x6e" sprint] by (simp add: pending_def)
  with Feed_kept [OF wf] show ?thesis by (rule ok_conj)
qed

section \<open>Operating system commands\<close>

lemma Feed_osc_body:
  assumes "ParserState t = ParserOsc" and "\<forall>b \<in> set bs. b \<noteq> 0x07 \<and> b \<noteq> 0x1b"
  shows "WolfSshTerminalFeed sprint t bs = Some t"
  using assms(2) by (induction bs) (simp_all add: Feed_Cons FeedByte_def assms(1))

lemma Feed_osc:
  assumes out: "outside_osc t" and "\<forall>b \<in> set bs. b \<noteq> 0x07 \<and> b \<noteq> 0x1b" and "end = [0x07] \<or> end = [0x1b, 0x5c]"
  shows "WolfSshTerminalFeed sprint t (0x1b # 0x5d # bs @ end) =
    Some (t\<lparr>ParserState := ParserGround, Utf8Remaining := 0\<rparr>)"
proof -
  let ?t = "t\<lparr>ParserState := ParserOsc, Utf8Remaining := 0\<rparr>"
  have "FeedByte sprint (t\<lparr>ParserState := ParserEscape, Utf8Remaining := 0\<rparr>) 0x5d = Some ?t"
    by (simp add: FeedByte_def EscapeByte_def)
  moreover have "WolfSshTerminalFeed sprint ?t bs = Some ?t"
    by (rule Feed_osc_body) (use assms(2) in simp_all)
  moreover have "WolfSshTerminalFeed sprint ?t end = Some (t\<lparr>ParserState := ParserGround, Utf8Remaining := 0\<rparr>)"
    using assms(3) by (auto simp: Feed_Cons FeedByte_def)
  ultimately show ?thesis by (simp add: Feed_escape [OF out] Feed_Cons [of _ _ "0x5d"] Feed_append')
qed

end
