(* ===== verification/Term_Alt.thy ===== *)
theory Term_Alt
  imports Term_Trip
begin

text \<open>
  The screen that is not shown. \<open>stay t t'\<close> says that a step has neither switched screens nor
  touched the hidden screen and the saved cursor of the primary screen. Every byte is such a step,
  except the two final bytes of a private mode sequence (\<open>ESC [ ? ... h\<close> and \<open>ESC [ ? ... l\<close>) one of
  whose parameters is 47, 1047 or 1049. Other private modes stay.
\<close>

section \<open>Steps that stay on the active screen\<close>

definition stay :: "term_state \<Rightarrow> term_state \<Rightarrow> bool" where
  "stay t t' \<longleftrightarrow> Cells t' = Cells t \<and> AlternateActive t' = AlternateActive t \<and>
     PrimaryRow t' = PrimaryRow t \<and> PrimaryColumn t' = PrimaryColumn t \<and>
     (\<forall>b. b \<noteq> Cells t \<longrightarrow> buffer t' b = buffer t b)"

lemma stay_refl [simp]: "stay t t"
  by (simp add: stay_def)

lemma stay_trans: "stay t t' \<Longrightarrow> stay t' t'' \<Longrightarrow> stay t t''"
  by (simp add: stay_def)

lemma stay_frame: "frame t t' \<Longrightarrow> stay t t'"
  by (auto simp: frame_def stay_def)

lemma stay_drawn: "drawn t t' \<Longrightarrow> stay t t'"
  by (rule stay_frame [OF drawn_frame])

text \<open>Assignments to the other fields.\<close>

lemma stay_fields [simp]:
  "stay t0 (t\<lparr>Row := n\<rparr>) = stay t0 t" "stay t0 (t\<lparr>Column := n\<rparr>) = stay t0 t"
  "stay t0 (t\<lparr>WrapPending := w\<rparr>) = stay t0 t" "stay t0 (t\<lparr>ParserState := s\<rparr>) = stay t0 t"
  "stay t0 (t\<lparr>SavedRow := n\<rparr>) = stay t0 t" "stay t0 (t\<lparr>SavedColumn := n\<rparr>) = stay t0 t"
  "stay t0 (t\<lparr>ScrollTop := n\<rparr>) = stay t0 t" "stay t0 (t\<lparr>ScrollBottom := n\<rparr>) = stay t0 t"
  "stay t0 (t\<lparr>Foreground := n\<rparr>) = stay t0 t" "stay t0 (t\<lparr>Background := n\<rparr>) = stay t0 t"
  "stay t0 (t\<lparr>Bold := w\<rparr>) = stay t0 t" "stay t0 (t\<lparr>Reverse := w\<rparr>) = stay t0 t"
  "stay t0 (t\<lparr>InsertMode := w\<rparr>) = stay t0 t" "stay t0 (t\<lparr>CursorVisible := w\<rparr>) = stay t0 t"
  "stay t0 (t\<lparr>ApplicationCursor := w\<rparr>) = stay t0 t" "stay t0 (t\<lparr>PrivateCsi := w\<rparr>) = stay t0 t"
  "stay t0 (t\<lparr>Parameters := ps\<rparr>) = stay t0 t" "stay t0 (t\<lparr>ParameterCount := n\<rparr>) = stay t0 t"
  "stay t0 (t\<lparr>Utf8Remaining := n\<rparr>) = stay t0 t" "stay t0 (t\<lparr>Utf8CodePoint := c\<rparr>) = stay t0 t"
  "stay t0 (t\<lparr>Replies := rs\<rparr>) = stay t0 t" "stay t0 (t\<lparr>ReplyLength := n\<rparr>) = stay t0 t"
  "stay t0 (t\<lparr>DirtyStart := ds\<rparr>) = stay t0 t" "stay t0 (t\<lparr>DirtyEnd := ds\<rparr>) = stay t0 t"
  "stay t0 (console x t) = stay t0 t"
  by (simp_all add: stay_def buffer_def console_def split: SCREEN.splits)

lemma stay_from_fields [simp]:
  "stay (t\<lparr>Row := n\<rparr>) = stay t" "stay (t\<lparr>Column := n\<rparr>) = stay t" "stay (t\<lparr>WrapPending := w\<rparr>) = stay t"
  "stay (t\<lparr>Utf8Remaining := n\<rparr>) = stay t" "stay (t\<lparr>Utf8CodePoint := c\<rparr>) = stay t"
  "stay (t\<lparr>ParserState := s\<rparr>) = stay t"
  by (simp_all add: stay_def buffer_def fun_eq_iff split: SCREEN.splits)

lemma stay_clear: "stay t (set_buffer (Cells t) cs t)"
  by (simp add: stay_def)

lemma drawn_ok_stay: "ok m (\<lambda>t'. drawn t t' \<and> Q t') \<Longrightarrow> ok m (stay t)"
  by (erule ok_mono) (blast intro: stay_drawn)

lemma stay_ok_trans: "stay t t' \<Longrightarrow> ok m (stay t') \<Longrightarrow> ok m (stay t)"
  by (erule ok_mono) (blast intro: stay_trans)

lemma IndexDown_stay: "wf_term t \<Longrightarrow> ok (IndexDown t) (stay t)"
  using ScrollUp_ok [of "t\<lparr>WrapPending := False\<rparr>" 1, THEN drawn_ok_stay]
  by (auto simp: IndexDown_def Let_def split: if_splits)

lemma IndexUp_stay: "wf_term t \<Longrightarrow> ok (IndexUp t) (stay t)"
  using ScrollDown_ok [of "t\<lparr>WrapPending := False\<rparr>" 1, THEN drawn_ok_stay]
  by (auto simp: IndexUp_def Let_def split: if_splits)

lemma PutCharacter_stay:
  assumes wf: "wf_term t" and ch: "ch \<noteq> 0"
  shows "ok (PutCharacter t ch) (stay t)"
proof -
  have direct: "ok (PutCharacter t ch) (stay t)" if "wf_term t" "\<not> WrapPending t" for t
    using PutCharacter_ok [OF that ch]
    by (rule ok_mono) (auto simp: advance_def dest: stay_drawn)
  show ?thesis
  proof (cases "WrapPending t")
    case True
    have wf0: "wf_term (t\<lparr>Column := 0\<rparr>)"
      by (rule wf_cursor_update(2) [OF wf]) (use wf_bounds [OF wf] in simp)
    obtain t1 where t1: "IndexDown (t\<lparr>Column := 0\<rparr>) = Some t1" "wf_term t1"
      using IndexDown_good [OF wf0] by (auto elim!: okE dest: goodD(1))
    have "stay t t1" using IndexDown_stay [OF wf0] t1(1) by (simp add: ok_def)
    moreover have "ok (PutCharacter t1 ch) (stay t1)"
      using direct [OF t1(2)] IndexDown_sel(1) [OF wf0 t1(1)] by simp
    ultimately show ?thesis unfolding PutCharacter_wrap [OF wf True] t1(1)
      by (auto intro: stay_ok_trans)
  qed (rule direct [OF wf])
qed

lemma EmitCodePoint_stay: "wf_term t \<Longrightarrow> ok (EmitCodePoint t c) (stay t)"
proof -
  have "(ucast c :: CHAR16) \<noteq> 0" if "c \<noteq> 0" "c \<le> 0xffff"
  proof -
    have "unat c \<noteq> 0" "unat c \<le> 65535"
      using that by (simp_all add: unat_eq_0 word_le_nat_alt)
    then have "unat (ucast c :: CHAR16) = unat c" by (simp add: unsigned_ucast_eq take_bit_nat_eq_self)
    then show ?thesis using \<open>unat c \<noteq> 0\<close> by auto
  qed
  then show "wf_term t \<Longrightarrow> ok (EmitCodePoint t c) (stay t)"
    by (simp add: EmitCodePoint_def PutCharacter_stay not_less)
qed

section \<open>The bytes that stay\<close>

lemma ground_idle_stay:
  assumes wf: "wf_term t" and idle: "Utf8Remaining t = 0"
  shows "ok (HandleGroundByte t byte) (stay t)"
proof -
  have put: "ok (PutCharacter t (ucast byte)) (stay t)" if "0x20 \<le> byte"
  proof -
    have "unat byte \<noteq> 0" using that by (auto simp: word_le_nat_alt)
    then have "(ucast byte :: CHAR16) \<noteq> 0" by (metis unat_ucast8(2) unsigned_0)
    then show ?thesis by (rule PutCharacter_stay [OF wf])
  qed
  show ?thesis
    by (subst HandleGroundByte.simps) (simp add: idle put IndexDown_stay [OF wf] Let_def)
qed

lemma ground_stay:
  assumes wf: "wf_term t"
  shows "ok (HandleGroundByte t byte) (stay t)"
proof (cases "Utf8Remaining t = 0")
  case True
  then show ?thesis by (rule ground_idle_stay [OF wf])
next
  case False
  show ?thesis
  proof (cases "byte AND 0xc0 = 0x80")
    case True
    have "stay t (utf8_push t byte)" by (simp add: utf8_push_def)
    then show ?thesis unfolding ground_continue [OF False True]
      using stay_ok_trans [OF _ EmitCodePoint_stay [OF wf_utf8_push [OF wf False]]] by simp
  next
    case broken: False
    have wf0: "wf_term (t\<lparr>Utf8Remaining := 0\<rparr>)" using wf unfolding wf_parts by simp
    obtain t1 where t1: "EmitCodePoint (t\<lparr>Utf8Remaining := 0\<rparr>) 0xfffd = Some t1"
      and g: "good (t\<lparr>Utf8Remaining := 0\<rparr>) t1"
      using EmitCodePoint_good [OF wf0, of "0xfffd"] by (auto elim!: okE)
    have "stay t t1" using EmitCodePoint_stay [OF wf0, of "0xfffd"] t1 by (simp add: ok_def)
    moreover have "ok (HandleGroundByte t1 byte) (stay t1)"
      by (rule ground_idle_stay) (use goodD(1,6) [OF g] in simp_all)
    ultimately show ?thesis unfolding ground_broken [OF False broken] t1
      by (auto intro: stay_ok_trans)
  qed
qed

lemma EscapeByte_stay:
  assumes wf: "wf_term t"
  shows "ok (EscapeByte t byte) (stay t)"
proof -
  have wf0: "wf_term (t\<lparr>Column := 0\<rparr>)"
    by (rule wf_cursor_update(2) [OF wf]) (use wf_bounds [OF wf] in simp)
  have reset: "EscapeByte t 0x63 = Some ((ris t)\<lparr>ParserState := ParserGround\<rparr>)"
    by (rule ris_good(1) [OF wf])
  have "stay t (ris t)" by (simp add: ris_def cleared_def stay_def buffer_def console_def set_buffer_def
      split: SCREEN.splits)
  then have "ok (EscapeByte t 0x63) (stay t)" unfolding reset by simp
  then show ?thesis
    using IndexDown_stay [OF wf] IndexUp_stay [OF wf] IndexDown_stay [OF wf0]
      ResetParser_eq [of t] wf_lengths(5) [OF wf]
    by (cases "byte = 0x63") (simp_all add: EscapeByte_def reset_parser_def)
qed

text \<open>
  A mode sequence without the question mark sets the insert mode only; with it, only three numbers
  stand for the screens.
\<close>

definition screen_mode :: "term_state \<Rightarrow> bool" where
  "screen_mode t \<longleftrightarrow> PrivateCsi t \<and>
     (\<exists>value \<in> set (take (ParameterCount t) (Parameters t)). value = 47 \<or> value = 1047 \<or> value = 1049)"

lemma screen_mode_param:
  assumes "wf_term t" and "PrivateCsi t" and "param t j 0 = 47 \<or> param t j 0 = 1047 \<or> param t j 0 = 1049"
  shows "screen_mode t"
proof -
  have j: "j < ParameterCount t" "Parameters t ! j = param t j 0"
    using assms(3) by (auto simp: param_def split: if_splits)
  moreover have "j < length (Parameters t)" using wf_param_range(1) [OF assms(1) j(1)] wf_lengths(5) [OF assms(1)] by simp
  ultimately have "param t j 0 \<in> set (take (ParameterCount t) (Parameters t))"
    by (auto simp: in_set_conv_nth intro!: exI [of _ j])
  then show ?thesis using assms(2,3) by (auto simp: screen_mode_def)
qed

lemma param_modes:
  "param (t\<lparr>ApplicationCursor := e\<rparr>) = param t" "param (t\<lparr>CursorVisible := e\<rparr>) = param t"
  "param (t\<lparr>InsertMode := e\<rparr>) = param t"
  by (auto simp: param_def fun_eq_iff)

lemma SetModes_stay:
  assumes wf: "wf_term t" and sw: "\<not> screen_mode t"
  shows "ok (SetModes t enable) (stay t)"
proof -
  let ?I = "\<lambda>(j :: nat) s. wf_term s \<and> PrivateCsi s = PrivateCsi t \<and> param s = param t \<and> stay t s"
  have "ok (SetModes t enable) (?I (max 0 (ParameterCount t)))"
    unfolding SetModes_def
  proof (rule for_below_ok)
    show "?I 0 t" using wf by simp
    fix j s assume "?I j s"
    then show "ok (do { value \<leftarrow> Parameter s j 0; SetMode s value enable }) (?I (Suc j))"
      using screen_mode_param [OF wf, of j] sw by (auto simp: SetMode_def param_modes)
  qed
  then show ?thesis by (rule ok_mono) simp
qed

lemma EraseDisplay_stay:
  assumes wf: "wf_term t"
  shows "ok (EraseDisplay t mode) (stay t)"
proof (cases "mode = 2 \<or> mode = 3")
  case True
  have "stay t (clean_rows (cleared t))" by (simp add: clean_rows_def cleared_def stay_clear)
  then show ?thesis unfolding EraseDisplay_2 [OF wf True] by simp
next
  case False
  then show ?thesis using EraseDisplay_ok [OF wf, THEN drawn_ok_stay] by simp
qed

definition switches :: "term_state \<Rightarrow> UINT8 \<Rightarrow> bool" where
  "switches t byte \<longleftrightarrow> ParserState t = ParserCsi \<and> screen_mode t \<and> (byte = 0x68 \<or> byte = 0x6c)"

lemma HandleCsi_stay:
  assumes "wf_term t" and st: "ParserState t = ParserCsi" and sw: "\<not> switches t byte"
  shows "ok (HandleCsi sprint t byte) (stay t)"
proof -
  let ?t = "t\<lparr>WrapPending := False\<rparr>"
  have wf: "wf_term ?t" using assms by simp
  note n = count_of_bounds [OF assms(1), of 0]
  have same: "stay ?t = stay t" by simp
  note ops = EraseDisplay_stay [OF wf, unfolded same]
    EraseLine_ok [OF wf, THEN drawn_ok_stay, unfolded same]
    SGR_ok [OF wf]
    InsertLines_ok [OF wf conjunct1 [OF n], THEN drawn_ok_stay, unfolded same]
    DeleteLines_ok [OF wf conjunct1 [OF n], THEN drawn_ok_stay, unfolded same]
    InsertCharacters_ok [OF wf conjunct1 [OF n], THEN drawn_ok_stay, unfolded same]
    DeleteCharacters_ok [OF wf conjunct1 [OF n], THEN drawn_ok_stay, unfolded same]
    ScrollUp_ok [OF wf, THEN drawn_ok_stay, unfolded same]
    ScrollDown_ok [OF wf, THEN drawn_ok_stay, unfolded same]
    FillCells_ok [OF wf, THEN drawn_ok_stay, unfolded same]
  have sgr: "ok (SelectGraphicRendition ?t) (stay t)"
  proof (rule ok_mono [OF SGR_ok [OF wf]])
    fix t' assume "wf_term t' \<and> rendition_only ?t t'"
    then have "t' = ?t\<lparr>Foreground := Foreground t', Background := Background t',
      Bold := Bold t', Reverse := Reverse t'\<rparr>" by (simp add: rendition_only_def)
    then show "stay t t'" by (metis stay_fields(3,9-12) stay_refl)
  qed
  have queue: "ok (QueueReply ?t bs (length bs)) (stay t)" for bs
  proof (rule ok_mono [OF QueueReply_ok [OF wf, of "length bs" bs, OF order.refl]])
    fix t' assume "good ?t t' \<and> pending t' = take 128 (pending ?t @ take (length bs) bs) \<and>
      t' = ?t\<lparr>Replies := Replies t', ReplyLength := ReplyLength t'\<rparr>"
    then show "stay t t'" by (metis stay_fields(3,21,22) stay_refl)
  qed
  have modes: "ok (SetModes ?t e) (stay t)" if "byte = 0x68 \<or> byte = 0x6c" for e
    using SetModes_stay [OF wf] sw st that by (auto simp: switches_def screen_mode_def)
  have fixed: "ok (QueueReply ?t [a, b, c, d] 4) (stay t)"
    "ok (QueueReply ?t [a, b, c, d, e, f, g] 7) (stay t)" for a b c d e f g
    using queue [of "[a, b, c, d]"] queue [of "[a, b, c, d, e, f, g]"] by (simp_all add: eval_nat_numeral)
  show ?thesis
    unfolding HandleCsi_def NonZeroParameter_eq [OF assms(1)] NonZeroParameter_eq [OF wf]
      Parameter_eq [OF wf] bind.bind_lunit Let_def
    apply (intro ok_ifI)
    by (rule ops sgr queue fixed modes | simp)+
qed

lemma CsiByte_stay:
  assumes wf: "wf_term t" and st: "ParserState t = ParserCsi" and "\<not> switches t byte"
  shows "ok (CsiByte sprint t byte) (stay t)"
proof -
  have range: "ParameterCount t - 1 < 16" "0 < ParameterCount t" "ParameterCount t \<le> 16"
    using wfD(5) [OF wf] by (auto simp: wf_params_def)
  have u: "usub (ParameterCount t) 1 = ParameterCount t - 1" using range by simp
  show ?thesis
    using range u HandleCsi_stay [OF assms, of sprint] wf_lengths(5) [OF wf]
    unfolding CsiByte_def Let_def by (simp add: aget_def aset_def)
qed

lemma FeedByte_stay:
  assumes wf: "wf_term t" and "\<not> switches t byte"
  shows "ok (FeedByte sprint t byte) (stay t)"
  using ground_stay [OF wf] EscapeByte_stay [OF wf] CsiByte_stay [OF wf _ assms(2)]
  by (cases "ParserState t") (auto simp: FeedByte_def)

text \<open>A run none of whose bytes switches screens.\<close>

fun stays :: "print_lib \<Rightarrow> term_state \<Rightarrow> UINT8 list \<Rightarrow> bool" where
  "stays sprint t [] = True"
| "stays sprint t (b # bs) = (\<not> switches t b \<and>
     (case FeedByte sprint t b of None \<Rightarrow> True | Some t' \<Rightarrow> stays sprint t' bs))"

lemma Feed_stay:
  assumes "wf_term t" and "stays sprint t bs"
  shows "ok (WolfSshTerminalFeed sprint t bs) (stay t)"
  using assms
proof (induction bs arbitrary: t)
  case Nil
  then show ?case by simp
next
  case (Cons b bs)
  obtain t' where t': "FeedByte sprint t b = Some t'" "wf_term t'"
    using FeedByte_ok [OF Cons.prems(1), of sprint b] by (auto elim!: okE dest: keptD(1))
  have "stay t t'" using FeedByte_stay [OF Cons.prems(1), of b sprint] Cons.prems(2) t'(1) by (simp add: ok_def)
  then show ?case using Cons.IH [OF t'(2)] Cons.prems(2) t'(1)
    by (auto simp: Feed_Cons intro: stay_ok_trans)
qed

section \<open>Private modes\<close>

definition private_sequence :: "nat \<Rightarrow> UINT8 \<Rightarrow> UINT8 list" where
  "private_sequence n final = 0x1b # 0x5b # 0x3f # decimal n @ [final]"

definition private_state :: "term_state \<Rightarrow> nat \<Rightarrow> term_state" where
  "private_state t n = (csi_state t [n] 1)\<lparr>PrivateCsi := True\<rparr>"

lemma private_state_wf: "wf_term t \<Longrightarrow> n \<le> 9999999 \<Longrightarrow> wf_term (private_state t n)"
  using csi_state_wf [of t "[n]" 1] by (simp add: private_state_def)

lemma Feed_private:
  assumes wf: "wf_term t" and out: "outside_osc t" and n: "n \<le> 9999999"
    and final: "0x40 \<le> final" "final \<le> 0x7e"
  shows "WolfSshTerminalFeed sprint t (private_sequence n final) =
    map_option (\<lambda>t. t\<lparr>ParserState := ParserGround\<rparr>) (HandleCsi sprint (private_state t n) final)"
proof -
  let ?t0 = "t\<lparr>ParserState := ParserEscape, Utf8Remaining := 0\<rparr>"
  let ?t1 = "csi_state t [] (Suc 0)"
  have "length (Parameters ?t0) = 16" using wf by simp
  then have open_csi: "FeedByte sprint ?t0 0x5b = Some ?t1"
    by (simp add: FeedByte_def EscapeByte_def ResetParser_eq reset_parser_def csi_state_def)
  have mark: "FeedByte sprint ?t1 0x3f = Some (?t1\<lparr>PrivateCsi := True\<rparr>)"
    by (simp add: FeedByte_def CsiByte_def csi_state_def)
  have wf1: "wf_term (?t1\<lparr>PrivateCsi := True\<rparr>)" using csi_state_wf [OF wf, of "[]" "Suc 0"] by simp
  have "with_last (?t1\<lparr>PrivateCsi := True\<rparr>) v = (with_last ?t1 v)\<lparr>PrivateCsi := True\<rparr>" for v
    by (simp add: with_last_def)
  then have digits: "WolfSshTerminalFeed sprint (?t1\<lparr>PrivateCsi := True\<rparr>) (decimal n) = Some (private_state t n)"
    using Feed_decimal [OF wf1 _ _ n, of sprint] with_last_csi_state [of "[]" t n]
    by (simp add: csi_state_def private_state_def)
  have "final \<noteq> 0x1b" using final(1) by auto
  then have last: "FeedByte sprint (private_state t n) final = CsiByte sprint (private_state t n) final"
    by (simp add: FeedByte_def private_state_def csi_state_def)
  show ?thesis
    unfolding private_sequence_def Feed_escape [OF out]
      CsiByte_final [OF private_state_wf [OF wf n] final, symmetric] last [symmetric]
    by (simp add: Feed_Cons [of _ ?t0] Feed_Cons [of _ ?t1] open_csi mark Feed_append' [OF digits])
      (simp add: Feed_Cons)
qed

lemma HandleCsi_alternate:
  assumes wf: "wf_term t" and n: "n = 47 \<or> n = 1047 \<or> n = 1049"
  shows "HandleCsi sprint (private_state t n) (if enable then 0x68 else 0x6c) =
    SetAlternateScreen ((private_state t n)\<lparr>WrapPending := False\<rparr>) enable"
proof -
  let ?t = "private_state t n"
  have wf1: "wf_term ?t" by (rule private_state_wf [OF wf]) (use n in auto)
  then have wf2: "wf_term (?t\<lparr>WrapPending := False\<rparr>)" by simp
  have "param (?t\<lparr>WrapPending := False\<rparr>) 0 0 = int n"
    by (simp add: param_def private_state_def csi_state_def)
  then have p: "Parameter (?t\<lparr>WrapPending := False\<rparr>) 0 0 = Some (int n)"
    unfolding Parameter_eq [OF wf2] by simp
  have "PrivateCsi (?t\<lparr>WrapPending := False\<rparr>)" by (simp add: private_state_def)
  then have m: "SetMode (?t\<lparr>WrapPending := False\<rparr>) (int n) enable =
      SetAlternateScreen (?t\<lparr>WrapPending := False\<rparr>) enable"
    using n by (auto simp: SetMode_def)
  have "ParameterCount (?t\<lparr>WrapPending := False\<rparr>) = Suc 0"
    by (simp add: private_state_def csi_state_def)
  then have "SetModes (?t\<lparr>WrapPending := False\<rparr>) enable =
      SetAlternateScreen (?t\<lparr>WrapPending := False\<rparr>) enable"
    unfolding SetModes_def
    by (cases "SetAlternateScreen (?t\<lparr>WrapPending := False\<rparr>) enable") (simp_all add: for_below_step p m)
  then show ?thesis
    unfolding HandleCsi_def NonZeroParameter_eq [OF wf1] bind.bind_lunit Let_def by (cases enable) simp_all
qed

text \<open>Entering and leaving, as the sequences sent by full-screen programs do it.\<close>

lemma Feed_enter_eq:
  assumes wf: "wf_term t" and out: "outside_osc t" and "\<not> AlternateActive t"
    and n: "n = 47 \<or> n = 1047 \<or> n = 1049"
  shows "WolfSshTerminalFeed sprint t (private_sequence n 0x68) =
    Some ((enter_alternate ((private_state t n)\<lparr>WrapPending := False\<rparr>))\<lparr>ParserState := ParserGround\<rparr>)"
proof -
  let ?t = "(private_state t n)\<lparr>WrapPending := False\<rparr>"
  have wf': "wf_term ?t" using private_state_wf [OF wf] n by auto
  have off: "\<not> AlternateActive ?t" using assms(3) by (simp add: private_state_def csi_state_def)
  show ?thesis
    using Feed_private [OF wf out, of n "0x68" sprint] n HandleCsi_alternate [OF wf n, of sprint True]
      SetAlternateScreen_enter [OF wf' off] by auto
qed

lemma Feed_enter:
  assumes wf: "wf_term t" and out: "outside_osc t" and "\<not> AlternateActive t"
    and n: "n = 47 \<or> n = 1047 \<or> n = 1049"
  shows "ok (WolfSshTerminalFeed sprint t (private_sequence n 0x68)) (\<lambda>t'. kept t t' \<and>
    AlternateActive t' \<and> Primary t' = Primary t \<and> PrimaryRow t' = Row t \<and> PrimaryColumn t' = Column t \<and>
    (\<forall>r c. on_screen t r c \<longrightarrow> grid t' r c = default_blank t))"
proof -
  let ?t = "(private_state t n)\<lparr>WrapPending := False\<rparr>"
  note eq = Feed_enter_eq [OF assms, of sprint]
  have "kept t ((enter_alternate ?t)\<lparr>ParserState := ParserGround\<rparr>)"
    using Feed_kept [OF wf, of sprint "private_sequence n 0x68"] unfolding eq by simp
  moreover have "grid ((enter_alternate ?t)\<lparr>ParserState := ParserGround\<rparr>) r c = default_blank t"
    if "on_screen t r c" for r c
    using that cell_index_lt [of r "Rows t" c "Columns t"]
    by (simp add: grid_def grid_of_def on_screen_def enter_alternate_def private_state_def csi_state_def
        buffer_def default_blank_def)
  ultimately show ?thesis unfolding eq ok_Some
    by (simp add: enter_alternate_def private_state_def csi_state_def)
qed

lemma Feed_leave:
  assumes wf: "wf_term t" and out: "outside_osc t" and "AlternateActive t"
    and n: "n = 47 \<or> n = 1047 \<or> n = 1049"
  shows "ok (WolfSshTerminalFeed sprint t (private_sequence n 0x6c)) (\<lambda>t'. kept t t' \<and>
    \<not> AlternateActive t' \<and> grid t' = grid_of (Rows t) (Columns t) (Primary t) \<and>
    Row t' = min (PrimaryRow t) (Rows t - 1) \<and> Column t' = min (PrimaryColumn t) (Columns t - 1) \<and>
    (\<forall>r c. on_screen t r c \<longrightarrow> dirty t' r c))"
proof -
  let ?t = "(private_state t n)\<lparr>WrapPending := False\<rparr>"
  have wf': "wf_term ?t" using private_state_wf [OF wf] n by auto
  have on: "AlternateActive ?t" using assms(3) by (simp add: private_state_def csi_state_def)
  obtain t1 where t1: "SetAlternateScreen ?t False = Some (t1\<lparr>WrapPending := False\<rparr>)"
    and d: "drawn (leave_alternate ?t) t1" and g: "grid t1 = grid (leave_alternate ?t)"
    and all: "\<And>r c. on_screen ?t r c \<Longrightarrow> dirty t1 r c"
    using SetAlternateScreen_leave [OF wf' on] by (auto elim!: okE)
  have eq: "WolfSshTerminalFeed sprint t (private_sequence n 0x6c) =
      Some (t1\<lparr>WrapPending := False, ParserState := ParserGround\<rparr>)"
    using Feed_private [OF wf out, of n "0x6c" sprint] n HandleCsi_alternate [OF wf n, of sprint False] t1
    by auto
  have k: "kept t (t1\<lparr>WrapPending := False, ParserState := ParserGround\<rparr>)"
    using Feed_kept [OF wf, of sprint "private_sequence n 0x6c"] unfolding eq by simp
  have g': "grid (t1\<lparr>WrapPending := False, ParserState := ParserGround\<rparr>) = grid t1"
    by (simp add: grid_def buffer_def split: SCREEN.splits)
  have gl: "grid (leave_alternate ?t) = grid_of (Rows t) (Columns t) (Primary t)"
    by (simp add: grid_def buffer_def leave_alternate_def private_state_def csi_state_def)
  have dd: "dirty (t1\<lparr>WrapPending := False, ParserState := ParserGround\<rparr>) = dirty t1"
    by (simp add: dirty_def fun_eq_iff)
  have all': "on_screen t r c \<Longrightarrow> dirty t1 r c" for r c
    using all [of r c] by (simp add: on_screen_def private_state_def csi_state_def)
  show ?thesis unfolding eq ok_Some g' g gl dd
    using k all' frame_sel [OF drawn_frame [OF d]]
    by (simp add: leave_alternate_def private_state_def csi_state_def)
qed

text \<open>Any session on the alternate screen, from entering to leaving.\<close>

lemma alternate_session:
  assumes wf: "wf_term t" and out: "outside_osc t" and off: "\<not> AlternateActive t"
    and n: "n = 47 \<or> n = 1047 \<or> n = 1049"
    and t1: "WolfSshTerminalFeed sprint t (private_sequence n 0x68) = Some t1"
    and stays: "stays sprint t1 bs"
    and t2: "WolfSshTerminalFeed sprint t1 bs = Some t2" and out2: "outside_osc t2"
  shows "ok (WolfSshTerminalFeed sprint t (private_sequence n 0x68 @ bs @ private_sequence n 0x6c))
    (\<lambda>t3. wf_term t3 \<and> \<not> AlternateActive t3 \<and> grid t3 = grid t \<and> Row t3 = Row t \<and> Column t3 = Column t \<and>
      (\<forall>r c. on_screen t r c \<longrightarrow> dirty t3 r c))"
proof -
  have e: "kept t t1" "AlternateActive t1" "Primary t1 = Primary t" "PrimaryRow t1 = Row t"
    "PrimaryColumn t1 = Column t"
    using Feed_enter [OF wf out off n, of sprint] t1 by (simp_all add: ok_def)
  have k2: "kept t1 t2" using Feed_kept [OF keptD(1) [OF e(1)], of sprint bs] t2 by simp
  have cells: "Cells t1 = AlternateScreen" using wfD(8) [OF keptD(1) [OF e(1)]] e(2) by (simp add: wf_screen_def)
  have cells0: "Cells t = PrimaryScreen"
    using wfD(8) [OF wf] off by (cases "Cells t") (simp_all add: wf_screen_def)
  have s: "stay t1 t2" using Feed_stay [OF keptD(1) [OF e(1)] stays] t2 by simp
  then have p: "AlternateActive t2" "Primary t2 = Primary t" "PrimaryRow t2 = Row t" "PrimaryColumn t2 = Column t"
    using e cells by (auto simp: stay_def buffer_def split: SCREEN.splits)
  have sizes: "Rows t2 = Rows t" "Columns t2 = Columns t"
    using keptD(2,3) [OF e(1)] keptD(2,3) [OF k2] by simp_all
  have "on_screen t2 = on_screen t" using sizes by (simp add: on_screen_def fun_eq_iff)
  moreover have "grid t = grid_of (Rows t) (Columns t) (Primary t)"
    by (simp add: grid_def buffer_def cells0)
  ultimately show ?thesis
    using Feed_leave [OF keptD(1) [OF k2] out2 p(1) n, of sprint] wf_bounds(5,6) [OF wf] sizes p
    by (simp add: Feed_append' [OF t1] Feed_append' [OF t2])
      (erule ok_mono, auto dest: keptD(1))
qed

end
