(* ===== verification/Term_Ref.thy ===== *)
theory Term_Ref
  imports Term_Alt Term_Keys
begin

text \<open>
  Reference definitions the emulator is compared with: the line feed on every branch, an
  interpreter of SGR parameter lists that knows nothing of indices, and a small model of a text
  console that meets \<open>text_console\<close>.
\<close>

section \<open>Line feed and autowrap\<close>

lemma rows_up_update [simp]:
  "rows_up (t\<lparr>WrapPending := w\<rparr>) a n b = rows_up t a n b"
  "rows_up (t\<lparr>Column := c\<rparr>) a n b = rows_up t a n b"
  by (simp_all add: rows_up_def overlay_def fun_eq_iff)

lemma IndexDown_ok:
  assumes wf: "wf_term t"
  shows "ok (IndexDown t) (\<lambda>t'. wf_term t' \<and> \<not> WrapPending t' \<and> Column t' = Column t \<and>
    TerminalAttribute t' = TerminalAttribute t \<and> InsertMode t' = InsertMode t \<and> Rows t' = Rows t \<and>
    Columns t' = Columns t \<and>
    Row t' = (if Row t = ScrollBottom t then Row t else min (Rows t - 1) (Row t + 1)) \<and>
    grid t' = (if Row t = ScrollBottom t then rows_up t (ScrollTop t) 1 (ScrollBottom t) else grid t))"
proof (cases "Row t = ScrollBottom t")
  case True
  let ?t = "t\<lparr>WrapPending := False\<rparr>"
  have wf': "wf_term ?t" using wf by simp
  have "1 \<le> region_rows ?t" using wf_bounds [OF wf] by (simp add: region_rows_def)
  then have m: "min 1 (region_rows ?t) = 1" by simp
  have eq: "IndexDown t = ScrollUp ?t 1" using True by (simp add: IndexDown_def)
  obtain t' where t': "ScrollUp ?t 1 = Some t'" "drawn ?t t'" "grid t' = rows_up ?t (ScrollTop ?t) 1 (ScrollBottom ?t)"
    using ScrollUp_ok [OF wf', of 1] unfolding m by (auto elim!: okE)
  show ?thesis unfolding eq t'(1) ok_Some
    using True t'(3) frame_sel [OF drawn_frame [OF t'(2)]] drawn_wf [OF wf' t'(2)]
      TerminalAttribute_frame [OF drawn_frame [OF t'(2)]]
    by simp
next
  case False
  have "uadd (Row t) 1 = Row t + 1" using wf_bounds [OF wf] by simp
  then show ?thesis using False wf_bounds [OF wf]
    by (auto simp: IndexDown_def Let_def wf wf_cursor_update min_def)
qed

text \<open>
  A character printed when a wrap is pending goes to the first column of the next line. The last line
  of the screen has no next line: below the scrolling region it is used again.
\<close>

lemma PutCharacter_wraps:
  assumes wf: "wf_term t" and wrap: "WrapPending t" and ch: "ch \<noteq> 0"
  shows "ok (PutCharacter t ch) (\<lambda>t'.
    let row = (if Row t = ScrollBottom t \<or> Row t = Rows t - 1 then Row t else Row t + 1);
        old = (if Row t = ScrollBottom t then rows_up t (ScrollTop t) 1 (ScrollBottom t) else grid t)
    in Row t' = row \<and> Column t' = (if Columns t = 1 then 0 else 1) \<and>
       WrapPending t' = (Columns t = 1) \<and>
       grid t' = (\<lambda>r c. if r = row \<and> c = 0 then \<lparr>Character = ch, Attribute = TerminalAttribute t\<rparr>
         else if r = row \<and> InsertMode t \<and> c < Columns t then old r (c - 1) else old r c))"
proof -
  let ?t = "t\<lparr>Column := 0\<rparr>"
  have wf0: "wf_term ?t" by (rule wf_cursor_update(2) [OF wf]) (use wf_bounds [OF wf] in simp)
  obtain t1 where t1: "IndexDown ?t = Some t1" "wf_term t1" "\<not> WrapPending t1" "Column t1 = 0"
    "TerminalAttribute t1 = TerminalAttribute t" "InsertMode t1 = InsertMode t" "Columns t1 = Columns t"
    and r: "Row t1 = (if Row ?t = ScrollBottom ?t then Row ?t else min (Rows ?t - 1) (Row ?t + 1))"
    and o: "grid t1 = (if Row ?t = ScrollBottom ?t then rows_up ?t (ScrollTop ?t) 1 (ScrollBottom ?t) else grid ?t)"
    using IndexDown_ok [OF wf0] by (rule okE) simp
  have row: "Row t1 = (if Row t = ScrollBottom t \<or> Row t = Rows t - 1 then Row t else Row t + 1)"
    using r wf_bounds [OF wf] by (auto simp: min_def)
  have old: "grid t1 = (if Row t = ScrollBottom t then rows_up t (ScrollTop t) 1 (ScrollBottom t) else grid t)"
    using o by (cases "Row t = ScrollBottom t") simp_all
  obtain t2 where t2: "PutCharacter t1 ch = Some (advance t2)" "drawn t1 t2" "grid t2 = put_grid t1 ch"
    using PutCharacter_ok [OF t1(2,3) ch] by (auto elim!: okE)
  have f: "Row t2 = Row t1" "Column t2 = Column t1" "Columns t2 = Columns t1" "WrapPending t2 = WrapPending t1"
    using frame_sel [OF drawn_frame [OF t2(2)]] by simp_all
  have g: "grid (advance t2) = put_grid t1 ch" using t2(3) by (simp add: advance_def)
  have pg: "put_grid t1 ch = (\<lambda>r c. if r = Row t1 \<and> c = 0
      then \<lparr>Character = ch, Attribute = TerminalAttribute t\<rparr>
      else if r = Row t1 \<and> InsertMode t \<and> c < Columns t then grid t1 r (c - 1) else grid t1 r c)"
    using t1(4-7) by (auto simp: put_grid_def fun_eq_iff)
  show ?thesis
    unfolding PutCharacter_wrap [OF wf wrap] t1(1) bind.bind_lunit t2(1) ok_Some Let_def g pg row old
    using t1(3) f wf_bounds(1) [OF wf] by (simp add: advance_def t1(4,7) row)
qed

section \<open>Select graphic rendition\<close>

type_synonym rendition = "nat \<times> nat \<times> bool \<times> bool"

definition set_ground :: "int \<Rightarrow> nat \<Rightarrow> rendition \<Rightarrow> rendition" where
  "set_ground v color = (\<lambda>(fg, bg, bold, rev).
     if v = 38 then (color, bg, bold, rev) else (fg, color, bold, rev))"

definition sgr_simple :: "nat \<Rightarrow> nat \<Rightarrow> int \<Rightarrow> rendition \<Rightarrow> rendition" where
  "sgr_simple dfg dbg v = (\<lambda>(fg, bg, bold, rev).
     if v = 0 then (dfg, dbg, False, False)
     else if v = 1 then (fg, bg, True, rev)
     else if v = 22 then (fg, bg, False, rev)
     else if v = 7 then (fg, bg, bold, True)
     else if v = 27 then (fg, bg, bold, False)
     else if 30 \<le> v \<and> v \<le> 37 then (nat (v - 30), bg, bold, rev)
     else if 90 \<le> v \<and> v \<le> 97 then (nat (v - 82), bg, bold, rev)
     else if v = 39 then (dfg, bg, bold, rev)
     else if 40 \<le> v \<and> v \<le> 47 then (fg, nat (v - 40), bold, rev)
     else if 100 \<le> v \<and> v \<le> 107 then (fg, nat (v - 92), bold, rev)
     else if v = 49 then (fg, dbg, bold, rev)
     else (fg, bg, bold, rev))"

fun sgr :: "nat \<Rightarrow> nat \<Rightarrow> int list \<Rightarrow> rendition \<Rightarrow> rendition" where
  "sgr dfg dbg [] x = x"
| "sgr dfg dbg (v # vs) x =
     (if v = 38 \<or> v = 48 then
        (case vs of
           k # c # rest \<Rightarrow>
             if k = 5 then sgr dfg dbg rest (set_ground v (Map256Color (nat c)) x)
             else if k = 2 then
               (case rest of
                  g # b # rest' \<Rightarrow> sgr dfg dbg rest' (set_ground v (MapRgbColor (nat c) (nat g) (nat b)) x)
                | _ \<Rightarrow> sgr dfg dbg vs x)
             else sgr dfg dbg vs x
         | _ \<Rightarrow> sgr dfg dbg vs x)
      else sgr dfg dbg vs (sgr_simple dfg dbg v x))"

definition params :: "term_state \<Rightarrow> int list" where
  "params t = map (\<lambda>i. param t i 0) [0..<ParameterCount t]"

definition rendition :: "term_state \<Rightarrow> rendition" where
  "rendition t = (Foreground t, Background t, Bold t, Reverse t)"

definition rendered :: "term_state \<Rightarrow> rendition \<Rightarrow> term_state" where
  "rendered t = (\<lambda>(fg, bg, bold, rev). t\<lparr>Foreground := fg, Background := bg, Bold := bold, Reverse := rev\<rparr>)"

lemma rendered_sel [simp]:
  "ParameterCount (rendered t x) = ParameterCount t" "Parameters (rendered t x) = Parameters t"
  "DefaultForeground (rendered t x) = DefaultForeground t"
  "DefaultBackground (rendered t x) = DefaultBackground t"
  "rendition (rendered t x) = x" "rendered (rendered t x) y = rendered t y"
  by (simp_all add: rendered_def rendition_def split: prod.splits)

lemma rendered_self [simp]: "rendered t (rendition t) = t"
  by (simp add: rendered_def rendition_def)

lemma param_rendered [simp]: "param (rendered t x) i d = param t i d"
  unfolding param_def rendered_sel ..

lemma params_rendered [simp]: "params (rendered t x) = params t"
  by (simp add: params_def)

lemma length_params [simp]: "length (params t) = ParameterCount t"
  by (simp add: params_def)

lemma nth_params: "i < ParameterCount t \<Longrightarrow> params t ! i = param t i 0"
  by (simp add: params_def)

text \<open>One step of the loop consumes what the reference consumes.\<close>

definition sgr_used :: "term_state \<Rightarrow> nat \<Rightarrow> nat" where
  "sgr_used t i =
     (if (param t i 0 = 38 \<or> param t i 0 = 48) \<and> i + 2 < ParameterCount t \<and> param t (i + 1) 0 = 5 then 2
      else if (param t i 0 = 38 \<or> param t i 0 = 48) \<and> i + 4 < ParameterCount t \<and> param t (i + 1) 0 = 2 then 4
      else 0)"

definition sgr_effect :: "term_state \<Rightarrow> nat \<Rightarrow> rendition \<Rightarrow> rendition" where
  "sgr_effect t i =
     (if sgr_used t i = 2 then set_ground (param t i 0) (Map256Color (nat (param t (i + 2) 0)))
      else if sgr_used t i = 4 then set_ground (param t i 0)
        (MapRgbColor (nat (param t (i + 2) 0)) (nat (param t (i + 3) 0)) (nat (param t (i + 4) 0)))
      else sgr_simple (DefaultForeground t) (DefaultBackground t) (param t i 0))"

lemma sgr_unfold:
  "sgr dfg dbg (v # vs) x =
    (if (v = 38 \<or> v = 48) \<and> 2 \<le> length vs \<and> vs ! 0 = 5
     then sgr dfg dbg (drop 2 vs) (set_ground v (Map256Color (nat (vs ! 1))) x)
     else if (v = 38 \<or> v = 48) \<and> 4 \<le> length vs \<and> vs ! 0 = 2
     then sgr dfg dbg (drop 4 vs) (set_ground v (MapRgbColor (nat (vs ! 1)) (nat (vs ! 2)) (nat (vs ! 3))) x)
     else sgr dfg dbg vs (sgr_simple dfg dbg v x))"
proof -
  have neutral: "sgr_simple dfg dbg v x = x" if "v = 38 \<or> v = 48"
    using that by (auto simp: sgr_simple_def split: prod.splits)
  show ?thesis
    by (subst sgr.simps(2))
      (use neutral in \<open>auto simp del: sgr.simps simp: eval_nat_numeral split: list.splits\<close>)
qed

lemma sgr_step:
  assumes "i < ParameterCount t"
  shows "sgr (DefaultForeground t) (DefaultBackground t) (drop i (params t)) x =
    sgr (DefaultForeground t) (DefaultBackground t) (drop (i + sgr_used t i + 1) (params t)) (sgr_effect t i x)"
proof -
  have d: "drop i (params t) = param t i 0 # drop (Suc i) (params t)"
    using assms by (metis Cons_nth_drop_Suc length_params nth_params)
  define vs where "vs = drop (Suc i) (params t)"
  have l: "length vs = ParameterCount t - Suc i" by (simp add: vs_def)
  have n: "vs ! 0 = param t (i + 1) 0" if "i + 2 < ParameterCount t"
    using that by (simp add: vs_def nth_params)
  have n2: "vs ! 1 = param t (i + 2) 0" if "i + 2 < ParameterCount t"
    using that by (simp add: vs_def nth_params)
  have n4: "vs ! 2 = param t (i + 3) 0" "vs ! 3 = param t (i + 4) 0" if "i + 4 < ParameterCount t"
    using that by (simp_all add: vs_def nth_params numeral_eq_Suc)
  have dr: "drop (i + 0 + 1) (params t) = vs" "drop (i + 2 + 1) (params t) = drop 2 vs"
    "drop (i + 4 + 1) (params t) = drop 4 vs"
    by (simp_all add: vs_def add.commute)
  have l2: "2 \<le> length vs \<longleftrightarrow> i + 2 < ParameterCount t" and l4: "4 \<le> length vs \<longleftrightarrow> i + 4 < ParameterCount t"
    using l assms by linarith+
  let ?ext = "param t i 0 = 38 \<or> param t i 0 = 48"
  consider (five) "?ext" "i + 2 < ParameterCount t" "param t (i + 1) 0 = 5"
    | (two) "?ext" "i + 4 < ParameterCount t" "param t (i + 1) 0 = 2"
    | (other) "\<not> (?ext \<and> i + 2 < ParameterCount t \<and> param t (i + 1) 0 = 5)"
      "\<not> (?ext \<and> i + 4 < ParameterCount t \<and> param t (i + 1) 0 = 2)" by blast
  then show ?thesis
  proof cases
    case five
    then have u: "sgr_used t i = 2" by (simp add: sgr_used_def)
    show ?thesis unfolding d vs_def [symmetric] sgr_unfold [of _ _ _ vs] l2 n [OF five(2)] sgr_effect_def u dr
      using five by (simp only: n2 simp_thms if_True refl)
  next
    case two
    then have u: "sgr_used t i = 4" and b: "i + 2 < ParameterCount t" by (simp_all add: sgr_used_def)
    have e: "(param t (i + 1) 0 = 5) = False" "(4 = (2::nat)) = False" using two by simp_all
    show ?thesis unfolding d vs_def [symmetric] sgr_unfold [of _ _ _ vs] l4 n [OF b] sgr_effect_def u dr e
      using two by (simp only: n2 [OF b] n4 simp_thms if_True if_False refl)
  next
    case other
    then have u: "sgr_used t i = 0" unfolding sgr_used_def by argo
    have e: "(?ext \<and> 2 \<le> length vs \<and> vs ! 0 = 5) = False" "(?ext \<and> 4 \<le> length vs \<and> vs ! 0 = 2) = False"
      using other n l2 l4 by auto
    show ?thesis unfolding d vs_def [symmetric] sgr_unfold [of _ _ _ vs] e if_False sgr_effect_def u dr by simp
  qed
qed

lemma SgrStep_eq:
  assumes wf: "wf_term t"
  shows "SgrStep t i = Some (rendered t (sgr_effect t i (rendition t)), sgr_used t i)"
proof -
  have r: "0 \<le> param t j 0" "param t j 0 < 2 ^ 31" for j
    using param_ge [of 0 t j] param_le [OF wf, of 0 j] by simp_all
  have k: "param t (i + 1) (-1) = v \<longleftrightarrow> param t (i + 1) 0 = v" if "0 < v" for v
    using that by (auto simp: param_def)
  define v where "v = param t i 0"
  have used: "sgr_used t i = 0" if "v \<noteq> 38" "v \<noteq> 48" using that by (simp add: sgr_used_def v_def)
  note defs = SgrStep_def Parameter_eq [OF wf] bind.bind_lunit v_def [symmetric]
  note eff = sgr_effect_def sgr_simple_def rendition_def rendered_def v_def [symmetric] prod.case
  consider "v = 0" | "v = 1" | "v = 22" | "v = 7" | "v = 27" | "30 \<le> v \<and> v \<le> 37" | "90 \<le> v \<and> v \<le> 97"
    | "v = 39" | "40 \<le> v \<and> v \<le> 47" | "100 \<le> v \<and> v \<le> 107" | "v = 49" | "v = 38 \<or> v = 48"
    | "v \<noteq> 0 \<and> v \<noteq> 1 \<and> v \<noteq> 22 \<and> v \<noteq> 7 \<and> v \<noteq> 27 \<and> \<not> (30 \<le> v \<and> v \<le> 37) \<and> \<not> (90 \<le> v \<and> v \<le> 97) \<and>
       v \<noteq> 39 \<and> \<not> (40 \<le> v \<and> v \<le> 47) \<and> \<not> (100 \<le> v \<and> v \<le> 107) \<and> v \<noteq> 49 \<and> v \<noteq> 38 \<and> v \<noteq> 48"
    by blast
  then show ?thesis
  proof cases
    case 12
    have u: "UINTN_of_INT32 (param t j 0) = nat (param t j 0)" for j using r by simp
    have tail: "SgrStep t i = (if i + 2 < ParameterCount t \<and> param t (i + 1) 0 = 5
        then Some (set_color v (Map256Color (nat (param t (i + 2) 0))) t, 2)
        else if i + 4 < ParameterCount t \<and> param t (i + 1) 0 = 2
        then Some (set_color v (MapRgbColor (nat (param t (i + 2) 0)) (nat (param t (i + 3) 0))
          (nat (param t (i + 4) 0))) t, 4)
        else Some (t, 0))"
      using 12 k [of 5] k [of 2] unfolding defs u by (elim disjE) simp_all
    have "sgr_simple a b v x = x" for a b x
      using 12 by (elim disjE) (simp_all add: sgr_simple_def split: prod.splits)
    then have neutral: "rendered t (sgr_simple a b v (rendition t)) = t" for a b by simp
    have ground: "rendered t (set_ground v c (rendition t)) = set_color v c t" for c
      by (simp add: set_ground_def rendition_def rendered_def set_color_def)
    show ?thesis unfolding tail sgr_effect_def sgr_used_def v_def [symmetric]
      using 12 neutral ground by (simp add: v_def)
  next
    case 13
    then have e: "(v = 0) = False" "(v = 1) = False" "(v = 22) = False" "(v = 7) = False" "(v = 27) = False"
      "(30 \<le> v \<and> v \<le> 37) = False" "(90 \<le> v \<and> v \<le> 97) = False" "(v = 39) = False"
      "(40 \<le> v \<and> v \<le> 47) = False" "(100 \<le> v \<and> v \<le> 107) = False" "(v = 49) = False"
      "(v = 38) = False" "(v = 48) = False" by argo+
    have z: "sgr_used t i = 0" using used e by simp
    show ?thesis unfolding defs eff z e by simp
  qed (use used in \<open>simp_all add: defs eff\<close>)
qed

lemma SgrLoop_eq:
  assumes "wf_term t"
  shows "SgrLoop (ParameterCount t) i t = Some (rendered t
    (sgr (DefaultForeground t) (DefaultBackground t) (drop i (params t)) (rendition t)))"
  using assms
proof (induction "ParameterCount t" i t rule: SgrLoop.induct)
  case (1 i t)
  show ?case
  proof (cases "i < ParameterCount t")
    case True
    let ?t = "rendered t (sgr_effect t i (rendition t))"
    have s: "SgrStep t i = Some (?t, sgr_used t i)" by (rule SgrStep_eq [OF "1.prems"])
    have wf': "wf_term ?t" using SgrStep_ok [OF "1.prems", of i] s by simp
    have "SgrLoop (ParameterCount ?t) (i + sgr_used t i + 1) ?t = Some (rendered ?t
        (sgr (DefaultForeground ?t) (DefaultBackground ?t) (drop (i + sgr_used t i + 1) (params ?t)) (rendition ?t)))"
      using "1.hyps" [OF True s refl] wf' by simp
    then show ?thesis
      using True s sgr_step [OF True, of "rendition t"]
      by (simp add: SgrLoop.simps [of _ i])
  next
    case False
    then show ?thesis by (simp add: SgrLoop.simps [of _ i])
  qed
qed

lemma SGR_eq:
  assumes "wf_term t"
  shows "SelectGraphicRendition t = Some (rendered t
    (sgr (DefaultForeground t) (DefaultBackground t) (params t) (rendition t)))"
  using SgrLoop_eq [OF assms, of 0] by (simp add: SelectGraphicRendition_def)

section \<open>A console\<close>

text \<open>
  A console of the specified kind exists: it keeps the cursor and the characters, and writes a
  string from the cursor on.
\<close>

fun glass_step ::
  "(nat \<times> nat) \<times> (nat \<Rightarrow> nat \<Rightarrow> CHAR16) \<Rightarrow> CONSOLE_CALL \<Rightarrow> (nat \<times> nat) \<times> (nat \<Rightarrow> nat \<Rightarrow> CHAR16)" where
  "glass_step (_, g) ClearScreen = ((0, 0), \<lambda>_ _. 32)"
| "glass_step s (EnableCursor _) = s"
| "glass_step s (SetAttribute _) = s"
| "glass_step (_, g) (SetCursorPosition x y) = ((x, y), g)"
| "glass_step ((x, y), g) (OutputString s) = ((x + length s, y),
     \<lambda>r c. if r = y \<and> x \<le> c \<and> c < x + length s then s ! (c - x) else g r c)"

definition glass :: "CONSOLE_CALL list \<Rightarrow> nat \<Rightarrow> nat \<Rightarrow> CHAR16" where
  "glass tr = snd (foldl glass_step ((0, 0), \<lambda>_ _. 32) tr)"

lemma glass_console: "text_console rows cols glass"
proof -
  have "glass_step s (EnableCursor e) = s" "glass_step s (SetAttribute a) = s"
    "snd (glass_step s ClearScreen) = (\<lambda>_ _. 32)"
    "glass_step s (SetCursorPosition x y) = ((x, y), snd s)" for s e a x y
    by (cases s; simp)+
  then show ?thesis unfolding text_console_def glass_def by simp
qed

end
