(* ===== verification/Term_Props.thy ===== *)
theory Term_Props
  imports Term_Ref
begin

text \<open>
  The properties of the emulator, each with a witness on a small terminal. \<open>tiny\<close> has two rows and
  three columns, light grey on black, as \<open>WolfSshTerminalCreate\<close> makes it; \<open>position_printer\<close> is a
  print library that meets \<open>prints_position\<close>, and \<open>glass\<close> a console that meets \<open>text_console\<close>.
\<close>

section \<open>Concrete instances\<close>

definition tiny :: term_state where
  "tiny = created_terminal 3 2 7 0 (replicate 4 0)"

lemma wf_tiny: "wf_term tiny"
  unfolding tiny_def by (rule created_terminal_wf) simp_all

lemma tiny_sel [simp]:
  "Rows tiny = 2" "Columns tiny = 3" "Row tiny = 0" "Column tiny = 0" "Cells tiny = PrimaryScreen"
  "WrapPending tiny = False" "InsertMode tiny = False" "AlternateActive tiny = False"
  "ParserState tiny = ParserGround" "Utf8Remaining tiny = 0" "ReplyLength tiny = 0"
  "ApplicationCursor tiny = False" "ConOut tiny = []" "ScrollTop tiny = 0" "ScrollBottom tiny = 1"
  by (simp_all add: tiny_def created_terminal_def zeroed_terminal_def)

lemma tiny_outside: "outside_osc tiny"
  by (simp add: outside_osc_def)

lemma tiny_pending: "pending tiny = []"
  by (simp add: pending_def)

definition position_printer :: print_lib where
  "position_printer capacity fmt args = (case args of
     [a, b] \<Rightarrow> 0x1b # 0x5b # decimal (unat a) @ 0x3b # decimal (unat b) @ [0x52]
   | _ \<Rightarrow> [])"

lemma position_printer_ok: "prints_position position_printer"
  by (simp add: prints_position_def position_printer_def)

definition tiny_A :: term_state where
  "tiny_A = the (WolfSshTerminalFeed position_printer tiny [0x41])"

lemma tiny_A_feed: "WolfSshTerminalFeed position_printer tiny [0x41] = Some tiny_A"
  using Feed_kept [OF wf_tiny, of position_printer "[0x41]"] by (auto simp: tiny_A_def elim!: okE)

lemmas put_A = tiny_A_def tiny_def created_terminal_def zeroed_terminal_def Feed_Cons FeedByte_def
  HandleGroundByte.simps PutCharacter_def WriteCell_def WriteBuffer_def CellAt_def MarkDirty_def
  aset_def buffer_def set_buffer_def

lemma tiny_A_eq:
  "tiny_A = tiny\<lparr>Primary := (replicate 6 (blank (EFI_TEXT_ATTR 7 0)))
       [0 := \<lparr>Character = 0x41, Attribute = TerminalAttribute tiny\<rparr>],
     DirtyStart := (replicate 2 3)[0 := 0], DirtyEnd := (replicate 2 0)[0 := 0], Column := 1\<rparr>"
  by (simp add: put_A)

lemma tiny_A_sel: "Rows tiny_A = 2" "Columns tiny_A = 3" "Cells tiny_A = PrimaryScreen"
  "DirtyStart tiny_A ! Suc 0 = 3" "DirtyEnd tiny_A ! Suc 0 = 0"
  by (simp_all add: tiny_A_eq)

lemma grid_of_all:
  assumes "\<forall>x \<in> set cs. P (Character x)" and "P 32" and "length cs = R * C"
  shows "P (Character (grid_of R C cs r c))"
  using assms cell_index_lt [of r R c C] by (auto simp: grid_of_def blank_def)

lemma tiny_A_plain: "plain (Character (grid tiny_A r c))"
proof -
  have wf: "wf_term tiny_A"
    using Feed_kept [OF wf_tiny, of position_printer "[0x41]"] tiny_A_feed by (auto dest: keptD(1))
  have "set (Primary tiny_A) \<subseteq> insert \<lparr>Character = 0x41, Attribute = TerminalAttribute tiny\<rparr>
      (set (replicate 6 (blank (EFI_TEXT_ATTR 7 0))))"
    using set_update_subset_insert [of "replicate 6 (blank (EFI_TEXT_ATTR 7 0))" 0
        "\<lparr>Character = 0x41, Attribute = TerminalAttribute tiny\<rparr>"]
    by (simp add: tiny_A_eq)
  then have "\<forall>x \<in> set (Primary tiny_A). plain (Character x)" by (auto simp: plain_def blank_def)
  moreover have "length (Primary tiny_A) = 2 * 3"
    using wf_lengths(1) [OF wf, of PrimaryScreen] by (simp add: buffer_def tiny_A_sel)
  ultimately have "plain (Character (grid_of 2 3 (Primary tiny_A) r c))"
    by (intro grid_of_all [where P = plain]) (simp_all add: plain_def)
  then show ?thesis by (simp add: grid_def buffer_def tiny_A_sel)
qed

lemma tiny_mirror: "mirror glass tiny"
proof -
  have "Character (grid tiny r c) = 32" if "on_screen tiny r c" for r c
    using created_terminal_blank(1) [of 3 2 7 0 "replicate 4 0" r c] that by (simp add: tiny_def blank_def)
  then show ?thesis by (simp add: mirror_def glass_def)
qed

section \<open>Safety\<close>

text \<open>
  C2. Memory safety and totality of the emulator: from a well-formed state, any bytes whatever are
  consumed without an access outside an array, every loop ends, and the state stays well-formed
  with its size unchanged.
\<close>

theorem feed_safe:
  assumes "wf_term t"
  shows "\<exists>t'. WolfSshTerminalFeed sprint t bytes = Some t' \<and> wf_term t' \<and>
    Rows t' = Rows t \<and> Columns t' = Columns t"
  using ok_exists [OF Feed_kept [OF assms, of sprint bytes]] by (auto dest: keptD)

theorem feed_safe_witness:
  "\<exists>t'. WolfSshTerminalFeed (\<lambda>_ _ _. []) tiny [0x1b, 0x5b, 0x32, 0x4a] = Some t' \<and> wf_term t' \<and>
    Rows t' = Rows tiny \<and> Columns t' = Columns tiny"
  by (rule feed_safe [OF wf_tiny])

section \<open>The glass\<close>

text \<open>
  C3. What the user sees: if the console shows the cells wherever nothing waits to be
  redrawn, then after any bytes are fed and the terminal is flushed, the console shows the
  character of every cell of the screen. The bottom right corner must not be due for redrawing,
  because writing there makes a UEFI console scroll, and no cell may hold a control character
  that the console would interpret.
\<close>

theorem feed_then_flush:
  assumes "wf_term t" and "text_console (Rows t) (Columns t) shown" and "mirror shown t"
    and "WolfSshTerminalFeed sprint t bytes = Some t1"
    and "\<not> dirty t1 (Rows t - 1) (Columns t - 1)"
    and "\<forall>r c. plain (Character (grid t1 r c))"
  shows "ok (WolfSshTerminalFlush t1) (\<lambda>t2. wf_term t2 \<and> grid t2 = grid t1 \<and>
    (\<forall>r c. on_screen t1 r c \<longrightarrow> shown (ConOut t2) r c = Character (grid t1 r c)))"
proof -
  have k: "kept t t1" using Feed_kept [OF assms(1), of sprint bytes] assms(4) by simp
  have "mirror shown t1" using k text_console_clears [OF assms(2)] assms(3) by (simp add: kept_def)
  then show ?thesis using flush_mirror [of t1 shown] keptD [OF k] assms(2,5,6) by simp
qed

theorem feed_then_flush_witness:
  "ok (WolfSshTerminalFlush tiny_A) (\<lambda>t2. wf_term t2 \<and> grid t2 = grid tiny_A \<and>
    (\<forall>r c. on_screen tiny_A r c \<longrightarrow> glass (ConOut t2) r c = Character (grid tiny_A r c)))"
proof (rule feed_then_flush [OF wf_tiny glass_console tiny_mirror tiny_A_feed])
  show "\<not> dirty tiny_A (Rows tiny - 1) (Columns tiny - 1)" by (simp add: dirty_def tiny_A_sel)
qed (simp add: tiny_A_plain)

section \<open>Printing\<close>

text \<open>
  C20. Printing a character with no wrap pending: it replaces the cell under the cursor
  with the current attribute, in insert mode after moving the rest of the line to the right, marks
  every changed cell for redrawing, and moves the cursor right or, in the last column, makes the
  wrap pending. Nothing else changes.
\<close>

theorem put_character:
  assumes "wf_term t" and "\<not> WrapPending t" and "ch \<noteq> 0"
  shows "ok (PutCharacter t ch) (\<lambda>t'. \<exists>t1. drawn t t1 \<and> grid t1 =
      (\<lambda>r c. if r = Row t \<and> c = Column t then \<lparr>Character = ch, Attribute = TerminalAttribute t\<rparr>
             else if r = Row t \<and> InsertMode t \<and> Column t < c \<and> c < Columns t then grid t r (c - 1)
             else grid t r c) \<and>
    t' = (if Column t + 1 = Columns t then t1\<lparr>WrapPending := True\<rparr>
          else t1\<lparr>Column := Column t + 1\<rparr>))"
proof (rule ok_mono [OF PutCharacter_ok [OF assms]])
  fix t' assume "\<exists>t1. drawn t t1 \<and> grid t1 = put_grid t ch \<and> t' = advance t1"
  then obtain t1 where "drawn t t1" "grid t1 = put_grid t ch" "t' = advance t1" by blast
  moreover have "put_grid t ch = (\<lambda>r c. if r = Row t \<and> c = Column t
      then \<lparr>Character = ch, Attribute = TerminalAttribute t\<rparr>
      else if r = Row t \<and> InsertMode t \<and> Column t < c \<and> c < Columns t then grid t r (c - 1)
      else grid t r c)" by (simp add: put_grid_def fun_eq_iff)
  ultimately show "\<exists>t1. drawn t t1 \<and> grid t1 =
      (\<lambda>r c. if r = Row t \<and> c = Column t then \<lparr>Character = ch, Attribute = TerminalAttribute t\<rparr>
             else if r = Row t \<and> InsertMode t \<and> Column t < c \<and> c < Columns t then grid t r (c - 1)
             else grid t r c) \<and>
    t' = (if Column t + 1 = Columns t then t1\<lparr>WrapPending := True\<rparr>
          else t1\<lparr>Column := Column t + 1\<rparr>)"
    using frame_sel(1,5) [OF drawn_frame, of t t1] by (intro exI [of _ t1]) (simp add: advance_def)
qed

theorem put_character_witness:
  "ok (PutCharacter tiny 0x41) (\<lambda>t'. \<exists>t1. drawn tiny t1 \<and> grid t1 =
      (\<lambda>r c. if r = Row tiny \<and> c = Column tiny then \<lparr>Character = 0x41, Attribute = TerminalAttribute tiny\<rparr>
             else if r = Row tiny \<and> InsertMode tiny \<and> Column tiny < c \<and> c < Columns tiny then grid tiny r (c - 1)
             else grid tiny r c) \<and>
    t' = (if Column tiny + 1 = Columns tiny then t1\<lparr>WrapPending := True\<rparr>
          else t1\<lparr>Column := Column tiny + 1\<rparr>))"
  by (rule put_character [OF wf_tiny]) simp_all

text \<open>
  C21. Printing a character with a wrap pending: it goes to the first column of the next line, in
  insert mode after moving that line to the right. On the last line of the scrolling region the
  region scrolls up by one line first; on the last line of the screen below the region nothing
  scrolls and the same line is used again.
\<close>

theorem autowrap:
  assumes "wf_term t" and "WrapPending t" and "ch \<noteq> 0"
  shows "ok (PutCharacter t ch) (\<lambda>t'.
    let row = (if Row t = ScrollBottom t \<or> Row t = Rows t - 1 then Row t else Row t + 1);
        old = (if Row t = ScrollBottom t then rows_up t (ScrollTop t) 1 (ScrollBottom t) else grid t)
    in Row t' = row \<and> Column t' = (if Columns t = 1 then 0 else 1) \<and>
       WrapPending t' = (Columns t = 1) \<and>
       grid t' = (\<lambda>r c. if r = row \<and> c = 0 then \<lparr>Character = ch, Attribute = TerminalAttribute t\<rparr>
         else if r = row \<and> InsertMode t \<and> c < Columns t then old r (c - 1) else old r c))"
  by (rule PutCharacter_wraps [OF assms])

definition tiny_wrap :: term_state where
  "tiny_wrap = tiny\<lparr>Row := 1, Column := 2, WrapPending := True\<rparr>"

lemma wf_tiny_wrap: "wf_term tiny_wrap"
proof -
  have "wf_term (tiny\<lparr>Row := 1\<rparr>)" by (rule wf_cursor_update(1) [OF wf_tiny]) simp
  then have "wf_term (tiny\<lparr>Row := 1, Column := 2\<rparr>)"
    using wf_cursor_update(2) [of "tiny\<lparr>Row := 1\<rparr>" 2] by simp
  then show ?thesis by (simp add: tiny_wrap_def)
qed

theorem autowrap_witness:
  "ok (PutCharacter tiny_wrap 0x41) (\<lambda>t'. Row t' = 1 \<and> Column t' = 1 \<and> \<not> WrapPending t' \<and>
    grid t' = (\<lambda>r c. if r = 1 \<and> c = 0 then \<lparr>Character = 0x41, Attribute = TerminalAttribute tiny_wrap\<rparr>
      else rows_up tiny_wrap 0 1 1 r c))"
proof -
  have "Row tiny_wrap = 1" "Rows tiny_wrap = 2" "Columns tiny_wrap = 3" "ScrollTop tiny_wrap = 0"
    "ScrollBottom tiny_wrap = 1" "WrapPending tiny_wrap" "\<not> InsertMode tiny_wrap"
    by (simp_all add: tiny_wrap_def)
  then show ?thesis using autowrap [OF wf_tiny_wrap, of "0x41"] by (simp add: Let_def cong: if_cong)
qed

section \<open>Editing the screen\<close>

text \<open>
  C22. Scrolling moves the lines of the scrolling region up or down by the count, at most the
  size of the region, and blanks the lines that become free in the current colours; lines outside
  the region stay, and every changed cell is marked for redrawing.
\<close>

theorem scroll_region:
  assumes "wf_term t"
  shows "ok (ScrollUp t count) (\<lambda>t'. drawn t t' \<and>
      grid t' = rows_up t (ScrollTop t) (min count (ScrollBottom t - ScrollTop t + 1)) (ScrollBottom t)) \<and>
    ok (ScrollDown t count) (\<lambda>t'. drawn t t' \<and>
      grid t' = rows_down t (ScrollTop t) (min count (ScrollBottom t - ScrollTop t + 1)) (ScrollBottom t))"
  using ScrollUp_ok [OF assms, of count] ScrollDown_ok [OF assms, of count]
  unfolding region_rows_def by (rule conjI)

theorem scroll_region_witness:
  "ok (ScrollUp tiny 5) (\<lambda>t'. drawn tiny t' \<and>
      grid t' = rows_up tiny (ScrollTop tiny) (min 5 (ScrollBottom tiny - ScrollTop tiny + 1)) (ScrollBottom tiny)) \<and>
    ok (ScrollDown tiny 5) (\<lambda>t'. drawn tiny t' \<and>
      grid t' = rows_down tiny (ScrollTop tiny) (min 5 (ScrollBottom tiny - ScrollTop tiny + 1)) (ScrollBottom tiny))"
  by (rule scroll_region [OF wf_tiny])

text \<open>
  C23. Inserting and deleting lines inside the scrolling region moves the lines from the
  cursor's line to the bottom of the region; with the cursor outside the region nothing happens.
\<close>

theorem line_editing:
  assumes "wf_term t" and "0 < count"
  defines "n \<equiv> min count (ScrollBottom t - Row t + 1)"
  shows "ok (InsertLines t count) (\<lambda>t'. drawn t t' \<and> grid t' =
      (if ScrollTop t \<le> Row t \<and> Row t \<le> ScrollBottom t then rows_down t (Row t) n (ScrollBottom t) else grid t)) \<and>
    ok (DeleteLines t count) (\<lambda>t'. drawn t t' \<and> grid t' =
      (if ScrollTop t \<le> Row t \<and> Row t \<le> ScrollBottom t then rows_up t (Row t) n (ScrollBottom t) else grid t))"
  using InsertLines_ok [OF assms(1,2)] DeleteLines_ok [OF assms(1,2)]
  unfolding n_def in_region_def by (rule conjI)

theorem line_editing_witness:
  "ok (InsertLines tiny 1) (\<lambda>t'. drawn tiny t' \<and> grid t' =
      (if ScrollTop tiny \<le> Row tiny \<and> Row tiny \<le> ScrollBottom tiny
       then rows_down tiny (Row tiny) (min 1 (ScrollBottom tiny - Row tiny + 1)) (ScrollBottom tiny) else grid tiny)) \<and>
    ok (DeleteLines tiny 1) (\<lambda>t'. drawn tiny t' \<and> grid t' =
      (if ScrollTop tiny \<le> Row tiny \<and> Row tiny \<le> ScrollBottom tiny
       then rows_up tiny (Row tiny) (min 1 (ScrollBottom tiny - Row tiny + 1)) (ScrollBottom tiny) else grid tiny))"
  using line_editing [OF wf_tiny, of 1] by simp

text \<open>
  C24. Inserting and deleting characters moves the part of the cursor's line from the cursor
  on, fills with blanks in the current colours, and leaves the rest of the screen alone.
\<close>

theorem character_editing:
  assumes "wf_term t" and "0 < count"
  defines "n \<equiv> min count (Columns t - Column t)"
  shows "ok (InsertCharacters t count) (\<lambda>t'. drawn t t' \<and> grid t' =
      overlay t (\<lambda>r c. r = Row t \<and> Column t \<le> c)
        (\<lambda>r c. if Column t + n \<le> c then grid t r (c - n) else blank (TerminalAttribute t))) \<and>
    ok (DeleteCharacters t count) (\<lambda>t'. drawn t t' \<and> grid t' =
      overlay t (\<lambda>r c. r = Row t \<and> Column t \<le> c)
        (\<lambda>r c. if c + n < Columns t then grid t r (c + n) else blank (TerminalAttribute t)))"
  using InsertCharacters_ok [OF assms(1,2)] DeleteCharacters_ok [OF assms(1,2)]
  unfolding n_def chars_right_def chars_left_def by (rule conjI)

lemma two_columns: "min 2 (Columns tiny - Column tiny) = 2"
  by simp

theorem character_editing_witness:
  "ok (InsertCharacters tiny 2) (\<lambda>t'. drawn tiny t' \<and> grid t' =
      overlay tiny (\<lambda>r c. r = Row tiny \<and> Column tiny \<le> c)
        (\<lambda>r c. if Column tiny + 2 \<le> c then grid tiny r (c - 2) else blank (TerminalAttribute tiny))) \<and>
    ok (DeleteCharacters tiny 2) (\<lambda>t'. drawn tiny t' \<and> grid t' =
      overlay tiny (\<lambda>r c. r = Row tiny \<and> Column tiny \<le> c)
        (\<lambda>r c. if c + 2 < Columns tiny then grid tiny r (c + 2) else blank (TerminalAttribute tiny)))"
  using character_editing [OF wf_tiny, of 2, unfolded two_columns] by simp

text \<open>
  C25. Erasing in the display and in the line, in all modes. Mode 2 (and 3) of the display
  clears the buffer in the default colours, clears the console itself, and leaves nothing to
  redraw; the other modes blank exactly the cells before, after or around the cursor in the
  current colours.
\<close>

theorem erase:
  assumes "wf_term t"
  shows "(mode = 2 \<or> mode = 3 \<longrightarrow> ok (EraseDisplay t mode) (\<lambda>t'. wf_term t' \<and>
      ConOut t' = ConOut t @ [ClearScreen] \<and> Row t' = Row t \<and> Column t' = Column t \<and>
      (\<forall>r c. on_screen t r c \<longrightarrow> \<not> dirty t' r c \<and>
         grid t' r c = blank (EFI_TEXT_ATTR (DefaultForeground t) (DefaultBackground t))))) \<and>
    (mode \<noteq> 2 \<and> mode \<noteq> 3 \<longrightarrow> ok (EraseDisplay t mode) (\<lambda>t'. drawn t t' \<and> grid t' = overlay t
      (\<lambda>r c. if mode = 1 then r < Row t \<or> (r = Row t \<and> c \<le> Column t)
             else r > Row t \<or> (r = Row t \<and> c \<ge> Column t)) (\<lambda>_ _. blank (TerminalAttribute t)))) \<and>
    ok (EraseLine t mode) (\<lambda>t'. drawn t t' \<and> grid t' = overlay t
      (\<lambda>r c. r = Row t \<and> (if mode = 1 then c \<le> Column t else mode = 2 \<or> c \<ge> Column t))
      (\<lambda>_ _. blank (TerminalAttribute t)))"
proof (intro conjI impI)
  assume m: "mode = 2 \<or> mode = 3"
  have sel: "ConOut (clean_rows (cleared t)) = ConOut t @ [ClearScreen]"
    "Row (clean_rows (cleared t)) = Row t" "Column (clean_rows (cleared t)) = Column t"
    by (simp_all add: cleared_def clean_rows_def console_def)
  have "wf_term (cleared t)"
    unfolding cleared_def by (simp add: wf_set_buffer [OF assms] default_blank_def)
  note clean = wf_clean_rows [OF this]
  show "ok (EraseDisplay t mode) (\<lambda>t'. wf_term t' \<and>
      ConOut t' = ConOut t @ [ClearScreen] \<and> Row t' = Row t \<and> Column t' = Column t \<and>
      (\<forall>r c. on_screen t r c \<longrightarrow> \<not> dirty t' r c \<and>
         grid t' r c = blank (EFI_TEXT_ATTR (DefaultForeground t) (DefaultBackground t))))"
    unfolding EraseDisplay_2 [OF assms m] ok_Some sel
    using clean cleared_grid [of t] by (simp add: default_blank_def)
next
  assume "mode \<noteq> 2 \<and> mode \<noteq> 3"
  then show "ok (EraseDisplay t mode) (\<lambda>t'. drawn t t' \<and> grid t' = overlay t
      (\<lambda>r c. if mode = 1 then r < Row t \<or> (r = Row t \<and> c \<le> Column t)
             else r > Row t \<or> (r = Row t \<and> c \<ge> Column t)) (\<lambda>_ _. blank (TerminalAttribute t)))"
    using EraseDisplay_ok [OF assms, of mode] by (simp add: erase_grid_def)
qed (use EraseLine_ok [OF assms, of mode] in \<open>simp add: erase_line_grid_def\<close>)

theorem erase_witness:
  "ok (EraseDisplay tiny 2) (\<lambda>t'. wf_term t' \<and>
      ConOut t' = ConOut tiny @ [ClearScreen] \<and> Row t' = Row tiny \<and> Column t' = Column tiny \<and>
      (\<forall>r c. on_screen tiny r c \<longrightarrow> \<not> dirty t' r c \<and>
         grid t' r c = blank (EFI_TEXT_ATTR (DefaultForeground tiny) (DefaultBackground tiny)))) \<and>
   ok (EraseDisplay tiny 0) (\<lambda>t'. drawn tiny t' \<and> grid t' = overlay tiny
      (\<lambda>r c. r > Row tiny \<or> (r = Row tiny \<and> c \<ge> Column tiny)) (\<lambda>_ _. blank (TerminalAttribute tiny)))"
  using erase [OF wf_tiny, of 2] erase [OF wf_tiny, of 0] by simp

section \<open>The alternate screen\<close>

text \<open>
  C15. A full-screen program: entering the alternate screen, any bytes none of which completes a
  request for the other screen (a private mode sequence with 47, 1047 or 1049 among its parameters),
  and leaving it gives back the primary screen's cells and the cursor where they were, and marks
  the whole screen for redrawing. Both the entering and the leaving sequence must come outside an
  operating system command, whose text the emulator skips.
\<close>

theorem alternate_screen_restores:
  assumes "wf_term t" and "outside_osc t" and "\<not> AlternateActive t"
    and "n = 47 \<or> n = 1047 \<or> n = 1049"
    and "WolfSshTerminalFeed sprint t (private_sequence n 0x68) = Some t1"
    and "stays sprint t1 bs" and "WolfSshTerminalFeed sprint t1 bs = Some t2" and "outside_osc t2"
  shows "ok (WolfSshTerminalFeed sprint t (private_sequence n 0x68 @ bs @ private_sequence n 0x6c))
    (\<lambda>t3. wf_term t3 \<and> \<not> AlternateActive t3 \<and> grid t3 = grid t \<and> Row t3 = Row t \<and> Column t3 = Column t \<and>
      (\<forall>r c. on_screen t r c \<longrightarrow> dirty t3 r c))"
  by (rule alternate_session [OF assms])

definition tiny_alt :: term_state where
  "tiny_alt = (enter_alternate ((private_state tiny 1049)\<lparr>WrapPending := False\<rparr>))\<lparr>ParserState := ParserGround\<rparr>"

lemma tiny_alt_sel [simp]:
  "ParserState tiny_alt = ParserGround" "Utf8Remaining tiny_alt = 0" "Row tiny_alt = 0"
  "ScrollBottom tiny_alt = 1" "Rows tiny_alt = 2"
  by (simp_all add: tiny_alt_def enter_alternate_def private_state_def csi_state_def)

theorem alternate_screen_restores_witness:
  "ok (WolfSshTerminalFeed position_printer tiny
      (private_sequence 1049 0x68 @ [0x0d, 0x0a] @ private_sequence 1049 0x6c))
    (\<lambda>t3. wf_term t3 \<and> \<not> AlternateActive t3 \<and> grid t3 = grid tiny \<and> Row t3 = Row tiny \<and>
      Column t3 = Column tiny \<and> (\<forall>r c. on_screen tiny r c \<longrightarrow> dirty t3 r c))"
proof -
  have e: "WolfSshTerminalFeed position_printer tiny (private_sequence 1049 0x68) = Some tiny_alt"
    using Feed_enter_eq [OF wf_tiny tiny_outside, of 1049 position_printer] by (simp add: tiny_alt_def)
  have cr: "FeedByte position_printer tiny_alt 0x0d = Some (tiny_alt\<lparr>Column := 0, WrapPending := False\<rparr>)"
    by (simp add: FeedByte_def HandleGroundByte.simps)
  have lf: "FeedByte position_printer (tiny_alt\<lparr>Column := 0, WrapPending := False\<rparr>) 0x0a =
      Some (tiny_alt\<lparr>Column := 0, WrapPending := False, Row := 1\<rparr>)"
    by (simp add: FeedByte_def HandleGroundByte.simps IndexDown_def)
  show ?thesis
    by (rule alternate_screen_restores [OF wf_tiny tiny_outside _ _ e,
          where ?t2.0 = "tiny_alt\<lparr>Column := 0, WrapPending := False, Row := 1\<rparr>"])
      (simp_all add: cr lf switches_def Feed_Cons outside_osc_def)
qed

section \<open>Colours\<close>

text \<open>
  C18. The index arithmetic of SGR implements the reference interpreter \<open>sgr\<close>, which consumes
  the parameters from left to right: simple codes one at a time, \<open>38;5;n\<close> and \<open>38;2;r;g;b\<close> (and the
  same with 48) as units when all their parameters are there, and neither of them otherwise. The
  loop changes the rendition only, and all colours stay below 16.
\<close>

theorem sgr_reference:
  assumes "wf_term t"
  shows "ok (SelectGraphicRendition t) (\<lambda>t'. wf_term t' \<and> t' = rendered t
    (sgr (DefaultForeground t) (DefaultBackground t) (map (\<lambda>i. param t i 0) [0..<ParameterCount t])
       (Foreground t, Background t, Bold t, Reverse t)))"
  using SGR_ok [OF assms] unfolding SGR_eq [OF assms] by (simp add: params_def rendition_def)

theorem sgr_reference_witness:
  "ok (SelectGraphicRendition (csi_state tiny [38, 5, 196] 3)) (\<lambda>t'. wf_term t' \<and>
    t' = rendered (csi_state tiny [38, 5, 196] 3)
      (sgr (DefaultForeground (csi_state tiny [38, 5, 196] 3)) (DefaultBackground (csi_state tiny [38, 5, 196] 3))
        (map (\<lambda>i. param (csi_state tiny [38, 5, 196] 3) i 0) [0..<ParameterCount (csi_state tiny [38, 5, 196] 3)])
        (Foreground (csi_state tiny [38, 5, 196] 3), Background (csi_state tiny [38, 5, 196] 3),
         Bold (csi_state tiny [38, 5, 196] 3), Reverse (csi_state tiny [38, 5, 196] 3))))"
  by (rule sgr_reference) (rule csi_state_wf [OF wf_tiny], simp_all)

text \<open>
  The foreground and the background after a rendition sequence with the parameters \<open>ns\<close>; \<open>fg\<close> says
  which of the two the sequence selects.
\<close>

definition selects :: "print_lib \<Rightarrow> term_state \<Rightarrow> nat list \<Rightarrow> bool \<Rightarrow> nat \<Rightarrow> bool" where
  "selects sprint t ns fg color \<longleftrightarrow> ok (WolfSshTerminalFeed sprint t (csi_sequence ns 0x6d))
     (\<lambda>t'. (Foreground t', Background t') = (if fg then (color, Background t) else (Foreground t, color)))"

definition uefi_colour :: "bool \<Rightarrow> bool \<Rightarrow> bool \<Rightarrow> bool \<Rightarrow> nat" where
  "uefi_colour red green blue light = 8 * of_bool light + 4 * of_bool red + 2 * of_bool green + of_bool blue"

lemma selectsI:
  assumes "wf_term t" and "outside_osc t" and ns: "ns \<noteq> []" "length ns \<le> 16" "\<forall>n \<in> set ns. n \<le> 9999999"
    and c: "\<And>dfg dbg f b x. sgr dfg dbg (map int ns) (f, b, x) = (if fg then (color, b, x) else (f, color, x))"
  shows "selects sprint t ns fg color"
proof -
  let ?t = "csi_state t ns (length ns)"
  have wf: "wf_term ?t"
    by (rule csi_state_wf [OF assms(1) ns(3)]) (use ns in \<open>auto simp: Suc_le_eq\<close>)
  then have wf': "wf_term (?t\<lparr>WrapPending := False\<rparr>)" by simp
  have p: "params (?t\<lparr>WrapPending := False\<rparr>) = map int ns"
    by (rule nth_equalityI) (simp_all add: params_def param_def csi_state_def nth_append)
  have h: "HandleCsi sprint ?t 0x6d = SelectGraphicRendition (?t\<lparr>WrapPending := False\<rparr>)"
    unfolding HandleCsi_def NonZeroParameter_eq [OF wf] bind.bind_lunit Let_def by simp
  have f: "Foreground (rendered s x) = fst x" "Background (rendered s x) = fst (snd x)" for s x
    by (simp_all add: rendered_def split: prod.splits)
  have g: "Foreground (?t\<lparr>WrapPending := False\<rparr>) = Foreground t" "Background (?t\<lparr>WrapPending := False\<rparr>) = Background t"
    by (simp_all add: csi_state_def)
  show ?thesis
    using Feed_csi [OF assms(1,2) ns, of "0x6d" sprint]
    unfolding selects_def h SGR_eq [OF wf'] p rendition_def g c by (simp add: f)
qed

lemma Map256Color_cube:
  assumes "r < 6" and "g < 6" and "b < 6"
  shows "Map256Color (16 + 36 * r + 6 * g + b) = uefi_colour (3 \<le> r) (3 \<le> g) (3 \<le> b) (r = 5 \<or> g = 5 \<or> b = 5)"
proof -
  have "usub (16 + 36 * r + 6 * g + b) 16 = 36 * r + (6 * g + b)" using assms by simp
  moreover have "(36 * r + (6 * g + b)) div 36 = r" using assms by (simp add: div_nat_eqI)
  moreover have "36 * r + (6 * g + b) = 6 * (6 * r + g) + b" by simp
  then have "(36 * r + (6 * g + b)) div 6 = 6 * r + g \<and> (36 * r + (6 * g + b)) mod 6 = b"
    using assms(3) by (metis add.commute div_less div_mult_self2 add_0 mod_less mod_mult_self2 zero_neq_numeral)
  moreover have "(6 * r + g) mod 6 = g" using assms(2) by simp
  moreover have "5 \<le> max r (max g b) \<longleftrightarrow> r = 5 \<or> g = 5 \<or> b = 5" using assms by linarith
  ultimately show ?thesis using assms
    by (simp add: Map256Color_def Let_def color_bits_eq uefi_colour_def)
qed

text \<open>
  C19. The numbering of the sixteen colours, for the foreground and the background alike, the
  other of the two unchanged: SGR \<open>30 + n\<close> and \<open>90 + n\<close> (40 and 100 for the background) and the palette
  indices below 16 select UEFI colour \<open>n\<close>, \<open>n + 8\<close> or the index as it is, while the colour cube and RGB
  values are translated to UEFI's order, in which bit 0 is blue, bit 1 green, bit 2 red and bit 3 the
  light variant; the end of the palette is dark or white grey. So \<open>ESC [ 31 m\<close>, red by ECMA-48 and the xterm
  palette, selects \<open>EFI_BLUE\<close> (1), and RGB red selects \<open>EFI_LIGHTRED\<close> (12). Sequences inside an
  operating system command are not looked at, and parameters are at most 9999999.
\<close>

theorem colour_order:
  assumes "wf_term t" and "outside_osc t" and "n < 8" and "i < 16" and "r < 6" and "g < 6" and "b < 6"
    and "232 \<le> k" and "k \<le> 255" and "R \<le> 9999999" and "G \<le> 9999999" and "B \<le> 9999999"
  shows "selects sprint t [(if fg then 30 else 40) + n] fg n \<and>
    selects sprint t [(if fg then 90 else 100) + n] fg (n + 8) \<and>
    selects sprint t [if fg then 38 else 48, 5, i] fg i \<and>
    selects sprint t [if fg then 38 else 48, 5, 16 + 36 * r + 6 * g + b] fg
      (uefi_colour (3 \<le> r) (3 \<le> g) (3 \<le> b) (r = 5 \<or> g = 5 \<or> b = 5)) \<and>
    selects sprint t [if fg then 38 else 48, 5, k] fg (if k < 244 then 8 else 15) \<and>
    selects sprint t [if fg then 38 else 48, 2, R, G, B] fg
      (uefi_colour (128 \<le> R) (128 \<le> G) (128 \<le> B) (192 \<le> R \<or> 192 \<le> G \<or> 192 \<le> B))"
proof (intro conjI)
  show "selects sprint t [(if fg then 30 else 40) + n] fg n"
    using assms(3) by (intro selectsI [OF assms(1,2)]) (auto simp: sgr_simple_def)
  show "selects sprint t [(if fg then 90 else 100) + n] fg (n + 8)"
    using assms(3) by (intro selectsI [OF assms(1,2)]) (auto simp: sgr_simple_def)
  have m: "Map256Color i = i" "Map256Color k = (if k < 244 then 8 else 15)"
    using assms(4,8) by (simp_all add: Map256Color_def)
  show "selects sprint t [if fg then 38 else 48, 5, i] fg i"
    using assms(4) by (intro selectsI [OF assms(1,2)]) (auto simp: set_ground_def m)
  show "selects sprint t [if fg then 38 else 48, 5, k] fg (if k < 244 then 8 else 15)"
    using assms(9) by (intro selectsI [OF assms(1,2)]) (auto simp: set_ground_def m)
  have c: "nat (16 + 36 * int r + 6 * int g + int b) = 16 + 36 * r + 6 * g + b" by simp
  show "selects sprint t [if fg then 38 else 48, 5, 16 + 36 * r + 6 * g + b] fg
      (uefi_colour (3 \<le> r) (3 \<le> g) (3 \<le> b) (r = 5 \<or> g = 5 \<or> b = 5))"
    using assms(5-7) by (intro selectsI [OF assms(1,2)]) (auto simp: set_ground_def c Map256Color_cube)
  have "MapRgbColor R G B = uefi_colour (128 \<le> R) (128 \<le> G) (128 \<le> B) (192 \<le> R \<or> 192 \<le> G \<or> 192 \<le> B)"
    by (simp add: MapRgbColor_def color_bits_eq uefi_colour_def le_max_iff_disj)
  then show "selects sprint t [if fg then 38 else 48, 2, R, G, B] fg
      (uefi_colour (128 \<le> R) (128 \<le> G) (128 \<le> B) (192 \<le> R \<or> 192 \<le> G \<or> 192 \<le> B))"
    using assms(10-12) by (intro selectsI [OF assms(1,2)]) (auto simp: set_ground_def)
qed

theorem colour_order_witness:
  "selects position_printer tiny [31] True 1 \<and> selects position_printer tiny [38, 5, 1] True 1 \<and>
    selects position_printer tiny [38, 5, 196] True 12 \<and> selects position_printer tiny [38, 2, 205, 0, 0] True 12"
  using colour_order [OF wf_tiny tiny_outside, of 1 1 5 0 0 232 205 0 0 position_printer True]
  by (simp add: uefi_colour_def)

section \<open>Decoding\<close>

text \<open>
  C26. The UTF-8 encoding of a printable character of the basic multilingual plane, fed in the
  ground state, prints exactly that character.
\<close>

theorem utf8_decodes:
  assumes "wf_term t" and "ParserState t = ParserGround" and "Utf8Remaining t = 0"
    and "n < 0x10000" and "\<not> (0xd800 \<le> n \<and> n \<le> 0xdfff)" and "0x20 \<le> n" and "n \<noteq> 0x7f"
  shows "WolfSshTerminalFeed sprint t (utf8 n) =
    PutCharacter (if n < 0x80 then t else t\<lparr>Utf8CodePoint := of_nat n\<rparr>) (of_nat n)"
  using Feed_utf8 [OF assms(1-3), of n sprint] assms(4-) by (simp add: printable_def utf8_done_def)

theorem utf8_decodes_witness:
  "WolfSshTerminalFeed position_printer tiny (utf8 0x20ac) =
    PutCharacter (if (0x20ac :: nat) < 0x80 then tiny else tiny\<lparr>Utf8CodePoint := of_nat 0x20ac\<rparr>) (of_nat 0x20ac)"
  by (rule utf8_decodes [OF wf_tiny]) simp_all

text \<open>
  C27. A byte that breaks a multi-byte sequence is not lost: the broken sequence prints one
  replacement character, and the byte is then handled as if the sequence had not begun. Only an escape
  character drops the broken sequence without a trace, and begins a control sequence.
\<close>

theorem utf8_resynchronises:
  assumes "wf_term t" and "Utf8Remaining t \<noteq> 0" and "byte AND 0xc0 \<noteq> 0x80"
  shows "WolfSshTerminalFeed sprint t [byte] =
    (if byte = 0x1b then Some (t\<lparr>Utf8Remaining := 0, ParserState := ParserEscape\<rparr>)
     else do { t' \<leftarrow> PutCharacter (t\<lparr>Utf8Remaining := 0\<rparr>) 0xfffd; WolfSshTerminalFeed sprint t' [byte] })"
proof (cases "byte = 0x1b")
  case True
  have "ParserState t = ParserGround" by (rule wf_utf8_bound(1) [OF assms(1,2)])
  then show ?thesis using True by (simp add: Feed_Cons FeedByte_def)
next
  case False
  have wf0: "wf_term (t\<lparr>Utf8Remaining := 0\<rparr>)" using assms(1) unfolding wf_parts by simp
  have st: "ParserState t = ParserGround" using wf_utf8_bound(1) [OF assms(1,2)] .
  have e: "EmitCodePoint (t\<lparr>Utf8Remaining := 0\<rparr>) 0xfffd = PutCharacter (t\<lparr>Utf8Remaining := 0\<rparr>) 0xfffd"
    by (simp add: EmitCodePoint_def)
  obtain t' where t': "PutCharacter (t\<lparr>Utf8Remaining := 0\<rparr>) 0xfffd = Some t'"
    and g: "good (t\<lparr>Utf8Remaining := 0\<rparr>) t'"
    using PutCharacter_good [OF wf0, of "0xfffd"] by (auto elim!: okE)
  have "FeedByte sprint t byte = HandleGroundByte t byte" "FeedByte sprint t' byte = HandleGroundByte t' byte"
    using FeedByte_ground False st goodD(5) [OF g] by simp_all
  then show ?thesis using ground_broken [OF assms(2,3)] False by (simp add: Feed_Cons e t')
qed

definition tiny_lead :: term_state where
  "tiny_lead = tiny\<lparr>Utf8Remaining := 2, Utf8CodePoint := 2\<rparr>"

lemma wf_tiny_lead: "wf_term tiny_lead"
  using wf_tiny unfolding wf_parts tiny_lead_def by simp

theorem utf8_resynchronises_witness:
  "WolfSshTerminalFeed position_printer tiny_lead [0x41] =
      do { t' \<leftarrow> PutCharacter (tiny_lead\<lparr>Utf8Remaining := 0\<rparr>) 0xfffd;
           WolfSshTerminalFeed position_printer t' [0x41] } \<and>
    WolfSshTerminalFeed position_printer tiny_lead [0x1b] =
      Some (tiny_lead\<lparr>Utf8Remaining := 0, ParserState := ParserEscape\<rparr>)"
  using utf8_resynchronises [OF wf_tiny_lead, of "0x41" position_printer]
    utf8_resynchronises [OF wf_tiny_lead, of "0x1b" position_printer]
  by (simp add: tiny_lead_def)

section \<open>Cursor addressing and reports\<close>

lemma decimal_length: "n < 10 ^ k \<Longrightarrow> 0 < k \<Longrightarrow> length (decimal n) \<le> k"
proof (induction k arbitrary: n)
  case (Suc k)
  show ?case
  proof (cases "n < 10")
    case True
    then show ?thesis by (simp add: decimal.simps [of n])
  next
    case False
    then have "0 < k" using Suc.prems by (cases k) simp_all
    moreover have "n div 10 < 10 ^ k" using Suc.prems by (simp add: div_less_iff_less_mult mult.commute)
    ultimately show ?thesis using Suc.IH [of "n div 10"] False by (simp add: decimal.simps [of n])
  qed
qed simp

text \<open>
  C16. The cursor position report is exact and usable: outside an operating system command and
  with nothing queued, \<open>ESC [ 6 n\<close> queues the report of the cursor's position, counted from one, and a
  remote program that later sends the reported numbers back as a cursor position sequence, to a
  terminal of the same size that is in any state but inside an operating system command, puts the
  cursor there again.
\<close>

theorem cursor_report_roundtrip:
  assumes "wf_term t" and "outside_osc t" and "prints_position sprint" and "pending t = []"
    and "wf_term u" and "outside_osc u" and "Rows u = Rows t" and "Columns u = Columns t"
  shows "ok (WolfSshTerminalFeed sprint t (csi_sequence [6] 0x6e))
      (\<lambda>t'. pending t' = csi_sequence [Row t + 1, Column t + 1] 0x52) \<and>
    ok (WolfSshTerminalFeed sprint u (csi_sequence [Row t + 1, Column t + 1] 0x48))
      (\<lambda>u'. Row u' = Row t \<and> Column u' = Column t)"
proof
  note b = wf_bounds [OF assms(1)]
  have "length (decimal (Row t + 1)) \<le> 5" "length (decimal (Column t + 1)) \<le> 5"
    using b by (auto intro!: decimal_length)
  then have "length (csi_sequence [Row t + 1, Column t + 1] 0x52) \<le> 128" by (simp add: csi_sequence_def)
  then show "ok (WolfSshTerminalFeed sprint t (csi_sequence [6] 0x6e))
      (\<lambda>t'. pending t' = csi_sequence [Row t + 1, Column t + 1] 0x52)"
    using Feed_report [OF assms(1-3)] assms(4) by (auto elim!: ok_mono)
  show "ok (WolfSshTerminalFeed sprint u (csi_sequence [Row t + 1, Column t + 1] 0x48))
      (\<lambda>u'. Row u' = Row t \<and> Column u' = Column t)"
    using Feed_cup [OF assms(5,6), of "Row t + 1" "Column t + 1" sprint] b assms(7,8) by simp
qed

theorem cursor_report_roundtrip_witness:
  "ok (WolfSshTerminalFeed position_printer tiny_wrap (csi_sequence [6] 0x6e))
      (\<lambda>t'. pending t' = csi_sequence [Row tiny_wrap + 1, Column tiny_wrap + 1] 0x52) \<and>
    ok (WolfSshTerminalFeed position_printer tiny (csi_sequence [Row tiny_wrap + 1, Column tiny_wrap + 1] 0x48))
      (\<lambda>u'. Row u' = Row tiny_wrap \<and> Column u' = Column tiny_wrap)"
  by (rule cursor_report_roundtrip [OF wf_tiny_wrap _ position_printer_ok _ wf_tiny tiny_outside])
    (simp_all add: tiny_wrap_def outside_osc_def pending_def)

text \<open>
  C28. The reply queue loses and reorders nothing while it has room: bytes that fit are queued
  behind the pending ones, and the session's loop, which takes up to \<open>n\<close> bytes at a time until it gets none,
  receives them all in order and leaves the queue empty.
\<close>

theorem reply_queue:
  assumes "wf_term t" and "length (pending t) + length bs \<le> 128" and "0 < n" and "128 < fuel"
  shows "ok (do { t \<leftarrow> QueueReply t bs (length bs); drain WolfSshTerminalTakeResponse fuel n t })
    (\<lambda>(out, t'). wf_term t' \<and> out = pending t @ bs \<and> pending t' = [])"
proof -
  obtain t1 where "QueueReply t bs (length bs) = Some t1" "wf_term t1" "pending t1 = pending t @ bs"
    using replies.put_fits [OF assms(1,2)] by (auto elim!: okE)
  then show ?thesis using replies.drain_all [of t1 n fuel] assms(2-4) by simp
qed

theorem reply_queue_witness:
  "ok (do { t \<leftarrow> QueueReply tiny [1, 2, 3] (length [1, 2, 3 :: UINT8]);
            drain WolfSshTerminalTakeResponse 129 2 t })
    (\<lambda>(out, t'). wf_term t' \<and> out = pending tiny @ [1, 2, 3] \<and> pending t' = [])"
  by (rule reply_queue [OF wf_tiny]) (simp_all add: tiny_pending)

section \<open>The keyboard\<close>

text \<open>
  C17. A typed character survives the round trip: if the remote side echoes the bytes that the key
  produced, the terminal prints that character.
\<close>

theorem key_echo:
  assumes "wf_term t" and "ParserState t = ParserGround" and "Utf8Remaining t = 0"
    and "printable (unat ch)" and "MappedKey (ApplicationCursor t) scan = None"
    and "\<not> EFI_ERROR status" and "16 \<le> length buf"
  shows "\<exists>len buf'. WolfSshTerminalReadKey t buf 16 status scan ch = Some (EFI_SUCCESS, len, False, buf') \<and>
    WolfSshTerminalFeed sprint t (take len buf') = PutCharacter (utf8_done (unat ch) t) ch"
proof -
  have p: "0x20 \<le> unat ch" using assms(4) by (simp add: printable_def)
  then have ch: "ch \<noteq> 0" "ch \<noteq> 0x1d" "ch \<noteq> 0x08" by auto
  have kb: "key_bytes (ApplicationCursor t) scan ch = utf8 (unat ch)"
    using assms(5) ch by (simp add: key_bytes_def)
  have "length (utf8 (unat ch)) \<le> 3" by (simp add: utf8_def)
  then have "WolfSshTerminalReadKey t buf 16 status scan ch = Some (EFI_SUCCESS, length (utf8 (unat ch)), False,
      utf8 (unat ch) @ drop (length (utf8 (unat ch))) buf)"
    using ReadKey_ok [OF assms(6) ch(2) _ assms(7), of t scan] ch by (simp add: kb read_result_def)
  then show ?thesis using Feed_utf8 [OF assms(1-4), of sprint] by simp
qed

theorem key_echo_witness:
  "\<exists>len buf'. WolfSshTerminalReadKey tiny (replicate 16 0) 16 EFI_SUCCESS 0 0x20ac =
      Some (EFI_SUCCESS, len, False, buf') \<and>
    WolfSshTerminalFeed position_printer tiny (take len buf') = PutCharacter (utf8_done (unat (0x20ac :: CHAR16)) tiny) 0x20ac"
  by (rule key_echo [OF wf_tiny]) (simp_all add: printable_def MappedKey_def)

text \<open>
  C29. What every key sends, whatever the room in the buffer: the sequence of xterm's table for a
  special key, DEL for backspace, the UTF-8 encoding of any other character, complete or not at all with the
  number of bytes needed; Ctrl-] ends the session locally, a key with neither is reported as no
  key, and a failed read is passed on. (With an empty buffer the number needed is 1 for every
  character.) The Escape key is a key with neither, because UEFI reports it as scan code 0x17 with
  the character 0: it sends nothing.
\<close>

theorem read_key:
  assumes "capacity \<le> length buf"
  shows "WolfSshTerminalReadKey t buf capacity status scan ch = Some (
    let bytes = typed_bytes (ApplicationCursor t) scan ch
    in if EFI_ERROR status then (status, 0, False, buf)
       else if ch = 0x1d then (EFI_SUCCESS, 0, True, buf)
       else if bytes = [] then (EFI_NOT_READY, 0, False, buf)
       else if capacity < length bytes then
         (EFI_BUFFER_TOO_SMALL, if capacity = 0 \<and> map_of key_table scan = None then 1 else length bytes, False, buf)
       else (EFI_SUCCESS, length bytes, False, bytes @ drop (length bytes) buf))"
  by (rule ReadKey_typed [OF assms])

theorem read_key_witness:
  "WolfSshTerminalReadKey tiny (replicate 16 0) 16 EFI_SUCCESS 0x17 0 = Some (EFI_NOT_READY, 0, False, replicate 16 0) \<and>
    WolfSshTerminalReadKey tiny (replicate 16 0) 16 EFI_SUCCESS 0x0f 0 =
      Some (EFI_SUCCESS, 5, False, [0x1b, 0x5b, 0x31, 0x35, 0x7e] @ replicate 11 0)"
  using read_key [of 16 "replicate 16 0" tiny EFI_SUCCESS "0x17" 0] read_key [of 16 "replicate 16 0" tiny EFI_SUCCESS "0x0f" 0]
  by (simp add: typed_bytes_def key_table_def ascii_def of_char_def upt_rec)

section \<open>Creation and self test\<close>

definition small_firmware :: FIRMWARE where
  "small_firmware = \<lparr>ConOutPresent = True, QueryMode = (\<lambda>_. (EFI_SUCCESS, 3, 2)), ModeAttribute = 7,
     PoolTerminal = True, PoolPrimary = (\<lambda>n. Some (replicate (n div 16) (blank 0))),
     PoolAlternate = (\<lambda>n. Some (replicate (n div 16) (blank 0))),
     PoolDirtyStart = (\<lambda>n. Some (replicate (n div 2) 0)), PoolDirtyEnd = (\<lambda>_. True),
     PoolRender = (\<lambda>n. Some (replicate (n div 2) 0))\<rparr>"

lemma small_firmware_ok: "pool_spec small_firmware" "ConOutPresent small_firmware" "pool_grants small_firmware"
  by (simp_all add: small_firmware_def pool_spec_def pool_grants_def console_size_def)

text \<open>
  C30. Creating the terminal succeeds exactly when there is a console and every allocation is
  granted. The terminal is then well-formed, has the console's size (80 by 25 when the console
  gives none between 1 and 65535), and is blank in the console's colours with nothing to redraw.
\<close>

theorem create_blank:
  assumes "pool_spec f"
  shows "if ConOutPresent f \<and> pool_grants f
    then \<exists>t. WolfSshTerminalCreate f = Some (CreatedTerminal t) \<and> wf_term t \<and>
      (Columns t, Rows t) = console_size f \<and> Row t = 0 \<and> Column t = 0 \<and> ConOut t = [] \<and>
      (\<forall>r c. on_screen t r c \<longrightarrow> \<not> dirty t r c \<and> grid t r c = blank (EFI_TEXT_ATTR
         (UINTN_of_INT32 (ModeAttribute f) mod 16) (UINTN_of_INT32 (ModeAttribute f) div 16 mod 8)))
    else \<exists>calls freed. WolfSshTerminalCreate f = Some (NotCreated calls freed)"
proof (cases "ConOutPresent f \<and> pool_grants f")
  case True
  then obtain columns rows rb where c: "console_size f = (columns, rows)" "length rb = columns + 1"
    "WolfSshTerminalCreate f = Some (CreatedTerminal (created_terminal columns rows
       (UINTN_of_INT32 (ModeAttribute f) mod 16) (UINTN_of_INT32 (ModeAttribute f) div 16 mod 8) rb))"
    using Create_ok [OF assms] by auto
  let ?t = "created_terminal columns rows (UINTN_of_INT32 (ModeAttribute f) mod 16)
    (UINTN_of_INT32 (ModeAttribute f) div 16 mod 8) rb"
  have "(UINTN_of_INT32 (ModeAttribute f) div 16 mod 8) < 8" by simp
  then have "(UINTN_of_INT32 (ModeAttribute f) div 16 mod 8) < 16" by linarith
  then have "wf_term ?t" using console_size_bounds [OF c(1)] c(2) by (intro created_terminal_wf) simp_all
  then show ?thesis using True c created_terminal_blank
    by (auto simp: created_terminal_def zeroed_terminal_def)
next
  case False
  then show ?thesis using Create_ok [OF assms] by (simp only: if_False)
qed

theorem create_blank_witness:
  "\<exists>t. WolfSshTerminalCreate small_firmware = Some (CreatedTerminal t) \<and> wf_term t \<and>
      (Columns t, Rows t) = console_size small_firmware \<and> Row t = 0 \<and> Column t = 0 \<and> ConOut t = [] \<and>
      (\<forall>r c. on_screen t r c \<longrightarrow> \<not> dirty t r c \<and> grid t r c = blank (EFI_TEXT_ATTR
         (UINTN_of_INT32 (ModeAttribute small_firmware) mod 16)
         (UINTN_of_INT32 (ModeAttribute small_firmware) div 16 mod 8)))"
  using create_blank [OF small_firmware_ok(1)] small_firmware_ok(2,3) by (simp only: simp_thms if_True)

text \<open>
  C31. The self test runs to the end on every console and whatever the print library does: it
  reports success exactly when the terminal could be created, and then has freed each of the six pool blocks once.
\<close>

theorem self_test_passes:
  assumes "pool_spec f"
  shows "ok (WolfSshTerminalSelfTest sprint f) (\<lambda>(status, calls, freed).
    if ConOutPresent f \<and> pool_grants f
    then status = EFI_SUCCESS \<and> set freed = Some ` UNIV \<and> distinct freed
    else status = EFI_OUT_OF_RESOURCES)"
  by (rule SelfTest_ok [OF assms])

theorem self_test_passes_witness:
  "ok (WolfSshTerminalSelfTest position_printer small_firmware) (\<lambda>(status, calls, freed).
    if ConOutPresent small_firmware \<and> pool_grants small_firmware
    then status = EFI_SUCCESS \<and> set freed = Some ` UNIV \<and> distinct freed
    else status = EFI_OUT_OF_RESOURCES)"
  by (rule self_test_passes [OF small_firmware_ok(1)])

end
