(* ===== verification/Net_Props.thy ===== *)
theory Net_Props
  imports Session_Data Tcp4_Channel Term_Props
begin

text \<open>
  The properties of the transport, of authentication, of the session and of the whole program. Their
  witnesses use \<open>net\<close>, a firmware that grants every call and completes all outstanding tokens at each
  poll, and \<open>echo\<close>, a wolfSSH that sends at most three bytes at a time.
\<close>

section \<open>Concrete instances\<close>

fun completion :: "TOKEN \<Rightarrow> COMPLETION" where
  "completion RxToken = ReceiveComplete EFI_SUCCESS [0x68, 0x69]"
| "completion TxToken = TransmitComplete EFI_SUCCESS"
| "completion ConnectToken = ConnectComplete EFI_SUCCESS"
| "completion CloseToken = CloseComplete EFI_SUCCESS"

definition net_key :: "CHAR16 \<Rightarrow> firmware" where
  "net_key key h c = \<lparr>Status = EFI_SUCCESS, Pointer = 1, HandleBuffer = [1], MediaState = EFI_SUCCESS,
     KeyStroke = (0, key),
     Completions = (if c = Poll then map completion (filter (\<lambda>t. t \<in> outstanding h)
       [RxToken, TxToken, ConnectToken, CloseToken]) else [])\<rparr>"

lemma token_of_completion [simp]: "token_of (completion t) = t"
  by (cases t) simp_all

lemma net_conforming: "conforming (net_key key)"
proof -
  have c: "token_of \<circ> completion = id" by (simp add: fun_eq_iff)
  have len: "ReceiveComplete status bytes = completion t \<Longrightarrow> length bytes \<le> RX_CAPACITY" for status bytes t
    by (cases t) simp_all
  show ?thesis unfolding conforming_def Let_def
    by (auto simp: net_key_def posted_def image_image c intro: len)
qed

abbreviation (input) net :: firmware where
  "net \<equiv> net_key (of_char (CHR ''y''))"

definition open_socket :: tcp4 where
  "open_socket = InitialSocket\<lparr>Child := 4, Binding := 5, Protocol := 1, RxEvent := 2, TxEvent := 3\<rparr>"

lemma open_socket_streaming: "streaming [] open_socket" and open_socket_buffer: "wf_buffer open_socket"
  by (simp_all add: open_socket_def InitialSocket_def ZeroSocket_def streaming_def wf_socket_def wf_buffer_def
    unread_def end_known_def)

definition plain_options :: WOLFSSH_UEFI_OPTIONS where
  "plain_options = ZeroOptions\<lparr>Port := 22\<rparr>"

lemma plain_options_wf: "wf_options plain_options"
  by (simp add: plain_options_def wf_options_def ZeroOptions_def terminated_def)

lemma plain_options_sel [simp]: "HaveFingerprint plain_options = False" "AcceptAnyHostKey plain_options = False"
  "HavePassword plain_options = False"
  by (simp_all add: plain_options_def ZeroOptions_def)

definition open_auth :: auth where
  "open_auth = (InitialAuth plain_options)\<lparr>Socket := open_socket\<rparr>"

lemma open_auth_inv: "auth_inv [] open_auth" and open_auth_app: "app_inv open_socket open_auth"
  using open_socket_streaming plain_options_wf
  by (auto simp: open_auth_def InitialAuth_def auth_inv_def app_inv_def)

lemma open_auth_sel [simp]: "HostKeyChecked open_auth = False" "HaveFingerprint (Options open_auth) = False"
  "AcceptAnyHostKey (Options open_auth) = False" "HavePassword (Options open_auth) = False"
  "Socket open_auth = open_socket"
  by (simp_all add: open_auth_def InitialAuth_def)

definition zero_hash :: hash where
  "zero_hash key = Some (replicate 32 0)"

lemma zero_hash_spec: "hash_spec zero_hash"
  by (simp add: hash_spec_def zero_hash_def)

definition demo :: "CHAR16 \<Rightarrow> ENVIRONMENT" where
  "demo key = \<lparr>Firmware = net_key key, Sha256 = zero_hash, Sprint = position_printer, Turns = 2\<rparr>"

lemma demo_ok: "env_ok (demo key)"
  by (simp add: demo_def env_ok_def net_conforming zero_hash_spec)

text \<open>The state of \<open>echo\<close> holds the bytes accepted, those delivered and those still to deliver.\<close>

type_synonym echo_state = "UINT8 list \<times> UINT8 list \<times> UINT8 list"

definition echo :: "echo_state WOLFSSH" where
  "echo = \<lparr>wolfSSH_stream_read = (\<lambda>n (a, d, q).
       if q = [] then Answer (Inl WS_WANT_READ, (a, d, q)) else Answer (Inr (take n q), (a, d @ take n q, drop n q))),
     wolfSSH_extended_data_read = (\<lambda>n st. Answer (Inr [], st)),
     wolfSSH_stream_send = (\<lambda>bytes (a, d, q). OnSend bytes (\<lambda>res. case res of
         Transferred k \<Rightarrow> Answer (Inr (min 3 (length bytes)), (a @ take 3 bytes, d, q))
       | _ \<Rightarrow> Answer (Inl WS_SOCKET_ERROR_E, (a, d, q)))),
     wolfSSH_connect = (\<lambda>st. Answer (WS_SUCCESS, st)),
     wolfSSH_worker = (\<lambda>st. Answer (WS_SUCCESS, st)),
     wolfSSH_shutdown = (\<lambda>st. Answer (WS_SUCCESS, st)),
     wolfSSH_get_error = (\<lambda>st. WS_WANT_READ)\<rparr>"

lemma echo_sends: "sends echo fst"
  by (auto simp: sends_def echo_def min_def split: CBIO.split)

lemma echo_delivers: "delivers echo (\<lambda>(a, d, q). d)"
  by (auto simp: delivers_def echo_def)

text \<open>After authentication, and at the start of a session on the small terminal.\<close>

definition ready_auth :: auth where
  "ready_auth = open_auth\<lparr>HostKeyChecked := True, PasswordPrompted := True\<rparr>"

lemma ready_auth_alive: "alive live open_socket ready_auth"
  using open_socket_streaming plain_options_wf
  by (auto simp: alive_def settled_def ready_auth_def open_auth_def InitialAuth_def app_inv_def auth_inv_def)

lemma ready_link: "link_alive live open_socket (st, ready_auth)"
  by (simp add: link_alive_def ready_auth_alive)

definition ready_session :: "echo_state \<Rightarrow> echo_state SESSION" where
  "ready_session st = \<lparr>Terminal = tiny, Link = (st, ready_auth), SessionStatus = EFI_SUCCESS,
     Finished = False, Activity = False\<rparr>"

lemma ready_session_alive: "session_alive live open_socket (ready_session st)"
  by (simp add: session_alive_def ready_session_def wf_tiny ready_link)

lemma ready_session_inv: "session_inv open_socket (ready_session st)"
  using ready_session_alive [of False st] by (simp add: session_alive_def session_inv_def)

section \<open>The program\<close>

definition demo_program :: "echo_state PROGRAM" where
  "demo_program = \<lparr>Env = demo 0x1d, Lib = echo, Ip4 = (\<lambda>_. (EFI_SUCCESS, [10, 0, 2, 2])), ShellStatus = EFI_SUCCESS,
     Arguments = [[], wide ''root@10.0.2.2''], Rng = (EFI_SUCCESS, \<lambda>n. (EFI_SUCCESS, replicate n 0)),
     InitResult = WS_SUCCESS, ContextCreated = True, SshCreated = Some ([], [], [0x41]),
     SetUsername = (\<lambda>_ st. (WS_SUCCESS, st)), SetChannelType = (\<lambda>st. (WS_SUCCESS, st)),
     Console = small_firmware\<rparr>"

text \<open>
  C1. Whatever the command line, the firmware, the server behind wolfSSH and the user do within
  their contracts, the program never leaves an array, and whenever it returns it has given back every
  event, child handle and pool block of the network stack. Every object of wolfSSH that was created has
  then been freed exactly once, in the reverse order of creation, and none that was not; the
  password was cleared, before the library was cleaned up, whenever the library had been initialised.
\<close>

theorem program_safe:
  assumes "env_ok (Env p)" and "pool_spec (Console p)"
  shows "safe (UefiMain p) (left_clean p)"
  by (rule UefiMain_ok [OF assms])

definition self_test_program :: "echo_state PROGRAM" where
  "self_test_program = demo_program\<lparr>Arguments := [[], wide ''--self-test'']\<rparr>"

lemma self_test_returns:
  "\<exists>a. UefiMain self_test_program = Returned (EFI_SUCCESS, Some a, [Init, ClearPassword, LibraryCleanup])"
proof -
  have parse: "WolfSshParseArguments (Ip4 self_test_program) (ShellStatus self_test_program) (Arguments self_test_program) =
      Some (Inr (ZeroOptions\<lparr>Port := 22, SelfTest := True\<rparr>))"
    by (simp add: self_test_program_def demo_program_def WolfSshParseArguments_def wide_def of_char_def ZeroOptions_def)
  obtain calls freed where test: "WolfSshTerminalSelfTest (Sprint (Env self_test_program)) small_firmware =
      Some (EFI_SUCCESS, calls, freed)"
    using SelfTest_ok [OF small_firmware_ok(1), of "Sprint (Env self_test_program)"] small_firmware_ok(2,3)
    by (auto elim!: okE)
  have "Console self_test_program = small_firmware" "InitResult self_test_program = WS_SUCCESS"
    "Rng self_test_program = (EFI_SUCCESS, \<lambda>n. (EFI_SUCCESS, replicate n 0))"
    by (simp_all add: self_test_program_def demo_program_def)
  then show ?thesis
    using parse test by (simp add: UefiMain_def Let_def CleanUp_def UefiRandomGenerateBlock_def ZeroOptions_def
        InitialAuth_def InitialSocket_def ZeroSocket_def)
qed

theorem program_safe_witness:
  "safe (UefiMain demo_program) (left_clean demo_program) \<and>
    (\<exists>a. UefiMain self_test_program = Returned (EFI_SUCCESS, Some a, [Init, ClearPassword, LibraryCleanup]) \<and>
      left_clean self_test_program (EFI_SUCCESS, Some a, [Init, ClearPassword, LibraryCleanup]))"
proof
  show "safe (UefiMain demo_program) (left_clean demo_program)"
    by (rule program_safe) (simp_all add: demo_program_def demo_ok small_firmware_ok)
  have "safe (UefiMain self_test_program) (left_clean self_test_program)"
    by (rule program_safe) (simp_all add: self_test_program_def demo_program_def demo_ok small_firmware_ok)
  then show "\<exists>a. UefiMain self_test_program = Returned (EFI_SUCCESS, Some a, [Init, ClearPassword, LibraryCleanup]) \<and>
      left_clean self_test_program (EFI_SUCCESS, Some a, [Init, ClearPassword, LibraryCleanup])"
    using self_test_returns by (auto simp: safe_def)
qed

section \<open>The transport\<close>

text \<open>
  C4. The transport is a byte stream. However receiving, sending and polling are interleaved, the
  bytes handed to wolfSSH so far followed by those still in the socket are exactly the bytes the
  driver received, in order. One call hands out a non-empty piece no longer than asked for, and reports
  the end of the stream only when the driver did and no byte is left.
\<close>

theorem tcp_stream:
  assumes "conforming fw" and "streaming d s"
  shows "ok (transfers (socket_step fw) ops s) (\<lambda>(bytes, s'). received (Log s') = d @ bytes @ unread s') \<and>
    ok (WolfSshTcp4RecvCallback fw n s) (\<lambda>(res, bytes, s').
      received (Log s') = d @ bytes @ unread s' \<and> recv_result n res bytes s')"
proof
  show "ok (transfers (socket_step fw) ops s) (\<lambda>(bytes, s'). received (Log s') = d @ bytes @ unread s')"
    by (rule socket.nothing_lost [where base = s]) (use assms in \<open>simp add: channel_inv_def\<close>)
  show "ok (WolfSshTcp4RecvCallback fw n s) (\<lambda>(res, bytes, s').
      received (Log s') = d @ bytes @ unread s' \<and> recv_result n res bytes s')"
    by (rule ok_mono [OF RecvCallback_ok [OF assms]]) (auto simp: streaming_def)
qed

theorem tcp_stream_witness:
  "ok (transfers (socket_step net) [RecvOp 1, PollOp, SendOp [1, 2], RecvOp 5] open_socket) (\<lambda>(bytes, s').
      received (Log s') = [] @ bytes @ unread s') \<and>
    ok (WolfSshTcp4RecvCallback net 5 open_socket) (\<lambda>(res, bytes, s').
      received (Log s') = [] @ bytes @ unread s' \<and> recv_result 5 res bytes s')"
  using tcp_stream [OF net_conforming open_socket_streaming] by blast

text \<open>
  C7. Connecting leaks nothing: an attempt that fails on every network interface has given back all
  that the firmware handed out, at whatever step each of them failed, and after one that succeeded,
  and any traffic, closing the socket gives everything back.
\<close>

theorem tcp_ledger:
  assumes "conforming fw"
  shows "ok (WolfSshTcp4Connect fw address port InitialSocket) (\<lambda>(status, s).
    if EFI_ERROR status then given_back s
    else connected s \<and> (\<exists>d. streaming d s) \<and>
      (\<forall>d s'. streaming d s' \<and> kept_open s s' \<longrightarrow> ok (WolfSshTcp4Close fw abort s') given_back))"
proof (rule ok_mono [OF Connect_ok [OF assms InitialSocket_ok]], goal_cases)
  case (1 x)
  obtain status s where x: "x = (status, s)" by (cases x)
  show ?case
  proof (cases "EFI_ERROR status")
    case True
    then show ?thesis using 1(2) x given_back_fresh by (simp add: attempted_def)
  next
    case False
    then have s: "connected s" "balanced {#} s" "\<exists>d. streaming d s" using 1(2) x by (simp_all add: attempted_def)
    have "ok (WolfSshTcp4Close fw abort s') given_back" if "streaming d s'" "kept_open s s'" for d s'
    proof (rule ok_mono [OF Close_ok [OF assms streaming_buffer [OF that(1)], where other = "{#}"]])
      show "balanced {#} s'" using kept_open_balanced [OF that(2)] s(2) by simp
      show "RxToken \<in> outstanding (Log s') \<or> RxActive s' \<longrightarrow> Protocol s' \<noteq> 0 \<and> TxEvent s' \<noteq> 0"
        "Child s' \<noteq> 0 \<longrightarrow> Binding s' \<noteq> 0"
        using kept_open_connected [OF that(2)] s(1) by (simp_all add: connected_def)
    qed (auto intro: given_back_fresh closed_fresh)
    then show ?thesis using False s x by auto
  qed
qed

theorem tcp_ledger_witness:
  "ok (WolfSshTcp4Connect net [10, 0, 2, 2] 22 InitialSocket) (\<lambda>(status, s).
    if EFI_ERROR status then given_back s
    else connected s \<and> (\<exists>d. streaming d s) \<and>
      (\<forall>d s'. streaming d s' \<and> kept_open s s' \<longrightarrow> ok (WolfSshTcp4Close net True s') given_back))"
  by (rule tcp_ledger [OF net_conforming])

text \<open>
  C13. The time the transport takes. Sending stalls for 31 seconds at most, reports a timeout only
  after waiting 30 seconds, and reports success only when the driver took exactly the given bytes.
  Receiving never stalls and makes two calls of the firmware at most.
\<close>

theorem transport_time:
  assumes "conforming fw" and "streaming d s"
  shows "ok (WolfSshTcp4SendCallback fw bytes s) (\<lambda>(res, s'). \<exists>h. Log s' = Log s @ h \<and> stalled h \<le> 31000000 \<and>
      (case res of Transferred k \<Rightarrow> k = length bytes \<and> transmitted h = bytes
       | WS_CBIO_ERR_TIMEOUT \<Rightarrow> 30000000 \<le> stalled h | _ \<Rightarrow> transmitted h = bytes \<or> transmitted h = [])) \<and>
    ok (WolfSshTcp4RecvCallback fw n s) (\<lambda>(res, bytes, s'). \<exists>h. Log s' = Log s @ h \<and> stalled h = 0 \<and> length h \<le> 2)"
proof
  show "ok (WolfSshTcp4SendCallback fw bytes s) (\<lambda>(res, s'). \<exists>h. Log s' = Log s @ h \<and> stalled h \<le> 31000000 \<and>
      (case res of Transferred k \<Rightarrow> k = length bytes \<and> transmitted h = bytes
       | WS_CBIO_ERR_TIMEOUT \<Rightarrow> 30000000 \<le> stalled h | _ \<Rightarrow> transmitted h = bytes \<or> transmitted h = []))"
    by (rule ok_mono [OF ok_conj [OF Send_time [OF assms(1) streaming_buffer [OF assms(2)]] SendCallback_ok [OF assms]]])
      (auto split: CBIO.split)
  show "ok (WolfSshTcp4RecvCallback fw n s) (\<lambda>(res, bytes, s'). \<exists>h. Log s' = Log s @ h \<and> stalled h = 0 \<and> length h \<le> 2)"
    by (rule ok_mono [OF Recv_time [OF assms]]) (auto simp: within_def)
qed

theorem transport_time_witness:
  "ok (WolfSshTcp4SendCallback net [1, 2] open_socket) (\<lambda>(res, s'). \<exists>h. Log s' = Log open_socket @ h \<and>
      stalled h \<le> 31000000 \<and>
      (case res of Transferred k \<Rightarrow> k = length [1, 2 :: UINT8] \<and> transmitted h = [1, 2]
       | WS_CBIO_ERR_TIMEOUT \<Rightarrow> 30000000 \<le> stalled h | _ \<Rightarrow> transmitted h = [1, 2] \<or> transmitted h = [])) \<and>
    ok (WolfSshTcp4RecvCallback net 7 open_socket) (\<lambda>(res, bytes, s'). \<exists>h. Log s' = Log open_socket @ h \<and>
      stalled h = 0 \<and> length h \<le> 2)"
  by (rule transport_time [OF net_conforming open_socket_streaming])

section \<open>Authentication\<close>

text \<open>
  C8. A pinned key decides: when the fingerprint option was given a text that denotes the digest
  \<open>pinned\<close>, a server's first key is accepted exactly when its SHA-256 digest is \<open>pinned\<close>, and nobody is asked.
\<close>

theorem host_key_pinned:
  assumes "ParseFingerprint s buf = Some (EFI_SUCCESS, Fingerprint (Options a))" and "length buf = 65"
    and "map hex_digit (hex_text s) = hex_of pinned" and "HaveFingerprint (Options a)"
    and "hash_spec sha256" and "sha256 key = Some digest" and "key \<noteq> []" and "\<not> HostKeyChecked a"
  shows "WolfSshHostKeyCallback sha256 fw turns key a =
    Returned (if digest = pinned then 0 else -1, a\<lparr>HostKeyChecked := True, HostKeyAccepted := (digest = pinned)\<rparr>)"
proof -
  have "Fingerprint (Options a) = hex_of pinned @ [0]"
    using ParseFingerprint_ok [OF assms(2), of s] assms(1,3) by (auto split: if_splits)
  then have "cstr (Fingerprint (Options a)) = hex_of pinned" using cstr_hex_of [of pinned "[]"] by simp
  then show ?thesis
    using HostKey_pinned [OF assms(5-8) assms(4), of fw turns] by (auto simp: hex_of_inj Let_def)
qed

definition pinned_auth :: auth where
  "pinned_auth = open_auth\<lparr>Options := plain_options\<lparr>HaveFingerprint := True,
     Fingerprint := replicate 64 0x30 @ [0]\<rparr>\<rparr>"

theorem host_key_pinned_witness:
  "WolfSshHostKeyCallback zero_hash net 1 [1] pinned_auth =
    Returned (0, pinned_auth\<lparr>HostKeyChecked := True, HostKeyAccepted := True\<rparr>)"
proof -
  have t: "hex_text (replicate 64 0x30) = replicate 64 0x30"
    by (simp add: hex_text_def text_of_def)
  have d: "hex_digit 0x30 = 0x30" and z: "HexDigits ! 0 = 0x30" and h: "is_hex 0x30"
    by (simp_all add: hex_digit_def HexDigits_def is_hex_def hex_table_def of_char_def)
  have p: "ParseFingerprint (replicate 64 0x30) (replicate 65 0) = Some (EFI_SUCCESS, Fingerprint (Options pinned_auth))"
    using ParseFingerprint_ok [of "replicate 65 0" "replicate 64 0x30"] t d h
    by (simp add: pinned_auth_def)
  have m: "map hex_digit (hex_text (replicate 64 0x30)) = hex_of (replicate 32 0)"
    unfolding t using d z by (simp add: hex_of_def numeral_eq_Suc)
  show ?thesis
    using host_key_pinned [OF p _ m, of zero_hash "[1]" "replicate 32 0" net 1]
    by (simp add: pinned_auth_def zero_hash_spec open_auth_def InitialAuth_def zero_hash_def)
qed

text \<open>
  C9. A host key is accepted only for a reason: the verdict on an earlier key, the pinned fingerprint,
  the option to accept every key, or an explicit yes as the first deciding key at the prompt.
\<close>

theorem host_key_reasons:
  assumes "conforming fw" and "hash_spec sha256" and "auth_inv d a"
  shows "safe (WolfSshHostKeyCallback sha256 fw turns key a) (\<lambda>(res, a').
    auth_inv d a' \<and> Options a' = Options a \<and> kept_open (Socket a) (Socket a') \<and>
    (res = -1 \<or> res = 0 \<and>
      (HostKeyChecked a \<and> HostKeyAccepted a \<or>
       (\<exists>digest. sha256 key = Some digest \<and>
         (if HaveFingerprint (Options a) then cstr (Fingerprint (Options a)) = hex_of digest
          else AcceptAnyHostKey (Options a) \<or>
            (\<exists>h. Log (Socket a') = Log (Socket a) @ h \<and> answer (keys_read h)))))))"
  by (rule safe_mono [OF HostKey_ok [OF assms]]) (auto simp: prompting_def split: if_splits)

theorem host_key_reasons_witness:
  "safe (WolfSshHostKeyCallback zero_hash net 1 [1] open_auth) (\<lambda>(res, a').
    auth_inv [] a' \<and> Options a' = Options open_auth \<and> kept_open (Socket open_auth) (Socket a') \<and>
    (res = -1 \<or> res = 0 \<and>
      (HostKeyChecked open_auth \<and> HostKeyAccepted open_auth \<or>
       (\<exists>digest. zero_hash [1] = Some digest \<and>
         (if HaveFingerprint (Options open_auth) then cstr (Fingerprint (Options open_auth)) = hex_of digest
          else AcceptAnyHostKey (Options open_auth) \<or>
            (\<exists>h. Log (Socket a') = Log (Socket open_auth) @ h \<and> answer (keys_read h)))))))"
  by (rule host_key_reasons [OF net_conforming zero_hash_spec open_auth_inv])

text \<open>
  C10. A password is handed over only when the server asks for password authentication. It is the one
  of the command line when there is one, and otherwise what the line editor makes of the keys typed at
  the only prompt, up to the Enter key; it never exceeds 255 characters.
\<close>

theorem password_prompt:
  assumes "conforming fw" and "auth_inv d a"
  shows "safe (WolfSshUserAuthCallback fw turns authType a) (\<lambda>(res, a'). auth_inv d a' \<and>
    (\<forall>pw. res = WOLFSSH_USERAUTH_SUCCESS pw \<longrightarrow> authType = WOLFSSH_USERAUTH_PASSWORD \<and> length pw \<le> 255 \<and>
      (if HavePassword (Options a) then a' = a \<and> pw = cstr (Password (Options a))
       else \<not> PasswordPrompted a \<and> (\<exists>h keys. Log (Socket a') = Log (Socket a) @ h \<and>
         keys_read h = keys @ [0x0d] \<and> pw = edited keys))))"
  by (rule safe_mono [OF UserAuth_ok [OF assms]]) (fastforce simp: prompting_def split: if_splits)

theorem password_prompt_witness:
  "safe (WolfSshUserAuthCallback (net_key 0x0d) 1 WOLFSSH_USERAUTH_PASSWORD open_auth) (\<lambda>(res, a'). auth_inv [] a' \<and>
    (\<forall>pw. res = WOLFSSH_USERAUTH_SUCCESS pw \<longrightarrow> WOLFSSH_USERAUTH_PASSWORD = WOLFSSH_USERAUTH_PASSWORD \<and> length pw \<le> 255 \<and>
      (if HavePassword (Options open_auth) then a' = open_auth \<and> pw = cstr (Password (Options open_auth))
       else \<not> PasswordPrompted open_auth \<and> (\<exists>h keys. Log (Socket a') = Log (Socket open_auth) @ h \<and>
         keys_read h = keys @ [0x0d] \<and> pw = edited keys))))"
  by (rule password_prompt [OF net_conforming open_auth_inv])

text \<open>
  C14. The host-key prompt ends: if the console answers every request from the \<open>n\<close>-th on with an error or
  a key that decides, the prompt returns within \<open>n + 1\<close> turns, whatever the network does meanwhile.
\<close>

theorem prompt_returns:
  assumes "conforming fw" and "wf_buffer s" and "\<And>h. n \<le> reads h \<Longrightarrow> decides (fw h ReadKeyStroke)"
  shows "\<exists>x. ReadConfirmation fw (Suc (n - reads (Log s))) s = Returned x"
  by (rule ReadConfirmation_returns [OF assms])

theorem prompt_returns_witness: "\<exists>x. ReadConfirmation net (Suc (0 - reads (Log open_socket))) open_socket = Returned x"
  by (rule prompt_returns [OF net_conforming open_socket_buffer])
    (simp add: decides_def says_yes_def net_key_def)

section \<open>The session\<close>

text \<open>
  C5. Everything handed to \<open>SendAll\<close> reaches wolfSSH once and in order, however little wolfSSH takes at a
  time; on an error a proper prefix was taken. Once the host key was judged and the password obtained
  (\<open>live\<close>), it also returns, whatever the network does.
\<close>

theorem send_all:
  assumes "env_ok env" and "sends lib accepted" and "link_alive live base l"
  shows "holds live (SendAll env lib bytes l) (\<lambda>(status, l').
    status = EFI_SUCCESS \<and> accepted (fst l') = accepted (fst l) @ bytes \<or>
    status = EFI_DEVICE_ERROR \<and> (\<exists>n < length bytes. accepted (fst l') = accepted (fst l) @ take n bytes))"
  by (rule holds_mono [OF SendAll_sends [OF assms]]) (auto simp: sent_up_to_def)

theorem send_all_witness:
  "holds True (SendAll (demo 0x1d) echo [1, 2, 3, 4, 5] (([9], [], []), ready_auth)) (\<lambda>(status, l').
    status = EFI_SUCCESS \<and> fst (fst l') = [9] @ [1, 2, 3, 4, 5] \<or>
    status = EFI_DEVICE_ERROR \<and> (\<exists>n < length [1, 2, 3, 4, 5 :: UINT8]. fst (fst l') = [9] @ take n [1, 2, 3, 4, 5]))"
  using send_all [of "demo 0x1d" echo fst True open_socket "(([9], [], []), ready_auth)" "[1, 2, 3, 4, 5]"]
  by (simp add: demo_ok echo_sends ready_link)

text \<open>
  C6. The read burst of a session shows the remote output faithfully: the bytes wolfSSH delivered on
  both of its channels during the burst went to the emulator, each once and in that order, and nothing
  else did.
\<close>

theorem burst_shows:
  assumes "env_ok env" and "delivers lib delivered" and "session_inv base st"
  shows "safe (ReadBurst env lib 32 st) (\<lambda>st'. session_inv base st' \<and>
    (\<exists>bytes. delivered (fst (Link st')) = delivered (fst (Link st)) @ bytes \<and>
      WolfSshTerminalFeed (Sprint env) (Terminal st) bytes = Some (Terminal st')))"
  by (rule safe_mono [OF ReadBurst_shows [OF assms]]) (simp add: shown_to_def)

theorem burst_shows_witness:
  "safe (ReadBurst (demo 0x1d) echo 32 (ready_session ([], [], [0x41]))) (\<lambda>st'. session_inv open_socket st' \<and>
    (\<exists>bytes. (\<lambda>(a, d, q). d) (fst (Link st')) =
        (\<lambda>(a, d, q). d) (fst (Link (ready_session ([], [], [0x41])))) @ bytes \<and>
      WolfSshTerminalFeed (Sprint (demo 0x1d)) (Terminal (ready_session ([], [], [0x41]))) bytes = Some (Terminal st')))"
  by (rule burst_shows [OF demo_ok echo_delivers ready_session_inv])

text \<open>
  C12. The emulator's replies go back to the server: the reply loop sends all that are pending, in
  order, and leaves none, or the session ends with an error after a proper prefix.
\<close>

theorem replies_sent:
  assumes "env_ok env" and "sends lib accepted" and "session_alive live base st" and "2 \<le> Turns env"
  shows "holds live (ReplyLoop env lib st) (\<lambda>st'. pending (Terminal st') = [] \<and>
    (Finished st' = Finished st \<and> accepted (fst (Link st')) = accepted (fst (Link st)) @ pending (Terminal st) \<or>
     Finished st' \<and> EFI_ERROR (SessionStatus st') \<and> (\<exists>n < length (pending (Terminal st)).
       accepted (fst (Link st')) = accepted (fst (Link st)) @ take n (pending (Terminal st)))))"
  by (rule holds_mono [OF ReplyLoop_replies [OF assms]]) (simp add: replied_def)

theorem replies_sent_witness:
  "holds True (ReplyLoop (demo 0x1d) echo (ready_session ([], [], []))) (\<lambda>st'. pending (Terminal st') = [] \<and>
    (Finished st' = Finished (ready_session ([], [], [])) \<and> fst (fst (Link st')) =
       fst (fst (Link (ready_session ([], [], [])))) @ pending (Terminal (ready_session ([], [], []))) \<or>
     Finished st' \<and> EFI_ERROR (SessionStatus st') \<and>
       (\<exists>n < length (pending (Terminal (ready_session ([], [], [])))).
         fst (fst (Link st')) = fst (fst (Link (ready_session ([], [], [])))) @
           take n (pending (Terminal (ready_session ([], [], [])))))))"
  by (rule replies_sent [OF demo_ok echo_sends ready_session_alive]) (simp add: demo_def)

text \<open>
  C11. What the session does with a key. Ctrl-] ends it: nothing is sent, the status is success, and
  the next turn of the main loop leaves it. A key without bytes is dropped. Any other key sends its
  bytes, which follow the application-cursor mode of the emulator, in order, or ends the session with an
  error after a proper prefix.
\<close>

theorem key_turn:
  assumes "env_ok env" and "sends lib accepted" and "session_alive live base st" and "\<not> Finished st"
    and "Link st = (ssh, a)" and r: "r = Firmware env (Log (Socket a)) ReadKeyStroke" and "\<not> EFI_ERROR (Status r)"
  defines "app \<equiv> ApplicationCursor (Terminal st)" and "scan \<equiv> fst (KeyStroke r)" and "ch \<equiv> snd (KeyStroke r)"
  shows "if ch = 0x1d then \<exists>st'. KeyTurn env lib st = Returned (Inr st') \<and> SessionTurn env lib st' = Returned (Inr st') \<and>
        SessionStatus st' = EFI_SUCCESS \<and> fst (Link st') = ssh
      else if ch = 0 \<and> MappedKey app scan = None then \<exists>st'. KeyTurn env lib st = Returned (Inr st') \<and>
        \<not> Finished st' \<and> SessionStatus st' = EFI_SUCCESS \<and> fst (Link st') = ssh
      else holds live (KeyTurn env lib st) (\<lambda>r. case r of
          Inl st' \<Rightarrow> \<not> Finished st' \<and> accepted (fst (Link st')) = accepted ssh @ key_bytes app scan ch
        | Inr st' \<Rightarrow> Finished st' \<and> EFI_ERROR (SessionStatus st') \<and> (\<exists>n < length (key_bytes app scan ch).
            accepted (fst (Link st')) = accepted ssh @ take n (key_bytes app scan ch)))"
proof -
  have ssh: "fst (Link st) = ssh" using assms(5) by simp
  show ?thesis
    using KeyTurn_sends [OF assms(1-7), unfolded key_sent_def ssh] unfolding app_def scan_def ch_def
    by (auto simp: SessionTurn_def split: if_splits)
qed

theorem key_turn_witness:
  "(\<exists>st'. KeyTurn (demo 0x1d) echo (ready_session ([], [], [])) = Returned (Inr st') \<and>
      SessionTurn (demo 0x1d) echo st' = Returned (Inr st') \<and>
      SessionStatus st' = EFI_SUCCESS \<and> fst (Link st') = ([], [], [])) \<and>
    holds True (KeyTurn (demo 0x61) echo (ready_session ([], [], []))) (\<lambda>r. case r of
        Inl st' \<Rightarrow> \<not> Finished st' \<and> fst (fst (Link st')) = [0x61]
      | Inr st' \<Rightarrow> Finished st' \<and> EFI_ERROR (SessionStatus st') \<and> fst (fst (Link st')) = [])"
proof -
  have link: "Link (ready_session ([], [], [])) = (([], [], []), ready_auth)"
    and fin: "\<not> Finished (ready_session ([], [], []))"
    and tiny: "Terminal (ready_session ([], [], [])) = tiny"
    by (simp_all add: ready_session_def)
  have reply: "\<not> EFI_ERROR (Status (Firmware (demo k) h ReadKeyStroke))"
    "KeyStroke (Firmware (demo k) h ReadKeyStroke) = (0, k)" for k h
    by (simp_all add: demo_def net_key_def)
  have none: "MappedKey False 0 = None" by (simp add: MappedKey_def)
  note ctrl = key_turn [OF demo_ok [of "0x1d"] echo_sends ready_session_alive [of True] fin link refl reply(1), unfolded reply tiny]
    and letter = key_turn [OF demo_ok [of "0x61"] echo_sends ready_session_alive [of True] fin link refl reply(1), unfolded reply tiny]
  show ?thesis using ctrl letter
    by (auto simp: key_bytes_def none utf8_def split: sum.splits elim!: holds_mono)
qed

end
