(* ===== verification/Spec2Isabelle.thy ===== *)
theory Spec2Isabelle
  imports Net_Props
begin

text \<open>
  A verification development for the wolfSSH client of the UEFI shell: the application under
  \<open>src/WolfSshPkg/Application/WolfSsh\<close> and the C runtime under \<open>src/WolfSshPkg/Library/UefiCompatLib\<close>.

  The program. \<open>UefiMain\<close> (Main.c) parses the command line (Arguments.c), opens one TCP connection
  (Tcp4.c), lets wolfSSH authenticate over it with the callbacks of Auth.c, and then runs the
  interactive session: what wolfSSH delivers goes through a terminal emulator (Terminal.c) to the
  console, and keys and the emulator's replies go back. UefiCompat.c gives wolfSSH its allocator, string
  functions, random numbers and the size of the terminal.

  Parts and theories. Each theory has the model of its part first, in the order of the code, and then
  its lemmas.

  \<^item> \<open>Prelude\<close>: wrap-around arithmetic on \<open>UINTN\<close>, the status codes, array accesses that fail out of
    range, \<open>CopyMem\<close>, loop combinators with their rules, and the judgements \<open>ok\<close> (no undefined
    behaviour, and a postcondition), \<open>safe\<close> and \<open>holds\<close> (the same for loops that wait for something
    outside the program). Its locales are the contracts of a step that never gets stuck
    (\<open>safe_stream\<close>) and of a bounded queue (\<open>bounded_fifo\<close>).
  \<^item> Terminal.c: \<open>Term_State\<close> (the structure, its invariant \<open>wf_term\<close>), \<open>Term_Cells\<close>, \<open>Term_Scroll\<close>,
    \<open>Term_Chars\<close>, \<open>Term_Modes\<close> (painting, scrolling, printing, editing, colours, erasing),
    \<open>Term_Csi\<close> and \<open>Term_Parser\<close> (control sequences, reply queue, UTF-8, the byte parser), \<open>Term_Life\<close>
    (creation, flush, destruction, self test), \<open>Term_Keys\<close> (keyboard). Every operation has a lemma
    that it stays inside its arrays, keeps the invariant, and does exactly what is stated to the
    cells and the dirty ranges. \<open>Term_Trip\<close> has round trips through the parser, \<open>Term_Alt\<close> the screen
    that is not shown, \<open>Term_Ref\<close> reference definitions, \<open>Term_Props\<close> the properties. The emulator's
    parser is an instance of \<open>safe_stream\<close>, its reply queue of \<open>bounded_fifo\<close>.
  \<^item> Arguments.c: \<open>Args\<close>, with the option record of WolfSshUefi.h and its invariant \<open>wf_options\<close>.
  \<^item> Tcp4.c: \<open>Tcp4\<close> is the model; \<open>Tcp4_Stream\<close> the contract of the driver (\<open>conforming\<close>), the
    invariant of the socket (\<open>streaming\<close>) and the refinement of a byte stream; \<open>Tcp4_Open\<close> the ledger
    of handles that opening and closing keep balanced, and the time the operations take;
    \<open>Tcp4_Channel\<close> the interface \<open>byte_channel\<close> and the socket as an instance of it.
  \<^item> Auth.c: \<open>Auth\<close>, the two prompts and the two callbacks.
  \<^item> UefiCompat.c: \<open>Compat\<close>. The allocator works on a pool of blocks by address; writing a header to
    a block that is too small for it is an access outside the block.
  \<^item> Main.c: \<open>Session\<close> is the model, \<open>Session_Safe\<close> the invariant of a connection and of the whole
    program, whose model records the calls that create and free the objects of wolfSSH and the
    clearing of the password (\<open>left_clean\<close> says what must hold of them), \<open>Session_Data\<close> what is sent and shown. \<open>Net_Props\<close> has the properties of Tcp4.c, Auth.c
    and Main.c, with the concrete firmware and server of their witnesses.

  How C becomes HOL. Structures are records with the names of the source, enumerations are
  datatypes, \<open>UINT8\<close> and \<open>CHAR16\<close> are words, \<open>UINTN\<close> is a natural number with explicit wrap-around
  (64 bits, as on both supported architectures). Undefined behaviour is the value \<open>None\<close>. A pointer,
  handle or event of the firmware is a number, 0 being the null pointer. Mutable structures are passed
  through and returned; no two of them alias in the program.

  Code that is not in the repository is a parameter, with what the sources rely on as a hypothesis:
  \<^item> the firmware answers each call from the history of calls and answers (\<open>firmware\<close>), so that
    every deterministic behaviour is covered. Tokens complete, and notification functions run, while a
    call runs; that is when the firmware signals events for callers at the lowest task priority.
    \<open>conforming\<close> is its contract;
  \<^item> each function of wolfSSH is an interaction, which may call the four callbacks any finite number
    of times before it answers (\<open>WOLFSSH\<close>, \<open>perform\<close>). \<open>sends\<close> and \<open>delivers\<close> are the contracts of its
    data functions; the safety of the program needs none of them;
  \<^item> the console and the pool (\<open>FIRMWARE\<close>, \<open>pool_spec\<close>; \<open>pool_contract\<close> for the allocator), \<open>AsciiSPrint\<close>, \<open>NetLibAsciiStrToIp4\<close>, SHA-256
    (\<open>hash_spec\<close>) and the random number generator.

  Bounds. The loops of the code with a counter or a timeout are total functions. The loops that wait for
  the user or the server (\<open>ReadConfirmation\<close>, \<open>ReadPassword\<close>, \<open>DrainExtendedData\<close>, the reply loop, the
  key loop and the session's main loop) get a number of turns, \<open>Turns\<close>, and are \<open>Running\<close> when it does not
  suffice. Safety holds for every number. Where a loop must end, this is proved: two turns are enough
  for the reply loop, the prompt returns within as many turns as it takes the user to decide, Ctrl-]
  ends the session at once, and after authentication sending always returns.

  What the properties show, in the order of the manifest: the safety and tidiness of the whole program,
  the safety of the emulator and that the console mirrors its screen after a flush, the byte stream,
  the sending and showing of the session's data, the ledger and the time of the transport, host keys
  and passwords, keys and replies, the alternate screen, reports and echoes, colours, printing, scrolling,
  editing and erasing, UTF-8, the reply queue, creation and self test, the command line, the
  allocator, the string functions, and that emulator and server agree on the size of the terminal.

  Not modelled: the text the program prints and \<open>WolfSshPrintUsage\<close>; null pointer arguments, which no
  caller passes; the clearing of the random probe in \<open>UefiMain\<close>, a local array that nothing reads
  later; the two empty link markers; the preprocessor configuration \<open>user_settings.h\<close>, the EDK2
  package files, scripts, tests and the patch to wolfSSH, which have no behaviour of the program's own.
\<close>

section \<open>Properties that span components\<close>

text \<open>
  C40. The size of the terminal that the server is told is the size of the terminal that was
  created, when the console reports the same to both, except for a console that reports more than
  65535 but at most 4294967295 columns or rows: such a size goes to the server, while the emulator
  falls back to 80 by 25.
\<close>

theorem pty_size_agrees:
  assumes "pool_spec f" and "WolfSshTerminalCreate f = Some (CreatedTerminal t)"
    and "QueryMode f (80, 25) = (status, columns, rows)"
  shows "wolfSSH_UEFI_GetTerminalInfo (Some (status, columns, rows)) =
      (Columns t, Rows t, 0, 0, ''xterm-256color'') \<longleftrightarrow>
    \<not> (\<not> EFI_ERROR status \<and> 0 < columns \<and> 0 < rows \<and> columns \<le> 4294967295 \<and> rows \<le> 4294967295 \<and>
       (65535 < columns \<or> 65535 < rows))"
proof -
  have "(Columns t, Rows t) = console_size f"
    using Create_ok [OF assms(1)] assms(2)
    by (auto simp: created_terminal_def zeroed_terminal_def split: if_splits)
  then show ?thesis
    using assms(3) by (auto simp: wolfSSH_UEFI_GetTerminalInfo_def console_size_def Let_def split: if_splits)
qed

theorem pty_size_agrees_witness:
  "\<exists>t. WolfSshTerminalCreate small_firmware = Some (CreatedTerminal t) \<and>
    wolfSSH_UEFI_GetTerminalInfo (Some (EFI_SUCCESS, 3, 2)) = (Columns t, Rows t, 0, 0, ''xterm-256color'')"
proof -
  obtain t where t: "WolfSshTerminalCreate small_firmware = Some (CreatedTerminal t)"
    using Create_ok [OF small_firmware_ok(1)] small_firmware_ok(2,3) by auto
  then show ?thesis
    using pty_size_agrees [OF small_firmware_ok(1) t, of EFI_SUCCESS 3 2] by (auto simp: small_firmware_def)
qed

end
